(* ===== verification/Prelude.thy ===== *)
theory Prelude
  imports Main "HOL-Library.AList" "HOL-Library.Char_ord" "HOL-Library.List_Lexorder"
begin

text \<open>
  What the theories of this library share: the names of the model's basic types, the few
  SQL statements the hub's registry is written in as functions on lists of rows, Python
  dictionaries as association lists in insertion order, counters, and decimal numerals.

  A table is the list of its rows in \<open>rowid\<close> order. SQLite gives a new row the largest
  \<open>rowid\<close> plus one, so an \<open>INSERT\<close> appends. \<open>INSERT OR REPLACE\<close> deletes the row it
  conflicts with and appends the new one. \<open>ON CONFLICT DO UPDATE\<close> changes the row in place.
\<close>

named_theorems table_simps \<open>what the SQL statements do to a table's rows\<close>
named_theorems dict_simps \<open>lookups in dictionaries after they change\<close>

text \<open>An id the code draws with \<open>uuid4\<close>, and a moment as \<open>datetime\<close> counts it.\<close>

type_synonym uuid = nat
type_synonym moment = int
type_synonym ('k, 'v) dict = "('k \<times> 'v) list"

text \<open>A JSON value. A number with a fraction or an exponent keeps its text.\<close>

datatype json = J_Null | J_Bool bool | J_Int int | J_Float string | J_Str string
  | J_Array "json list" | J_Object "(string \<times> json) list"

text \<open>A second and a day, in the moments' unit.\<close>

definition SECOND :: int where "SECOND = 1000000"

definition DAY :: int where "DAY = 86400 * SECOND"

section \<open>SQL statements on lists of rows\<close>

definition row_update :: "('r \<Rightarrow> bool) \<Rightarrow> ('r \<Rightarrow> 'r) \<Rightarrow> 'r list \<Rightarrow> 'r list" where
  "row_update p f rows = map (\<lambda>r. if p r then f r else r) rows"

definition row_delete :: "('r \<Rightarrow> bool) \<Rightarrow> 'r list \<Rightarrow> 'r list" where
  "row_delete p rows = filter (\<lambda>r. \<not> p r) rows"

definition row_replace :: "('r \<Rightarrow> 'k) \<Rightarrow> 'r \<Rightarrow> 'r list \<Rightarrow> 'r list" where
  "row_replace key r rows = filter (\<lambda>x. key x \<noteq> key r) rows @ [r]"

definition row_upsert :: "('r \<Rightarrow> 'k) \<Rightarrow> ('r \<Rightarrow> 'r \<Rightarrow> 'r) \<Rightarrow> 'r \<Rightarrow> 'r list \<Rightarrow> 'r list" where
  "row_upsert key merge r rows =
     (if key r \<in> key ` set rows
      then map (\<lambda>x. if key x = key r then merge x r else x) rows
      else rows @ [r])"

lemma row_update_Nil [simp]: "row_update p f [] = []"
  by (simp add: row_update_def)

lemma row_update_Cons [simp]:
  "row_update p f (r # rows) = (if p r then f r else r) # row_update p f rows"
  by (simp add: row_update_def)

lemma row_update_append [simp]:
  "row_update p f (rows @ more) = row_update p f rows @ row_update p f more"
  by (simp add: row_update_def)

lemma length_row_update [simp]: "length (row_update p f rows) = length rows"
  by (simp add: row_update_def)

lemma row_update_id: "(\<And>r. r \<in> set rows \<Longrightarrow> \<not> p r) \<Longrightarrow> row_update p f rows = rows"
  by (induction rows) auto

lemma set_row_update:
  "set (row_update p f rows) = f ` {r \<in> set rows. p r} \<union> {r \<in> set rows. \<not> p r}"
  by (auto simp: row_update_def image_iff)

lemma map_row_update [table_simps]:
  "(\<And>r. key (f r) = key r) \<Longrightarrow> map key (row_update p f rows) = map key rows"
  by (induction rows) auto

lemma image_row_update [table_simps]:
  "(\<And>r. key (f r) = key r) \<Longrightarrow> key ` set (row_update p f rows) = key ` set rows"
  by (induction rows) auto

lemma find_row_update_keeps:
  assumes "\<And>r. key (f r) = key r"
  shows "find (\<lambda>r. key r = k) (row_update P f rows) = map_option (\<lambda>r. if P r then f r else r) (find (\<lambda>r. key r = k) rows)"
  by (induction rows) (simp_all add: assms)

lemma find_row_update_key:
  assumes "\<And>r. key (f r) = key r"
  shows "find (\<lambda>r. key r = k) (row_update (\<lambda>r. key r = k') f rows) =
    map_option (\<lambda>r. if k = k' then f r else r) (find (\<lambda>r. key r = k) rows)"
  using assms by (induction rows) auto

lemma filter_row_update:
  assumes "\<And>r. q (f r) = q r"
  shows "filter q (row_update p f rows) = row_update p f (filter q rows)"
  using assms by (induction rows) auto

lemma row_delete_Nil [simp]: "row_delete p [] = []"
  by (simp add: row_delete_def)

lemma row_delete_Cons [simp]:
  "row_delete p (r # rows) = (if p r then row_delete p rows else r # row_delete p rows)"
  by (simp add: row_delete_def)

lemma set_row_delete [simp]: "set (row_delete p rows) = {r \<in> set rows. \<not> p r}"
  by (auto simp: row_delete_def)

lemma distinct_map_row_delete [table_simps]:
  "distinct (map key rows) \<Longrightarrow> distinct (map key (row_delete p rows))"
  by (simp add: row_delete_def distinct_map_filter)

lemma set_row_replace [table_simps]:
  "set (row_replace key r rows) = {x \<in> set rows. key x \<noteq> key r} \<union> {r}"
  by (auto simp: row_replace_def)

lemma distinct_row_replace [table_simps]:
  "distinct (map key rows) \<Longrightarrow> distinct (map key (row_replace key r rows))"
  by (auto simp: row_replace_def distinct_map_filter)

lemma find_row_replace:
  "find (\<lambda>x. key x = k) (row_replace key r rows) =
     (if k = key r then Some r else find (\<lambda>x. key x = k) rows)"
  by (induction rows) (auto simp: row_replace_def)

lemma distinct_row_upsert:
  assumes "distinct (map key rows)" "\<And>x. key x = key r \<Longrightarrow> key (merge x r) = key r"
  shows "distinct (map key (row_upsert key merge r rows))"
proof -
  have "map key (map (\<lambda>x. if key x = key r then merge x r else x) rows) = map key rows"
    using assms(2) by (induction rows) auto
  then show ?thesis using assms(1) by (auto simp: row_upsert_def simp del: map_map)
qed

lemma find_Some_key: "find (\<lambda>r. key r = k) rows = Some r \<Longrightarrow> key r = k \<and> r \<in> set rows"
  by (induction rows) (auto split: if_splits)

lemma find_None_key: "find (\<lambda>r. key r = k) rows = None \<longleftrightarrow> k \<notin> key ` set rows"
  by (induction rows) auto

lemma find_distinct_key:
  "distinct (map key rows) \<Longrightarrow> r \<in> set rows \<Longrightarrow> find (\<lambda>x. key x = key r) rows = Some r"
  by (induction rows) auto

lemma find_append:
  "find p (xs @ ys) = (case find p xs of None \<Rightarrow> find p ys | Some x \<Rightarrow> Some x)"
  by (induction xs) auto

section \<open>Python dictionaries\<close>

text \<open>
  A dictionary is the list of its items in insertion order, each key once: \<open>AList.update\<close>
  keeps the place of a key that is already there, as an assignment does.
\<close>

definition dict_set :: "'k \<Rightarrow> 'v \<Rightarrow> ('k, 'v) dict \<Rightarrow> ('k, 'v) dict" where
  "dict_set k v d = AList.update k v d"

definition dict_union :: "('k, 'v) dict \<Rightarrow> ('k, 'v) dict \<Rightarrow> ('k, 'v) dict" where
  "dict_union a b = fold (\<lambda>(k, v) d. dict_set k v d) b a"

definition dict_get :: "('k, 'v) dict \<Rightarrow> 'k \<Rightarrow> 'v \<Rightarrow> 'v" where
  "dict_get d k other = (case map_of d k of None \<Rightarrow> other | Some v \<Rightarrow> v)"

lemma map_of_dict_set [dict_simps]: "map_of (dict_set k v d) = (map_of d)(k \<mapsto> v)"
  by (simp add: dict_set_def update_conv')

lemma dict_union_Nil [simp]: "dict_union a [] = a"
  by (simp add: dict_union_def)

lemma dict_union_Cons [simp]: "dict_union a ((k, v) # b) = dict_union (dict_set k v a) b"
  by (simp add: dict_union_def)

lemma map_of_dict_union:
  "distinct (map fst b) \<Longrightarrow> map_of (dict_union a b) = map_of a ++ map_of b"
proof (induction b arbitrary: a)
  case (Cons kv b)
  obtain k v where kv: "kv = (k, v)" by (cases kv)
  with Cons.prems have "k \<notin> dom (map_of b)" and "distinct (map fst b)"
    by (auto simp: dom_map_of_conv_image_fst)
  with Cons.IH kv show ?case
    by (auto simp: dict_simps map_add_def fun_eq_iff domIff split: option.splits)
qed simp

lemma distinct_dict_set [simp]: "distinct (map fst d) \<Longrightarrow> distinct (map fst (dict_set k v d))"
  by (simp add: dict_set_def distinct_update)

lemma distinct_dict_union [simp]:
  "distinct (map fst a) \<Longrightarrow> distinct (map fst (dict_union a b))"
  by (induction b arbitrary: a) auto

lemma fst_dict_set [simp]: "fst ` set (dict_set k v d) = insert k (fst ` set d)"
proof -
  have "dom (map_of (dict_set k v d)) = insert k (dom (map_of d))"
    by (simp add: dict_simps)
  then show ?thesis by (simp add: dom_map_of_conv_image_fst)
qed

lemma map_of_filter_distinct:
  "distinct (map fst d) \<Longrightarrow> map_of (filter p d) k =
     (case map_of d k of None \<Rightarrow> None | Some v \<Rightarrow> if p (k, v) then Some v else None)"
proof (induction d)
  case (Cons kv d)
  obtain k' v' where kv: "kv = (k', v')" by (cases kv)
  with Cons.prems have "map_of d k' = None" by (simp add: map_of_eq_None_iff)
  with Cons kv show ?case by auto
qed simp

text \<open>A \<open>collections.Counter\<close>: a key it never saw counts zero.\<close>

type_synonym 'k counter = "('k, nat) dict"

definition count_of :: "'k counter \<Rightarrow> 'k \<Rightarrow> nat" where
  "count_of c k = dict_get c k 0"

definition count_up :: "'k \<Rightarrow> 'k counter \<Rightarrow> 'k counter" where
  "count_up k c = dict_set k (Suc (count_of c k)) c"

definition count_total :: "'k counter \<Rightarrow> nat" where
  "count_total c = sum_list (map snd c)"

lemma count_of_Nil [simp]: "count_of [] k = 0"
  by (simp add: count_of_def dict_get_def)

lemma count_of_up [dict_simps]: "count_of (count_up k c) k' = (if k = k' then Suc (count_of c k) else count_of c k')"
  by (simp add: count_of_def count_up_def dict_get_def dict_simps)

section \<open>Text\<close>

text \<open>The decimal digits of a number, as \<open>str\<close> writes them.\<close>

fun str_nat :: "nat \<Rightarrow> string" where
  "str_nat n = (if n < 10 then [''0123456789'' ! n] else str_nat (n div 10) @ [''0123456789'' ! (n mod 10)])"

declare str_nat.simps [simp del]

definition str_int :: "int \<Rightarrow> string" where
  "str_int i = (if i < 0 then ''-'' @ str_nat (nat (- i)) else str_nat (nat i))"

definition char_between :: "char \<Rightarrow> char \<Rightarrow> char \<Rightarrow> bool" where
  "char_between lo hi c \<longleftrightarrow> (of_char lo :: nat) \<le> of_char c \<and> (of_char c :: nat) \<le> of_char hi"

text \<open>The text before the first separator, and what follows it.\<close>

fun partition_at :: "char \<Rightarrow> string \<Rightarrow> string \<times> string" where
  "partition_at sep [] = ([], [])"
| "partition_at sep (c # cs) =
     (if c = sep then ([], cs) else (case partition_at sep cs of (a, b) \<Rightarrow> (c # a, b)))"

fun split_on :: "char \<Rightarrow> string \<Rightarrow> string list" where
  "split_on sep [] = [[]]"
| "split_on sep (c # cs) =
     (if c = sep then [] # split_on sep cs
      else (case split_on sep cs of [] \<Rightarrow> [[c]] | w # ws \<Rightarrow> (c # w) # ws))"

definition starts_with :: "string \<Rightarrow> string \<Rightarrow> bool" where
  "starts_with s prefix \<longleftrightarrow> take (length prefix) s = prefix"

lemma split_on_not_Nil [simp]: "split_on sep cs \<noteq> []"
  by (induction cs) (auto split: list.splits)

section \<open>Joining texts\<close>

text \<open>Python's \<open>sep.join\<close>.\<close>

fun joined :: "string \<Rightarrow> string list \<Rightarrow> string" where
  "joined sep [] = []"
| "joined sep [w] = w"
| "joined sep (w # v # ws) = w @ sep @ joined sep (v # ws)"

end
