(* ===== verification/Run_Types.thy ===== *)
theory Run_Types
  imports Prelude
begin

text \<open>
  The contract's records for factory runs (src/src/kinby/contracts/models.py): the values a
  work item and a step result carry, what the hub asks an instance to run, what one attempt
  hands back, and the run, the attempt and the stop as the hub shows them. A name the contract
  gives a pattern (a step id, a value name) is a \<open>string\<close>.
\<close>

datatype step_value = VBool bool | VInt int | VStr string

datatype coding_client = Claude | Codex

datatype reasoning_effort = Low | Medium | High | XHigh | Max

datatype run_status = Running | Queued | Parked | Needs_Human | Done | Cancelled

datatype step_ending = Clean | Failed | Timed_Out | Interrupted | Ending_Needs_Human | Limited

text \<open>An entry of a command step's run: a command, or the name of a list of repository commands.\<close>

datatype run_entry = Command string | Repository_Commands string

datatype step_run =
    Agent_Step_Run (asr_prompt: string)
  | Client_Step_Run (csr_client: coding_client) (csr_prompt: string) (csr_resume: "string option")
      (csr_timeout: nat) (csr_model: "string option") (csr_effort: "reasoning_effort option")
      (csr_branch: "string option")
  | Command_Step_Run (cmr_run: "run_entry list") (cmr_timeout: "nat option")
      (cmr_branch: "string option")
  | Code_Step_Run (cdr_call: string) (cdr_summary: "string option")

record run_origin =
  ro_factory :: string
  ro_run :: uuid
  ro_step :: string

record step_run_command =
  src_step :: step_run
  src_origin :: run_origin
  src_attempt :: "nat option"
  src_hook :: "string option"
  src_work_item :: "(string, step_value) dict"
  src_results :: "(string, step_value) dict"

record step_result =
  sr_ending :: step_ending
  sr_outcome :: "string option"
  sr_values :: "(string, step_value) dict"
  sr_summary :: string
  sr_session :: "string option"
  sr_resets_at :: "moment option"

text \<open>The validator of a step result: a limited one says when its plan window resets, and only it.\<close>

definition step_result_valid :: "step_result \<Rightarrow> bool" where
  "step_result_valid r \<longleftrightarrow> (sr_ending r = Limited \<longleftrightarrow> sr_resets_at r \<noteq> None)"

text \<open>A result as most of the engine builds it: an ending and a summary, everything else at its default.\<close>

definition plain_result :: "step_ending \<Rightarrow> string \<Rightarrow> step_result" where
  "plain_result e s = \<lparr>sr_ending = e, sr_outcome = None, sr_values = [], sr_summary = s,
     sr_session = None, sr_resets_at = None\<rparr>"

record factory_run =
  fr_id :: uuid
  fr_factory :: string
  fr_instance :: uuid
  fr_work_item :: "(string, step_value) dict"
  fr_status :: run_status
  fr_step :: "string option"
  fr_wakes_at :: "moment option"
  fr_created_at :: moment
  fr_updated_at :: moment

record step_attempt =
  at_step :: string
  at_attempt :: nat
  at_ending :: "step_ending option"
  at_outcome :: "string option"
  at_values :: "(string, step_value) dict"
  at_summary :: string
  at_session :: "string option"
  at_started :: moment
  at_ended :: "moment option"

record run_stop =
  rs_run :: uuid
  rs_factory :: string
  rs_work_item :: "(string, step_value) dict"
  rs_status :: run_status
  rs_generation :: nat
  rs_attempts :: "step_attempt list"

text \<open>One stop of a run: the run, and the generation that names the stop.\<close>

record run_stop_ref =
  ref_run :: uuid
  ref_generation :: nat

text \<open>The statuses of a run, in the order the enumeration lists them.\<close>

definition all_statuses :: "run_status list" where
  "all_statuses = [Running, Queued, Parked, Needs_Human, Done, Cancelled]"

text \<open>The text of a status and of a value, as an f-string shows them.\<close>

fun status_text :: "run_status \<Rightarrow> string" where
  "status_text Running = ''running''"
| "status_text Queued = ''queued''"
| "status_text Parked = ''parked''"
| "status_text Needs_Human = ''needs-human''"
| "status_text Done = ''done''"
| "status_text Cancelled = ''cancelled''"

fun str_value :: "step_value \<Rightarrow> string" where
  "str_value (VBool b) = (if b then ''True'' else ''False'')"
| "str_value (VInt i) = str_int i"
| "str_value (VStr s) = s"

lemma status_text_inject [simp]: "status_text a = status_text b \<longleftrightarrow> a = b"
  by (cases a; cases b) auto

lemma all_statuses_all [simp]: "s \<in> set all_statuses"
  by (cases s) (auto simp: all_statuses_def)

lemma plain_result_simps [simp]:
  "sr_ending (plain_result e s) = e" "sr_outcome (plain_result e s) = None"
  "sr_values (plain_result e s) = []" "sr_summary (plain_result e s) = s"
  "sr_session (plain_result e s) = None" "sr_resets_at (plain_result e s) = None"
  by (simp_all add: plain_result_def)

end
