(* ===== verification/Hub_Tables.thy ===== *)
theory Hub_Tables
  imports Run_Types
begin

text \<open>
  The rest of the registry's tables (src/src/kinby/hub/registry.py): the instances the hub
  manages with their storage and factory roles, the operations on them and their steps, the
  logins, the hub's secrets and sessions, the images and the skills. The contract's enumerations
  and records the rows carry come first (src/src/kinby/contracts/models.py).
\<close>

section \<open>The contract's values\<close>

datatype intended_state = Stopped | Intended_Running | Removed | Deleted

datatype storage_kind = Bind | Volume

record storage_item =
  sg_kind :: storage_kind
  sg_source :: string
  sg_destination :: string
  sg_writable :: bool

datatype avatar_shape = Circle | Squircle | Square

datatype avatar_color = Blue | Violet | Green | Amber | Red | Gray

record avatar =
  av_shape :: avatar_shape
  av_color :: avatar_color

definition DEFAULT_AVATAR :: avatar where
  "DEFAULT_AVATAR = \<lparr>av_shape = Circle, av_color = Blue\<rparr>"

datatype setup_field_kind = Config_Field | Secret_Field

datatype setup_field_type =
  Text_Field | Multiline_Field | Boolean_Field | Integer_Field | Choice_Field | Email_Field | Url_Field

record setup_target =
  tg_file :: string
  tg_key :: string

record setup_field =
  sf_name :: string
  sf_label :: string
  sf_description :: string
  sf_kind :: setup_field_kind
  sf_type :: setup_field_type
  sf_required :: bool
  sf_default :: "step_value option"
  sf_choices :: "string list option"
  sf_target :: "setup_target option"

record subscription_login =
  sl_id :: string
  sl_label :: string
  sl_description :: string
  sl_command :: "string list"
  sl_volume :: string
  sl_prompt_pattern :: string

record declared_setup =
  ds_setup_fields :: "setup_field list"
  ds_logins :: "subscription_login list"

datatype operation_kind =
    Create_Op | Start_Op | Stop_Op | Secrets_Op | Recreate_Op | Adopt_Op | Update_Op | Remove_Op
  | Restore_Op | Delete_Op | Prepare_Op | Login_Op | Hub_Secret_Op

datatype operation_state = Op_Pending | Op_Running | Op_Succeeded | Op_Failed

datatype login_state = Login_Pending | Signed_In | Login_Failed

record login_prompt =
  lp_url :: string
  lp_code :: string

record operation_step =
  ps_name :: string
  ps_state :: operation_state
  ps_detail :: string
  ps_prompt :: "login_prompt option"

record operation_result =
  og_id :: uuid
  og_instance :: "uuid option"
  og_kind :: operation_kind
  og_state :: operation_state
  og_detail :: string
  og_steps :: "operation_step list"
  og_requester :: "uuid option"

record git_source =
  gs_url :: string
  gs_path :: string
  gs_ref :: "string option"
  gs_commit :: string

record image_artifact =
  ia_image :: string
  ia_revision :: string
  ia_dependency :: string
  ia_base_images :: "string list"
  ia_dependencies :: "string list"

section \<open>What the hub manages\<close>

text \<open>The factory role an instance picked, and what its instance template declared.\<close>

record factory_member =
  fm_factory :: string
  fm_name :: string
  fm_recipe :: "string option"
  fm_setup :: declared_setup
  fm_baseline :: "(string, string) dict option"

record managed_instance =
  mi_id :: uuid
  mi_path :: string
  mi_manifest_id :: string
  mi_persona :: "string option"
  mi_requested_revision :: string
  mi_source_revision :: "string option"
  mi_image :: "string option"
  mi_intended :: intended_state
  mi_runtime_id :: string
  mi_prepared :: bool
  mi_storage :: "storage_item list"
  mi_avatar :: avatar
  mi_factory :: "factory_member option"
  mi_home :: bool

text \<open>Prepared and neither removed nor deleted: what the hub lists, routes, and operates.\<close>

definition active :: "managed_instance \<Rightarrow> bool" where
  "active m \<longleftrightarrow> mi_prepared m \<and> mi_intended m \<in> {Stopped, Intended_Running}"

record storage_conflict =
  sc_item :: storage_item
  sc_owner :: uuid

section \<open>Rows and tables\<close>

record instance_row =
  ir_id :: uuid
  ir_path :: string
  ir_manifest_id :: string
  ir_persona :: "string option"
  ir_requested_revision :: string
  ir_source_revision :: "string option"
  ir_image :: "string option"
  ir_intended :: intended_state
  ir_runtime_id :: string
  ir_prepared :: bool
  ir_avatar :: "avatar option"

record storage_row =
  tr_instance :: uuid
  tr_kind :: storage_kind
  tr_source :: string
  tr_destination :: string
  tr_writable :: bool

record operation_row =
  op_id :: uuid
  op_instance :: "uuid option"
  op_kind :: operation_kind
  op_state :: operation_state
  op_detail :: string
  op_login :: "string option"
  op_requester :: "uuid option"

record operation_step_row =
  os_operation :: uuid
  os_position :: nat
  os_name :: string
  os_state :: operation_state
  os_detail :: string
  os_prompt :: "login_prompt option"

record link_row =
  lk_instance :: uuid
  lk_variable :: string
  lk_secret :: string

record login_row =
  lg_instance :: uuid
  lg_login :: string
  lg_state :: login_state
  lg_changed :: moment

record candidate_row =
  cd_instance :: uuid
  cd_requested_revision :: string
  cd_source_revision :: string
  cd_image :: string

record member_row =
  mr_instance :: uuid
  mr_member :: factory_member

record git_skill_row =
  gk_name :: string
  gk_source :: git_source
  gk_hash :: "string option"

text \<open>
  The tables, with each key of \<open>hub_metadata\<close> as a field of its own. An image artifact's row is
  its input key and the artifact, an image description's its image and the setup.
\<close>

record hub_db =
  instance_rows :: "instance_row list"
  storage_rows :: "storage_row list"
  operation_rows :: "operation_row list"
  operation_step_rows :: "operation_step_row list"
  link_rows :: "link_row list"
  login_rows :: "login_row list"
  artifact_rows :: "(string \<times> image_artifact) list"
  description_rows :: "(string \<times> declared_setup) list"
  candidate_rows :: "candidate_row list"
  member_rows :: "member_row list"
  shipped_skill_rows :: "(string \<times> string) list"
  git_skill_rows :: "git_skill_row list"
  session_rows :: "string list"
  meta_hub_id :: "uuid option"
  meta_signal_alias :: "uuid option"
  meta_access_token :: "string option"
  meta_update_token :: "string option"
  meta_home :: "uuid option"

text \<open>A statement that breaks a key, a reference or a \<open>NOT NULL\<close>, and a refusal with its reason.\<close>

datatype hub_error = Hub_Integrity_Error | Refused string

definition unfinished_state :: "operation_state \<Rightarrow> bool" where
  "unfinished_state s \<longleftrightarrow> s \<in> {Op_Pending, Op_Running}"

lemma unfinished_state_simps [simp]:
  "unfinished_state Op_Pending" "unfinished_state Op_Running"
  "\<not> unfinished_state Op_Succeeded" "\<not> unfinished_state Op_Failed"
  by (simp_all add: unfinished_state_def)

end
