(* ===== verification/Factory_File.thy ===== *)
theory Factory_File
  imports Hub_Tables
begin

text \<open>
  The factory file (src/src/kinby/factories/file.py): the declarations a factory is made of, the
  run values a command or a filter names as \<open>{{name}}\<close>, and the lists of repository commands its
  steps name.
\<close>

section \<open>Declarations\<close>

datatype value_type = Str_Type | Int_Type | Bool_Type

datatype send_back = Send_Back (sb_back: string) (sb_max: nat)

datatype outcome = Next | Finish | Stop | Back send_back

text \<open>A filter of a wait: what each field of the signal must be.\<close>

type_synonym signal_filter = "(string, step_value) dict"

text \<open>A duration such as \<open>60m\<close>, as its number and its unit.\<close>

datatype duration_unit = Seconds | Minutes | Hours | Days

datatype duration = Duration nat duration_unit

datatype step_kind =
    Agent_Step (ag_instance: string) (ag_prompt: string) (ag_hook: string)
  | Client_Step (cl_instance: string) (cl_client: coding_client) (cl_prompt: string)
      (cl_hook: string) (cl_resume: "string option") (cl_model: "string option")
      (cl_effort: "reasoning_effort option") (cl_branch: "string option")
  | Command_Step (cm_instance: string) (cm_run: "run_entry list") (cm_hook: "string option")
      (cm_branch: "string option")
  | Code_Step (cd_instance: string) (cd_call: string)
  | Wait_Step (wt_signal: "signal_filter list") (wt_quiet: "duration option")
      (wt_deadline: "duration option")
  | Approve_Step (ap_summary: string)

text \<open>A step: the fields every kind shares, and its kind's own.\<close>

record step =
  st_id :: string
  st_requires :: "string list"
  st_results :: "(string, value_type) dict"
  st_outcomes :: "(string, outcome) dict"
  st_retry :: "nat option"
  st_failed :: "send_back option"
  st_timeout :: "duration option"
  st_kind :: step_kind

record intake =
  in_instance :: string
  in_routine :: string

text \<open>The needs_human call and the ended call: an instance tool the hub calls.\<close>

record stop_call =
  ca_instance :: string
  ca_call :: string

record closing =
  cs_done :: "signal_filter list"
  cs_cancelled :: "signal_filter list"

text \<open>One instance the steps run in: its image recipe, what it asks for, its logins and skills.\<close>

record instance_declaration =
  id_image :: "string option"
  id_setup_fields :: "setup_field list"
  id_logins :: "subscription_login list"
  id_suggested_picks :: "string list"

record factory_file =
  ff_name :: string
  ff_instances :: "(string, instance_declaration) dict"
  ff_intake :: intake
  ff_work_item :: "(string, value_type) dict"
  ff_steps :: "step list"
  ff_done_requires :: "string list"
  ff_needs_human :: "stop_call option"
  ff_ended :: "stop_call option"
  ff_closing :: closing

definition FAILURE :: string where "FAILURE = ''failure''"

definition QUIET :: string where "QUIET = ''quiet''"

fun unit_seconds :: "duration_unit \<Rightarrow> nat" where
  "unit_seconds Seconds = 1"
| "unit_seconds Minutes = 60"
| "unit_seconds Hours = 3600"
| "unit_seconds Days = 86400"

fun duration_seconds :: "duration \<Rightarrow> nat" where
  "duration_seconds (Duration n u) = n * unit_seconds u"

fun duration_text :: "duration \<Rightarrow> string" where
  "duration_text (Duration n u) =
     str_nat n @ (case u of Seconds \<Rightarrow> ''s'' | Minutes \<Rightarrow> ''m'' | Hours \<Rightarrow> ''h'' | Days \<Rightarrow> ''d'')"

fun is_wait :: "step_kind \<Rightarrow> bool" where
  "is_wait (Wait_Step _ _ _) = True"
| "is_wait _ = False"

fun is_approve :: "step_kind \<Rightarrow> bool" where
  "is_approve (Approve_Step _) = True"
| "is_approve _ = False"

text \<open>The filters of a wait.\<close>

definition signals_of :: "step \<Rightarrow> signal_filter list" where
  "signals_of s = (case st_kind s of Wait_Step filters _ _ \<Rightarrow> filters | _ \<Rightarrow> [])"

fun is_client :: "step_kind \<Rightarrow> bool" where
  "is_client (Client_Step _ _ _ _ _ _ _ _) = True"
| "is_client _ = False"

text \<open>The instance a step runs in, for the kinds that run in one.\<close>

fun kind_instance :: "step_kind \<Rightarrow> string option" where
  "kind_instance (Agent_Step i _ _) = Some i"
| "kind_instance (Client_Step i _ _ _ _ _ _ _) = Some i"
| "kind_instance (Command_Step i _ _ _) = Some i"
| "kind_instance (Code_Step i _) = Some i"
| "kind_instance _ = None"

section \<open>Run values\<close>

text \<open>
  The pattern \<open>\{\{([a-z_][a-z0-9_]*)\}\}\<close>. The characters of a name take no brace, so the name is
  the longest run of them, and \<open>run_value_at\<close> gives the name the text starts with and what
  follows it. \<open>find_run_values\<close> is \<open>findall\<close>, and \<open>sub_run_values\<close> is \<open>sub\<close>: both go on
  after the match.
\<close>

definition name_start :: "char \<Rightarrow> bool" where
  "name_start c \<longleftrightarrow> char_between CHR ''a'' CHR ''z'' c \<or> c = CHR ''_''"

definition name_char :: "char \<Rightarrow> bool" where
  "name_char c \<longleftrightarrow> name_start c \<or> char_between CHR ''0'' CHR ''9'' c"

definition run_value_at :: "string \<Rightarrow> (string \<times> string) option" where
  "run_value_at s =
     (case s of
        a # b # c # cs \<Rightarrow>
          (if a = CHR ''{'' \<and> b = CHR ''{'' \<and> name_start c
           then (case dropWhile name_char cs of
               d # e # rest \<Rightarrow>
                 (if d = CHR ''}'' \<and> e = CHR ''}''
                  then Some (c # takeWhile name_char cs, rest) else None)
             | _ \<Rightarrow> None)
           else None)
      | _ \<Rightarrow> None)"

lemma run_value_at_length:
  assumes "run_value_at s = Some (name, rest)"
  shows "length rest < length s"
proof -
  from assms obtain a b c cs d e where s: "s = a # b # c # cs"
    and d: "dropWhile name_char cs = d # e # rest"
    by (auto simp: run_value_at_def split: list.splits if_splits)
  have "length (dropWhile name_char cs) \<le> length cs" by (rule length_dropWhile_le)
  with s d show ?thesis by simp
qed

function find_run_values :: "string \<Rightarrow> string list" where
  "find_run_values s =
     (case run_value_at s of
        Some (name, rest) \<Rightarrow> name # find_run_values rest
      | None \<Rightarrow> (case s of [] \<Rightarrow> [] | _ # cs \<Rightarrow> find_run_values cs))"
  by pat_completeness auto
termination
  by (relation "measure length") (auto dest: run_value_at_length)

declare find_run_values.simps [simp del]

text \<open>\<open>fullmatch\<close> on a value: the name, when the whole text is one \<open>{{name}}\<close>.\<close>

fun run_value_name :: "step_value \<Rightarrow> string option" where
  "run_value_name (VStr s) = (case run_value_at s of Some (name, []) \<Rightarrow> Some name | _ \<Rightarrow> None)"
| "run_value_name _ = None"

definition run_value_names :: "step \<Rightarrow> string list" where
  "run_value_names st =
     (let entries = (case st_kind st of
          Command_Step _ run _ branch \<Rightarrow>
            concat (map (\<lambda>e. case e of Command c \<Rightarrow> [c] | Repository_Commands _ \<Rightarrow> []) run) @
            (case branch of Some b \<Rightarrow> [b] | None \<Rightarrow> [])
        | Client_Step _ _ _ _ _ _ _ (Some branch) \<Rightarrow> [branch]
        | _ \<Rightarrow> [])
      in concat (map find_run_values entries))"

text \<open>\<open>shlex.quote\<close>: the text as it is when every character is safe, else in single quotes.\<close>

definition shell_safe :: "char \<Rightarrow> bool" where
  "shell_safe c \<longleftrightarrow> name_char c \<or> char_between CHR ''A'' CHR ''Z'' c \<or> c \<in> set ''@%+=:,./-''"

definition shlex_quote :: "string \<Rightarrow> string" where
  "shlex_quote s =
     (if s = [] then [CHR 0x27, CHR 0x27]
      else if list_all shell_safe s then s
      else CHR 0x27 # concat (map (\<lambda>c. if c = CHR 0x27
                                then [CHR 0x27, CHR 0x22, CHR 0x27, CHR 0x22, CHR 0x27] else [c]) s)
             @ [CHR 0x27])"

text \<open>The command with the run's values in, or \<open>None\<close> where the lookup raises \<open>KeyError\<close>.\<close>

function with_run_values :: "string \<Rightarrow> (string, step_value) dict \<Rightarrow> string option" where
  "with_run_values s held =
     (case run_value_at s of
        Some (name, rest) \<Rightarrow>
          (case map_of held name of
             None \<Rightarrow> None
           | Some v \<Rightarrow> map_option (\<lambda>t. shlex_quote (str_value v) @ t) (with_run_values rest held))
      | None \<Rightarrow> (case s of [] \<Rightarrow> Some [] | c # cs \<Rightarrow> map_option ((#) c) (with_run_values cs held)))"
  by pat_completeness auto
termination
  by (relation "measure (length \<circ> fst)") (auto dest: run_value_at_length)

declare with_run_values.simps [simp del]

text \<open>One step of each scan, as rewrite rules that do not loop.\<close>

lemma run_value_at_Nil [simp]: "run_value_at [] = None"
  by (simp add: run_value_at_def)

lemma find_run_values_scan [simp]:
  "find_run_values [] = []"
  "run_value_at s = Some (name, rest) \<Longrightarrow> find_run_values s = name # find_run_values rest"
  "run_value_at (c # cs) = None \<Longrightarrow> find_run_values (c # cs) = find_run_values cs"
  by (subst find_run_values.simps, simp)+

lemma with_run_values_scan [simp]:
  "with_run_values [] held = Some []"
  "run_value_at s = Some (name, rest) \<Longrightarrow> with_run_values s held =
     (case map_of held name of
        None \<Rightarrow> None
      | Some v \<Rightarrow> map_option (\<lambda>t. shlex_quote (str_value v) @ t) (with_run_values rest held))"
  "run_value_at (c # cs) = None \<Longrightarrow>
     with_run_values (c # cs) held = map_option ((#) c) (with_run_values cs held)"
  by (subst with_run_values.simps, simp)+

text \<open>The scan of a text, as an induction: at its end, past a run value, or past one character.\<close>

lemma run_value_induct [case_names Nil Value Char]:
  assumes "P []"
    and "\<And>s name rest. run_value_at s = Some (name, rest) \<Longrightarrow> P rest \<Longrightarrow> P s"
    and "\<And>c cs. run_value_at (c # cs) = None \<Longrightarrow> P cs \<Longrightarrow> P (c # cs)"
  shows "P s"
proof (induction s rule: length_induct)
  case (1 s)
  show ?case
  proof (cases "run_value_at s")
    case None
    with 1 assms show ?thesis by (cases s) auto
  next
    case (Some nr)
    then obtain name rest where "run_value_at s = Some (name, rest)" by (cases nr) auto
    with 1 assms(2) show ?thesis by (blast dest: run_value_at_length)
  qed
qed

text \<open>A command whose every named value the run holds is written without a \<open>KeyError\<close>.\<close>

lemma with_run_values_total:
  "set (find_run_values s) \<subseteq> fst ` set held \<Longrightarrow> \<exists>t. with_run_values s held = Some t"
proof (induction s rule: run_value_induct)
  case (Value s name rest)
  then have "name \<in> fst ` set held" by simp
  then obtain v where "map_of held name = Some v"
    by (metis map_of_eq_None_iff option.exhaust)
  with Value show ?case by auto
qed auto

lemma with_run_values_plain: "find_run_values s = [] \<Longrightarrow> with_run_values s held = Some s"
  by (induction s rule: run_value_induct) auto

section \<open>Lists of repository commands\<close>

definition command_lists :: "factory_file \<Rightarrow> string \<Rightarrow> string list" where
  "command_lists f role =
     rev (remdups (rev (concat (map (\<lambda>st. case st_kind st of
         Command_Step i run _ _ \<Rightarrow>
           (if i = role
            then concat (map (\<lambda>e. case e of Command _ \<Rightarrow> [] | Repository_Commands n \<Rightarrow> [n]) run)
            else [])
       | _ \<Rightarrow> []) (ff_steps f)))))"

lemma distinct_command_lists [simp]: "distinct (command_lists f role)"
  by (simp add: command_lists_def)

end
