(* ===== verification/Factory_Check.thy ===== *)
theory Factory_Check
  imports Factory_File
begin

text \<open>
  The part of the factory check (src/src/kinby/factories/check.py) that reads the factory file
  alone: the values each step asks for (\<open>_inputs\<close>), the order of the steps (\<open>_order\<close>) and the
  sessions that client steps resume (\<open>_resumes\<close>). Each check is the list of the problems it
  yields. What the engine may rely on in a factory that passes is at the end.
\<close>

section \<open>Inputs\<close>

definition not_held :: "string \<Rightarrow> string" where
  "not_held n = n @ ''\", which no earlier step declares in its results and the work item does not carry.''"

text \<open>Each field of the filters that is matched against a run value, with the name of the value.\<close>

definition filter_values :: "signal_filter list \<Rightarrow> (string \<times> string) list" where
  "filter_values filters =
     concat (map (\<lambda>(field, expected).
         case run_value_name expected of None \<Rightarrow> [] | Some n \<Rightarrow> [(field, n)]) (concat filters))"

definition step_inputs :: "string set \<Rightarrow> step \<Rightarrow> string list" where
  "step_inputs held s =
     map (\<lambda>n. ''Step \"'' @ st_id s @ ''\" requires \"'' @ not_held n)
       (filter (\<lambda>n. n \<notin> held) (st_requires s)) @
     map (\<lambda>(field, n). ''Step \"'' @ st_id s @ ''\" matches \"'' @ field @ ''\" against \"'' @ not_held n)
       (filter (\<lambda>(field, n). n \<notin> held) (filter_values (signals_of s))) @
     map (\<lambda>n. ''Step \"'' @ st_id s @ ''\" names \"'' @ not_held n)
       (filter (\<lambda>n. n \<notin> held) (run_value_names s))"

fun inputs_of_steps :: "string set \<Rightarrow> step list \<Rightarrow> string list" where
  "inputs_of_steps held [] = []"
| "inputs_of_steps held (s # ss) =
     step_inputs held s @ inputs_of_steps (held \<union> fst ` set (st_results s)) ss"

definition values_of_steps :: "string set \<Rightarrow> step list \<Rightarrow> string set" where
  "values_of_steps held ss = held \<union> \<Union> ((\<lambda>s. fst ` set (st_results s)) ` set ss)"

definition check_inputs :: "factory_file \<Rightarrow> string list" where
  "check_inputs f =
     (let carried = fst ` set (ff_work_item f); held = values_of_steps carried (ff_steps f)
      in inputs_of_steps carried (ff_steps f) @
         map (\<lambda>n. ''done_requires names \"'' @ n @
             ''\", which no step declares in its results and the work item does not carry.'')
           (filter (\<lambda>n. n \<notin> held) (ff_done_requires f)) @
         map (\<lambda>(field, n). ''closing matches \"'' @ field @ ''\" against \"'' @ n @
             ''\", which no step declares in its results and the work item does not carry.'')
           (filter (\<lambda>(field, n). n \<notin> held)
             (filter_values (cs_done (ff_closing f) @ cs_cancelled (ff_closing f)))))"

section \<open>Order\<close>

text \<open>The steps a step sends work back to: for its outcomes, then for its failures.\<close>

definition sends_back_to :: "step \<Rightarrow> string list" where
  "sends_back_to s =
     concat (map (\<lambda>(n, out). case out of Back sb \<Rightarrow> [sb_back sb] | _ \<Rightarrow> []) (st_outcomes s)) @
     (case st_failed s of None \<Rightarrow> [] | Some sb \<Rightarrow> [sb_back sb])"

definition step_order_problems :: "string set \<Rightarrow> step \<Rightarrow> string list" where
  "step_order_problems earlier s =
     (if st_id s \<in> earlier
      then [''Step id \"'' @ st_id s @ ''\" is used by more than one step.''] else []) @
     map (\<lambda>back. ''Step \"'' @ st_id s @ ''\" sends work back to \"'' @ back @
         ''\", which is not an earlier step.'')
       (filter (\<lambda>back. back \<notin> earlier) (sends_back_to s)) @
     (if st_failed s \<noteq> None \<and> st_retry s \<noteq> None
      then [''Step \"'' @ st_id s @ ''\" declares both retry and failed, but a failed attempt is sent '' @
            ''back, never tried again.''] else [])"

fun order_of_steps :: "string set \<Rightarrow> step list \<Rightarrow> string list" where
  "order_of_steps earlier [] = []"
| "order_of_steps earlier (s # ss) =
     step_order_problems earlier s @ order_of_steps (insert (st_id s) earlier) ss"

definition check_order :: "factory_file \<Rightarrow> string list" where
  "check_order f = order_of_steps {} (ff_steps f)"

section \<open>Resumed sessions\<close>

fun client_text :: "coding_client \<Rightarrow> string" where
  "client_text Claude = ''claude''"
| "client_text Codex = ''codex''"

text \<open>Whether a client step of that id, instance and client is among the steps.\<close>

definition resumable :: "step list \<Rightarrow> string \<Rightarrow> string \<Rightarrow> coding_client \<Rightarrow> bool" where
  "resumable earlier i inst client =
     list_ex (\<lambda>s. case st_kind s of
         Client_Step inst' client' _ _ _ _ _ _ \<Rightarrow> st_id s = i \<and> inst' = inst \<and> client' = client
       | _ \<Rightarrow> False) earlier"

fun resumes_of_steps :: "step list \<Rightarrow> step list \<Rightarrow> string list" where
  "resumes_of_steps earlier [] = []"
| "resumes_of_steps earlier (s # ss) =
     (case st_kind s of
        Client_Step inst client _ _ (Some i) _ _ _ \<Rightarrow>
          if resumable earlier i inst client then []
          else [''Step \"'' @ st_id s @ ''\" resumes \"'' @ i @ ''\", which is not an earlier '' @
                client_text client @ '' step in instance \"'' @ inst @ ''\".'']
      | _ \<Rightarrow> []) @ resumes_of_steps (earlier @ [s]) ss"

definition check_resumes :: "factory_file \<Rightarrow> string list" where
  "check_resumes f = resumes_of_steps [] (ff_steps f)"

section \<open>What a factory that passes has\<close>

lemma inputs_of_steps_ok:
  assumes "inputs_of_steps held ss = []" "i < length ss"
  shows "step_inputs (values_of_steps held (take i ss)) (ss ! i) = []"
  using assms
proof (induction ss arbitrary: held i)
  case (Cons s ss)
  then show ?case
    by (cases i) (auto simp: values_of_steps_def Un_assoc dest: Cons.IH)
qed simp

lemma step_inputs_ok:
  "step_inputs held s = [] \<longleftrightarrow> set (st_requires s) \<subseteq> held \<and> set (run_value_names s) \<subseteq> held \<and>
     snd ` set (filter_values (signals_of s)) \<subseteq> held"
  by (auto simp: step_inputs_def filter_empty_conv split: prod.splits)

lemma step_order_ok:
  "step_order_problems earlier s = [] \<longleftrightarrow>
     st_id s \<notin> earlier \<and> set (sends_back_to s) \<subseteq> earlier \<and> (st_failed s = None \<or> st_retry s = None)"
  by (auto simp: step_order_problems_def filter_empty_conv)

lemma order_of_steps_distinct:
  "order_of_steps earlier ss = [] \<Longrightarrow> distinct (map st_id ss) \<and> st_id ` set ss \<inter> earlier = {}"
proof (induction ss arbitrary: earlier)
  case (Cons s ss)
  from Cons.prems have "st_id s \<notin> earlier" by (simp add: step_order_ok)
  moreover have "distinct (map st_id ss) \<and> st_id ` set ss \<inter> insert (st_id s) earlier = {}"
    by (rule Cons.IH) (use Cons.prems in simp)
  ultimately show ?case by auto
qed simp

lemma order_of_steps_nth:
  assumes "order_of_steps earlier ss = []" "i < length ss"
  shows "step_order_problems (earlier \<union> st_id ` set (take i ss)) (ss ! i) = []"
  using assms
proof (induction ss arbitrary: earlier i)
  case (Cons s ss)
  show ?case
  proof (cases i)
    case 0
    with Cons.prems show ?thesis by simp
  next
    case (Suc k)
    with Cons.prems Cons.IH [of "insert (st_id s) earlier" k] show ?thesis by simp
  qed
qed simp

lemma resumes_of_steps_ok:
  assumes "resumes_of_steps earlier ss = []" "i < length ss"
    "st_kind (ss ! i) = Client_Step inst client prompt hook (Some j) model effort branch"
  shows "resumable (earlier @ take i ss) j inst client"
  using assms
proof (induction ss arbitrary: earlier i)
  case (Cons s ss)
  show ?case
  proof (cases i)
    case 0
    with Cons.prems show ?thesis by (simp split: if_splits)
  next
    case (Suc k)
    with Cons.prems Cons.IH [of "earlier @ [s]" k] show ?thesis by simp
  qed
qed simp

end
