(* ===== verification/Run_Rules.thy ===== *)
theory Run_Rules
  imports Factory_File
begin

text \<open>
  The rules of the runs engine that read no state (the functions at the end of
  src/src/kinby/hub/runs.py, and the values a run holds): where a step's result sends the run,
  what its attempts used up of the factory's retries and send-backs, which values it holds, and
  which step a lacking value is charged to.
\<close>

section \<open>The line of steps\<close>

definition step_of :: "factory_file \<Rightarrow> string \<Rightarrow> step option" where
  "step_of f i = find (\<lambda>s. st_id s = i) (ff_steps f)"

text \<open>\<open>factory.steps.index(step)\<close>: how many steps come before the first one equal to it.\<close>

definition step_index :: "factory_file \<Rightarrow> step \<Rightarrow> nat" where
  "step_index f s = length (takeWhile (\<lambda>x. x \<noteq> s) (ff_steps f))"

text \<open>The ids of the steps before the named one, or none when the factory has no such step.\<close>

definition earlier_ids :: "factory_file option \<Rightarrow> string option \<Rightarrow> string list" where
  "earlier_ids f i =
     (case (f, i) of
        (Some g, Some j) \<Rightarrow>
          (let ids = map st_id (ff_steps g)
           in if j \<in> set ids then takeWhile (\<lambda>x. x \<noteq> j) ids else [])
      | _ \<Rightarrow> [])"

definition instance_of :: "factory_file \<Rightarrow> string option \<Rightarrow> string" where
  "instance_of f i =
     (case Option.bind i (step_of f) of
        None \<Rightarrow> in_instance (ff_intake f)
      | Some s \<Rightarrow>
          (case kind_instance (st_kind s) of Some n \<Rightarrow> n | None \<Rightarrow> in_instance (ff_intake f)))"

definition outcome_of :: "step \<Rightarrow> string option \<Rightarrow> outcome option" where
  "outcome_of s name = (case name of None \<Rightarrow> Some Next | Some n \<Rightarrow> map_of (st_outcomes s) n)"

text \<open>How many times a failed step is tried again.\<close>

definition retries :: "step \<Rightarrow> nat" where
  "retries s =
     (case st_retry s of
        Some n \<Rightarrow> n
      | None \<Rightarrow> (case st_kind s of
                 Agent_Step _ _ _ \<Rightarrow> 1
               | Client_Step _ _ _ _ _ _ _ _ \<Rightarrow> 1
               | _ \<Rightarrow> 0))"

section \<open>Values\<close>

fun value_type :: "step_value \<Rightarrow> value_type" where
  "value_type (VBool _) = Bool_Type"
| "value_type (VInt _) = Int_Type"
| "value_type (VStr _) = Str_Type"

fun type_text :: "value_type \<Rightarrow> string" where
  "type_text Str_Type = ''str''"
| "type_text Int_Type = ''int''"
| "type_text Bool_Type = ''bool''"

text \<open>The first of the names the run does not hold, or holds as false.\<close>

definition lacking :: "(string, step_value) dict \<Rightarrow> string list \<Rightarrow> string option" where
  "lacking held names = find (\<lambda>n. dict_get held n (VBool False) = VBool False) names"

text \<open>A result ending as \<open>ending\<close>, with the reason after its summary.\<close>

definition noted :: "step_result \<Rightarrow> string \<Rightarrow> step_ending \<Rightarrow> step_result" where
  "noted r reason ending = r\<lparr>sr_ending := ending,
     sr_summary := (if sr_summary r \<noteq> [] then sr_summary r @ [CHR 0x0A] @ reason else reason)\<rparr>"

definition checked_done ::
  "factory_file \<Rightarrow> (string, step_value) dict \<Rightarrow> step_result \<Rightarrow> step_result" where
  "checked_done f held last_result =
     (let vals = dict_union held (sr_values last_result)
      in case lacking vals (ff_done_requires f) of
           None \<Rightarrow> last_result
         | Some n \<Rightarrow>
             noted last_result
               (''The run's done_requires needs \"'' @ n @ ''\", which '' @
                (if n \<notin> fst ` set vals then ''no step recorded'' else ''a step recorded as false'')
                @ ''.'') Failed)"

text \<open>The clean result, failed when a value it records is not of the type the step declares.\<close>

definition checked_types :: "step \<Rightarrow> step_result \<Rightarrow> step_result" where
  "checked_types s r =
     (case find (\<lambda>(n, k). case map_of (sr_values r) n of
                   None \<Rightarrow> False | Some v \<Rightarrow> value_type v \<noteq> k) (st_results s) of
        None \<Rightarrow> r
      | Some (n, k) \<Rightarrow>
          noted r (''Step \"'' @ st_id s @ ''\" declares \"'' @ n @ ''\" as '' @ type_text k @
                   '', but recorded a '' @
                   (case map_of (sr_values r) n of None \<Rightarrow> [] | Some v \<Rightarrow> type_text (value_type v))
                   @ ''.'') Failed)"

text \<open>What is wrong with each value of a work item, against the values the factory declares.\<close>

definition work_item_errors ::
  "(string, value_type) dict \<Rightarrow> (string, step_value) dict \<Rightarrow> (string, string) dict" where
  "work_item_errors declared vals =
     fold (\<lambda>(n, k) errors.
         case map_of vals n of
           None \<Rightarrow> dict_set n ''The work item needs this value.'' errors
         | Some v \<Rightarrow>
             if value_type v \<noteq> k
             then dict_set n (''Expected a value of type '' @ type_text k @ ''.'') errors else errors)
       declared
       (map (\<lambda>(n, v). (n, ''The factory's work item carries no value by this name.''))
         (filter (\<lambda>(n, v). n \<notin> fst ` set declared) vals))"

section \<open>Retries and send-backs\<close>

record tally =
  ty_failures :: "string counter"
  ty_sent_back :: "(string \<times> string) counter"

definition empty_tally :: tally where
  "empty_tally = \<lparr>ty_failures = [], ty_sent_back = []\<rparr>"

text \<open>Where a failed attempt sends the work, when its step declares where its failures go.\<close>

definition failed_to :: "factory_file \<Rightarrow> step_attempt \<Rightarrow> send_back option" where
  "failed_to f a =
     (case step_of f (at_step a) of
        None \<Rightarrow> None
      | Some s \<Rightarrow> if at_ending a = Some Failed then st_failed s else None)"

definition tally_attempt :: "factory_file \<Rightarrow> step_attempt \<Rightarrow> tally \<Rightarrow> tally" where
  "tally_attempt f a t =
     (if at_ending a = Some Clean then
        (case Option.bind (step_of f (at_step a)) (\<lambda>s. outcome_of s (at_outcome a)) of
           Some (Back sb) \<Rightarrow>
             t\<lparr>ty_sent_back := count_up (at_step a, sb_back sb) (ty_sent_back t)\<rparr>
         | _ \<Rightarrow> t)
      else
        (case failed_to f a of
           Some sb \<Rightarrow> t\<lparr>ty_sent_back := count_up (at_step a, sb_back sb) (ty_sent_back t)\<rparr>
         | None \<Rightarrow>
             if at_ending a \<in> {None, Some Limited} then t
             else t\<lparr>ty_failures := count_up (at_step a) (ty_failures t)\<rparr>))"

definition tally_of :: "factory_file \<Rightarrow> step_attempt list \<Rightarrow> tally" where
  "tally_of f as = fold (tally_attempt f) as empty_tally"

text \<open>What a run did again: its attempts per step, and its retries and send-backs.\<close>

record rework =
  rw_attempts :: "string counter"
  rw_retries :: nat
  rw_send_backs :: nat

definition rework_of :: "factory_file option \<Rightarrow> step_attempt list \<Rightarrow> rework" where
  "rework_of f as =
     (let t = (case f of None \<Rightarrow> empty_tally | Some g \<Rightarrow> tally_of g (butlast as))
      in \<lparr>rw_attempts = fold (\<lambda>a c. count_up (at_step a) c) as [],
          rw_retries = count_total (ty_failures t), rw_send_backs = count_total (ty_sent_back t)\<rparr>)"

section \<open>Where a result sends the run\<close>

text \<open>What follows a result that did not end clean, or that a check failed.\<close>

definition settled_failure ::
  "step \<Rightarrow> step_result \<Rightarrow> tally \<Rightarrow> step_result \<times> run_status \<times> string option" where
  "settled_failure s r t =
     (case (sr_ending r = Failed, st_failed s) of
        (True, Some (Send_Back back most)) \<Rightarrow>
          (let r' = r\<lparr>sr_values := dict_set FAILURE (VStr (sr_summary r)) (sr_values r)\<rparr>
           in if most \<le> count_of (ty_sent_back t) (st_id s, back)
              then (noted r' (''Step \"'' @ st_id s @ ''\" sent its failures back to \"'' @ back @
                      ''\" '' @ str_nat most @ '' times, its max.'') Failed,
                    Needs_Human, Some (st_id s))
              else (r', Queued, Some back))
      | _ \<Rightarrow>
          if sr_ending r \<in> {Timed_Out, Ending_Needs_Human} \<or>
             retries s \<le> count_of (ty_failures t) (st_id s)
          then (r, Needs_Human, Some (st_id s))
          else (r, Queued, Some (st_id s)))"

definition settled ::
  "factory_file \<Rightarrow> step \<Rightarrow> step_result \<Rightarrow> (string, step_value) dict \<Rightarrow> tally \<Rightarrow>
   step_result \<times> run_status \<times> string option" where
  "settled f s r held t =
     (let finish = (let r' = checked_done f held r
                    in if sr_ending r' = Clean then (r', Done, None) else settled_failure s r' t)
      in if sr_ending r \<noteq> Clean then settled_failure s r t
         else
           (case outcome_of s (sr_outcome r) of
              None \<Rightarrow>
                settled_failure s (noted r (''Step \"'' @ st_id s @ ''\" has no outcome \"'' @
                  (case sr_outcome r of None \<Rightarrow> ''None'' | Some n \<Rightarrow> n) @ ''\".'') Failed) t
            | Some Stop \<Rightarrow> (r, Cancelled, Some (st_id s))
            | Some (Back (Send_Back back most)) \<Rightarrow>
                if most \<le> count_of (ty_sent_back t) (st_id s, back)
                then (noted r (''Step \"'' @ st_id s @ ''\" sent the work back to \"'' @ back @
                        ''\" '' @ str_nat most @ '' times, its max.'') (sr_ending r),
                      Needs_Human, Some (st_id s))
                else (r, Queued, Some back)
            | Some Next \<Rightarrow>
                if Suc (step_index f s) < length (ff_steps f)
                then (r, Queued, Some (st_id (ff_steps f ! Suc (step_index f s))))
                else finish
            | Some Finish \<Rightarrow> finish))"

section \<open>The values a run holds\<close>

text \<open>
  \<open>_results\<close>: what each name was recorded as, with the place of the step that recorded it, the
  place and the values of the attempt before (when it recorded any), and the step whose attempt
  before recorded none.
\<close>

record held_values =
  hv_recorded :: "(string, int \<times> step_value) dict"
  hv_last :: "(int \<times> (string, step_value) dict) option"
  hv_retrying :: "string option"

definition step_order :: "factory_file \<Rightarrow> (string, int) dict" where
  "step_order f = fold (\<lambda>(at, s) d. dict_set (st_id s) (int at) d) (enumerate 0 (ff_steps f)) []"

definition start_step :: "factory_file \<Rightarrow> string \<Rightarrow> held_values \<Rightarrow> held_values" where
  "start_step f i h =
     (case map_of (step_order f) i of
        None \<Rightarrow> h
      | Some at \<Rightarrow>
          if hv_retrying h = Some i then h
          else
            let kept = filter (\<lambda>(n, (place, v)). place < at) (hv_recorded h)
            in h\<lparr>hv_recorded :=
                 (case hv_last h of
                    None \<Rightarrow> kept
                  | Some (place, vals) \<Rightarrow>
                      if at < place then dict_union kept (map (\<lambda>(n, v). (n, (at, v))) vals)
                      else kept)\<rparr>)"

definition record_attempt :: "factory_file \<Rightarrow> step_attempt \<Rightarrow> held_values \<Rightarrow> held_values" where
  "record_attempt f a h =
     (let h' = (start_step f (at_step a) h)\<lparr>hv_last := None, hv_retrying := Some (at_step a)\<rparr>
      in if at_ending a = Some Clean \<or> failed_to f a \<noteq> None then
           let place = dict_get (step_order f) (at_step a) (-1)
           in h'\<lparr>hv_recorded :=
                  dict_union (hv_recorded h') (map (\<lambda>(n, v). (n, (place, v))) (at_values a)),
                hv_last := Some (place, at_values a), hv_retrying := None\<rparr>
         else h')"

definition results ::
  "factory_file \<Rightarrow> step_attempt list \<Rightarrow> string option \<Rightarrow> (string, step_value) dict" where
  "results f as starting =
     (let h = fold (record_attempt f) as
                \<lparr>hv_recorded = [], hv_last = None, hv_retrying = None\<rparr>;
          h' = (case starting of None \<Rightarrow> h | Some i \<Rightarrow> start_step f i h)
      in map (\<lambda>(n, (place, v)). (n, v)) (hv_recorded h'))"

section \<open>Steps that cannot start\<close>

text \<open>Why a step cannot start, and the step whose attempt that fails.\<close>

record refused =
  rf_step :: string
  rf_reason :: string

definition unmet :: "factory_file \<Rightarrow> step \<Rightarrow> (string, step_value) dict \<Rightarrow> refused option" where
  "unmet f s held =
     (case lacking held (st_requires s @ run_value_names s) of
        None \<Rightarrow> None
      | Some n \<Rightarrow>
          (case find (\<lambda>before. n \<in> fst ` set (st_results before))
                 (rev (take (step_index f s) (ff_steps f))) of
             None \<Rightarrow> Some \<lparr>rf_step = st_id s, rf_reason = ''Step \"'' @ st_id s @ ''\" requires \"'' @
                 n @ ''\", which the work item carries as false.''\<rparr>
           | Some producer \<Rightarrow> Some \<lparr>rf_step = st_id producer, rf_reason = ''Step \"'' @ st_id s @
                 ''\" requires \"'' @ n @ ''\", which this step '' @
                 (if n \<notin> fst ` set held then ''did not record'' else ''recorded as false'') @
                 ''.''\<rparr>))"

text \<open>The run's value of the branch the step names. \<open>None\<close> where the lookup raises \<open>KeyError\<close>.\<close>

definition branch_of :: "string option \<Rightarrow> (string, step_value) dict \<Rightarrow> string option option" where
  "branch_of branch held =
     (case Option.bind branch (\<lambda>b. run_value_name (VStr b)) of
        None \<Rightarrow> Some None
      | Some n \<Rightarrow> map_option (\<lambda>v. Some (str_value v)) (map_of held n))"

text \<open>
  The first step of the session a client step continues: \<open>resumes\<close> maps each client step to
  the step it resumes. A chain that comes back to a step never ends, which is \<open>None\<close>: a chain
  longer than the dictionary has.
\<close>

fun first_of_session :: "nat \<Rightarrow> (string, string option) dict \<Rightarrow> string \<Rightarrow> string option" where
  "first_of_session 0 resumes i = None"
| "first_of_session (Suc fuel) resumes i =
     (case dict_get resumes i None of
        None \<Rightarrow> Some i
      | Some j \<Rightarrow> first_of_session fuel resumes j)"

definition resumes_of :: "factory_file \<Rightarrow> (string, string option) dict" where
  "resumes_of f = fold (\<lambda>s d. dict_set (st_id s) (cl_resume (st_kind s)) d)
     (filter (\<lambda>s. is_client (st_kind s)) (ff_steps f)) []"

definition session_of ::
  "factory_file \<Rightarrow> step_attempt list \<Rightarrow> string \<Rightarrow> string option option" where
  "session_of f as i =
     (let resumes = resumes_of f;
          chase = first_of_session (Suc (length resumes)) resumes
      in if resumes \<noteq> [] \<and> (chase i = None \<or> (\<exists>j \<in> fst ` set resumes. chase j = None))
         then None
         else
           let sharing = i # filter (\<lambda>j. chase j = chase i) (map fst resumes)
           in Some (Option.bind
                (find (\<lambda>a. at_step a \<in> set sharing \<and> at_session a \<noteq> None) (rev as)) at_session))"

text \<open>The wait a failed call adds before it is made again, in seconds.\<close>

definition BACKOFF_SECONDS :: nat where "BACKOFF_SECONDS = 5"

definition BACKOFF_CAP_SECONDS :: nat where "BACKOFF_CAP_SECONDS = 300"

definition next_backoff :: "nat \<Rightarrow> nat" where
  "next_backoff waited = min (max (waited * 2) BACKOFF_SECONDS) BACKOFF_CAP_SECONDS"

end
