(* ===== verification/Sample_Factory.thy ===== *)
theory Sample_Factory
  imports Factory_Check Run_Rules
begin

text \<open>
  A small factory on which the witnesses of this library evaluate: a coding client plans, a command
  tests and sends its failures back to the plan, a wait holds the run until a signal, and an approve
  step ends the line.
\<close>

definition plan_step :: step where
  "plan_step = \<lparr>st_id = ''plan'', st_requires = [], st_results = [(''ok'', Bool_Type)],
     st_outcomes = [], st_retry = Some 1, st_failed = None, st_timeout = None,
     st_kind = Client_Step ''worker'' Claude ''plan.md'' ''record'' None None None None\<rparr>"

definition test_step :: step where
  "test_step = \<lparr>st_id = ''test'', st_requires = [''ok''], st_results = [],
     st_outcomes = [(''again'', Back (Send_Back ''plan'' 1)), (''drop'', Stop)], st_retry = None,
     st_failed = Some (Send_Back ''plan'' 2), st_timeout = None,
     st_kind = Command_Step ''worker'' [Command ''make''] None None\<rparr>"

definition wait_step :: step where
  "wait_step = \<lparr>st_id = ''wait'', st_requires = [], st_results = [(''quiet'', Bool_Type)],
     st_outcomes = [], st_retry = None, st_failed = None, st_timeout = None,
     st_kind = Wait_Step [[(''routine'', VStr ''merged'')]] (Some (Duration 60 Minutes)) None\<rparr>"

definition sign_step :: step where
  "sign_step = \<lparr>st_id = ''sign'', st_requires = [], st_results = [], st_outcomes = [],
     st_retry = None, st_failed = None, st_timeout = None, st_kind = Approve_Step ''Ready?''\<rparr>"

definition sample :: factory_file where
  "sample = \<lparr>ff_name = ''sample'', ff_instances = [], ff_intake = \<lparr>in_instance = ''worker'', in_routine = ''issues''\<rparr>,
     ff_work_item = [(''issue'', Int_Type)], ff_steps = [plan_step, test_step, wait_step, sign_step],
     ff_done_requires = [''ok''], ff_needs_human = None, ff_ended = None,
     ff_closing = \<lparr>cs_done = [], cs_cancelled = []\<rparr>\<rparr>"

lemma sample_step_ids [simp]:
  "st_id plan_step = ''plan''" "st_id test_step = ''test''" "st_id wait_step = ''wait''"
  "st_id sign_step = ''sign''"
  by (simp_all add: plan_step_def test_step_def wait_step_def sign_step_def)

lemma sample_steps [simp]: "ff_steps sample = [plan_step, test_step, wait_step, sign_step]"
  by (simp add: sample_def)

lemma sample_step_of [simp]:
  "step_of sample ''plan'' = Some plan_step" "step_of sample ''test'' = Some test_step"
  "step_of sample ''wait'' = Some wait_step" "step_of sample ''sign'' = Some sign_step"
  by (simp_all add: step_of_def)

lemma sample_checked:
  "check_order sample = []" "check_resumes sample = []"
  by (simp_all add: check_order_def step_order_ok sends_back_to_def check_resumes_def
      plan_step_def test_step_def wait_step_def sign_step_def)

text \<open>An attempt of a step that ended, as the hub shows it.\<close>

definition ended_attempt :: "string \<Rightarrow> step_ending \<Rightarrow> (string, step_value) dict \<Rightarrow> step_attempt" where
  "ended_attempt i e vals = \<lparr>at_step = i, at_attempt = 1, at_ending = Some e, at_outcome = None,
     at_values = vals, at_summary = [], at_session = None, at_started = 0, at_ended = Some 1\<rparr>"

lemma ended_attempt_simps [simp]:
  "at_step (ended_attempt i e vals) = i" "at_ending (ended_attempt i e vals) = Some e"
  "at_values (ended_attempt i e vals) = vals"
  by (simp_all add: ended_attempt_def)

end
