(* ===== verification/Run_Rules_Laws.thy ===== *)
theory Run_Rules_Laws
  imports Sample_Factory
begin

text \<open>
  What the engine's rules promise: where a result may send a run and how often, which values a
  step starts with, how the attempts are counted, and that the chase for a resumed session ends
  in a factory that passes its check.
\<close>

section \<open>Where a result sends the run\<close>

lemma noted_simps [simp]:
  "sr_ending (noted r why e) = e" "sr_outcome (noted r why e) = sr_outcome r"
  "sr_values (noted r why e) = sr_values r" "sr_session (noted r why e) = sr_session r"
  "sr_resets_at (noted r why e) = sr_resets_at r"
  by (simp_all add: noted_def)

lemma checked_done_ending: "sr_ending r = Clean \<Longrightarrow> sr_ending (checked_done f held r) \<in> {Clean, Failed}"
  by (simp add: checked_done_def Let_def split: option.splits)

lemma checked_done_clean:
  "sr_ending (checked_done f held r) = Clean \<longleftrightarrow>
     sr_ending r = Clean \<and> lacking (dict_union held (sr_values r)) (ff_done_requires f) = None"
  by (auto simp: checked_done_def Let_def split: option.splits)

text \<open>The edge along which a failed result sends the work, and its most.\<close>

lemma settled_failure_cases:
  assumes "settled_failure s r t = (r', status, target)"
  obtains (sent) most dest where "st_failed s = Some (Send_Back dest most)" "sr_ending r' = Failed"
      "count_of (ty_sent_back t) (st_id s, dest) < most" "status = Queued" "target = Some dest"
  | (again) "status = Queued" "target = Some (st_id s)" "sr_ending r' = sr_ending r"
      "sr_ending r \<notin> {Timed_Out, Ending_Needs_Human}" "sr_ending r \<noteq> Failed \<or> st_failed s = None"
      "count_of (ty_failures t) (st_id s) < retries s"
  | (human) "status = Needs_Human" "target = Some (st_id s)" "sr_ending r' = sr_ending r"
  using assms
  by (auto simp: settled_failure_def Let_def split: if_splits option.splits send_back.splits bool.splits)


text \<open>C19: A settled attempt queues the run again in only three ways: on a clean result whose outcome
  is to go on, at the next step of the line; along a declared send-back edge that the attempts
  counted so far took fewer than its \<open>max\<close> times; or at the same step, when the result neither
  timed out nor asks for a human, its failures are not sent back, and the step has retries left.\<close>

theorem settled_queues_within_limits:
  assumes "settled f s r held t = (r', Queued, Some dest)"
  shows "(sr_ending r' = Clean \<and> outcome_of s (sr_outcome r) = Some Next \<and>
            Suc (step_index f s) < length (ff_steps f) \<and>
            dest = st_id (ff_steps f ! Suc (step_index f s))) \<or>
         (\<exists>most. (if sr_ending r' = Clean then outcome_of s (sr_outcome r) = Some (Back (Send_Back dest most))
                  else st_failed s = Some (Send_Back dest most)) \<and>
            count_of (ty_sent_back t) (st_id s, dest) < most) \<or>
         (dest = st_id s \<and> sr_ending r' \<notin> {Clean, Timed_Out, Ending_Needs_Human} \<and>
            (sr_ending r' = Failed \<longrightarrow> st_failed s = None) \<and>
            count_of (ty_failures t) (st_id s) < retries s)"
proof -
  have failure: ?thesis if "settled_failure s q t = (r', Queued, Some dest)" "sr_ending q \<noteq> Clean" for q
    using that by (cases rule: settled_failure_cases) auto
  show ?thesis
  proof (cases "sr_ending r = Clean")
    case False
    with assms show ?thesis by (intro failure [of r]) (simp_all add: settled_def)
  next
    case clean: True
    have finish: ?thesis
      if "(if sr_ending (checked_done f held r) = Clean then (checked_done f held r, Done, None)
           else settled_failure s (checked_done f held r) t) = (r', Queued, Some dest)"
    proof (cases "sr_ending (checked_done f held r) = Clean")
      case False
      with that show ?thesis by (intro failure [of "checked_done f held r"]) simp_all
    qed (use that in simp)
    show ?thesis
    proof (cases "outcome_of s (sr_outcome r)")
      case None
      with assms clean show ?thesis
        by (intro failure) (auto simp: settled_def)
    next
      case (Some out)
      show ?thesis
      proof (cases "out = Finish \<or> out = Next \<and> \<not> Suc (step_index f s) < length (ff_steps f)")
        case True
        with assms clean Some show ?thesis by (intro finish) (auto simp: settled_def Let_def)
      next
        case False
        with assms clean Some show ?thesis
          by (cases out) (auto simp: settled_def Let_def split: send_back.splits if_splits)
      qed
    qed
  qed
qed

lemma failed_test_goes_back:
  "settled sample test_step (plain_result Failed ''red'') [] empty_tally =
     ((plain_result Failed ''red'')\<lparr>sr_values := [(''failure'', VStr ''red'')]\<rparr>, Queued, Some ''plan'')"
  by (simp add: settled_def settled_failure_def test_step_def empty_tally_def FAILURE_def
      dict_set_def)

theorem settled_queues_within_limits_witness:
  "\<exists>most. st_failed test_step = Some (Send_Back ''plan'' most) \<and>
     count_of (ty_sent_back empty_tally) (''test'', ''plan'') < most"
  using settled_queues_within_limits [OF failed_test_goes_back] by (simp split: if_splits)

text \<open>C20: A run is done exactly when its attempt ended clean with an outcome that finishes it (the
  outcome says so, or it goes on after the last step) and the run then holds every value that
  \<open>done_requires\<close> names, none of them false.\<close>

theorem settled_done_iff:
  "(\<exists>r'. settled f s r held t = (r', Done, dest)) \<longleftrightarrow>
     dest = None \<and> sr_ending r = Clean \<and>
     (outcome_of s (sr_outcome r) = Some Finish \<or>
      outcome_of s (sr_outcome r) = Some Next \<and> length (ff_steps f) \<le> Suc (step_index f s)) \<and>
     lacking (dict_union held (sr_values r)) (ff_done_requires f) = None"
proof -
  have failure: "settled_failure s q t \<noteq> (r', Done, dest)" for q r'
  proof
    assume "settled_failure s q t = (r', Done, dest)"
    then show False by (cases rule: settled_failure_cases) auto
  qed
  have finish: "(\<exists>r'. (if sr_ending (checked_done f held r) = Clean
        then (checked_done f held r, Done, None)
        else settled_failure s (checked_done f held r) t) = (r', Done, dest)) \<longleftrightarrow>
      dest = None \<and> sr_ending (checked_done f held r) = Clean"
    by (auto simp: failure)
  show ?thesis
  proof (cases "sr_ending r = Clean")
    case False
    then show ?thesis by (simp add: settled_def failure)
  next
    case clean: True
    show ?thesis
    proof (cases "outcome_of s (sr_outcome r)")
      case None
      with clean show ?thesis by (simp add: settled_def failure)
    next
      case (Some out)
      with clean finish show ?thesis
        by (cases out) (auto simp: settled_def Let_def checked_done_clean failure not_less
            split: send_back.splits)
    qed
  qed
qed

text \<open>A failed attempt that no declaration sends back leaves the values of the run alone: a
  retry of its step starts with what the attempt itself started with.\<close>

theorem retry_keeps_results:
  assumes "at_ending a \<noteq> Some Clean" "failed_to f a = None"
  shows "results f (as @ [a]) (Some (at_step a)) = results f as (Some (at_step a))"
  using assms by (simp add: results_def record_attempt_def Let_def start_step_def split: option.splits)


theorem retry_keeps_results_witness:
  "results sample ([ended_attempt ''plan'' Clean [(''ok'', VBool True)]] @
       [ended_attempt ''wait'' Failed []]) (Some ''wait'') =
     results sample [ended_attempt ''plan'' Clean [(''ok'', VBool True)]] (Some ''wait'')"
  using retry_keeps_results [of "ended_attempt ''wait'' Failed []" sample
      "[ended_attempt ''plan'' Clean [(''ok'', VBool True)]]"]
  by (simp add: failed_to_def wait_step_def)

section \<open>The values a step starts with\<close>

abbreviation held_after :: "factory_file \<Rightarrow> step_attempt list \<Rightarrow> held_values" where
  "held_after f as \<equiv> fold (record_attempt f) as \<lparr>hv_recorded = [], hv_last = None, hv_retrying = None\<rparr>"

definition unplaced :: "(string, int \<times> step_value) dict \<Rightarrow> (string, step_value) dict" where
  "unplaced d = map (\<lambda>(n, (at, v)). (n, v)) d"

lemma map_of_unplaced [simp]: "map_of (unplaced d) n = map_option snd (map_of d n)"
  by (induction d) (auto simp: unplaced_def)

lemma results_unplaced:
  "results f as starting = unplaced (hv_recorded
     (case starting of None \<Rightarrow> held_after f as | Some i \<Rightarrow> start_step f i (held_after f as)))"
  by (simp add: results_def unplaced_def Let_def)

lemma held_after_append: "held_after f (as @ [a]) = record_attempt f a (held_after f as)"
  by simp

lemma map_of_tagged [simp]:
  "map_of (map (\<lambda>(n, v). (n, (at, v))) vals) n = map_option (Pair at) (map_of vals n)"
  by (induction vals) auto

lemma distinct_start_step [simp]:
  "distinct (map fst (hv_recorded h)) \<Longrightarrow> distinct (map fst (hv_recorded (start_step f i h)))"
  by (auto simp: start_step_def Let_def distinct_map_filter split: option.splits prod.splits)

lemma distinct_record_attempt [simp]:
  "distinct (map fst (hv_recorded h)) \<Longrightarrow> distinct (map fst (hv_recorded (record_attempt f a h)))"
  by (auto simp: record_attempt_def Let_def)

lemma distinct_held_after: "distinct (map fst (hv_recorded (held_after f as)))"
  by (induction as rule: rev_induct) auto


text \<open>With each id used once, a step's place is where it stands in the line.\<close>

abbreviation order_from :: "nat \<Rightarrow> step list \<Rightarrow> (string, int) dict \<Rightarrow> (string, int) dict" where
  "order_from m ss d \<equiv> fold (\<lambda>(at, s) d. dict_set (st_id s) (int at) d) (enumerate m ss) d"

lemma order_from_other: "i \<notin> st_id ` set ss \<Longrightarrow> map_of (order_from m ss d) i = map_of d i"
  by (induction ss arbitrary: m d) (auto simp: dict_simps)

lemma order_from_nth:
  "distinct (map st_id ss) \<Longrightarrow> k < length ss \<Longrightarrow>
     map_of (order_from m ss d) (st_id (ss ! k)) = Some (int (m + k))"
proof (induction ss arbitrary: d m k)
  case (Cons s ss)
  show ?case
  proof (cases k)
    case 0
    with Cons.prems show ?thesis by (simp add: order_from_other dict_simps)
  next
    case (Suc j)
    with Cons.prems Cons.IH [of j "Suc m" "dict_set (st_id s) (int m) d"] show ?thesis by simp
  qed
qed simp

lemma checked_step_order:
  assumes "check_order f = []" "k < length (ff_steps f)"
  shows "map_of (step_order f) (st_id (ff_steps f ! k)) = Some (int k)"
  using assms order_of_steps_distinct [of "{}" "ff_steps f"] order_from_nth [of "ff_steps f" k 0 "[]"]
  by (simp add: check_order_def step_order_def)

text \<open>In a factory whose step order is checked, what a step records when it ends clean, or when
  it sends its failures back, is what the next step to start holds, whether that step comes later in
  the line or earlier.\<close>

theorem recorded_values_reach_the_next_step:
  assumes "check_order f = []" "p < length (ff_steps f)" "k < length (ff_steps f)" "k \<noteq> p"
    and "at_step a = st_id (ff_steps f ! p)" "at_ending a = Some Clean \<or> failed_to f a \<noteq> None"
    and "distinct (map fst (at_values a))" "map_of (at_values a) n = Some v"
  shows "map_of (results f (as @ [a]) (Some (st_id (ff_steps f ! k)))) n = Some v"
proof -
  let ?h = "start_step f (at_step a) (held_after f as)"
  let ?vals = "map (\<lambda>(n, v). (n, (int p, v))) (at_values a)"
  let ?d = "dict_union (hv_recorded ?h) ?vals"
  have vals: "map fst ?vals = map fst (at_values a)" by (induction "at_values a") auto
  have p: "map_of (step_order f) (at_step a) = Some (int p)"
    using checked_step_order [of f p] assms by simp
  have k: "map_of (step_order f) (st_id (ff_steps f ! k)) = Some (int k)"
    using checked_step_order [of f k] assms by simp
  have d: "map_of ?d n = Some (int p, v)"
    using assms(7,8) by (subst map_of_dict_union) (simp_all only: vals map_of_tagged map_add_Some_iff, simp_all)
  have distinct: "distinct (map fst ?d)"
    by (intro distinct_dict_union distinct_start_step distinct_held_after)
  have tagged: "map fst (map (\<lambda>(n, v). (n, (int k, v))) (at_values a)) = map fst (at_values a)"
    by (induction "at_values a") auto
  have "results f (as @ [a]) (Some (st_id (ff_steps f ! k))) = unplaced
     (let kept = filter (\<lambda>(n, (at, v)). at < int k) ?d
      in if int k < int p then dict_union kept (map (\<lambda>(n, v). (n, (int k, v))) (at_values a)) else kept)"
    using assms(6) unfolding results_unplaced held_after_append option.case record_attempt_def
    by (simp add: p k dict_get_def start_step_def Let_def)
  moreover have "map_of (dict_union (filter (\<lambda>(n, (at, v)). at < int k) ?d)
      (map (\<lambda>(n, v). (n, (int k, v))) (at_values a))) n = Some (int k, v)"
    using assms(7,8) by (subst map_of_dict_union) (simp_all only: tagged map_of_tagged map_add_Some_iff, simp_all)
  ultimately show ?thesis
    using d assms(4) by (simp add: Let_def map_of_filter_distinct [OF distinct])
qed


theorem recorded_values_reach_the_next_step_witness:
  "map_of (results sample ([] @ [ended_attempt ''plan'' Clean [(''ok'', VBool True)]])
     (Some (st_id (ff_steps sample ! 1)))) ''ok'' = Some (VBool True)"
  by (rule recorded_values_reach_the_next_step [of sample 0 1]) (simp_all add: sample_checked)








section \<open>Counting attempts\<close>

text \<open>The reference: an attempt that counts as a failure of its step, and where one sent the work.\<close>

definition counts_as_failure :: "factory_file \<Rightarrow> step_attempt \<Rightarrow> bool" where
  "counts_as_failure f a \<longleftrightarrow> at_ending a \<notin> {None, Some Clean, Some Limited} \<and> failed_to f a = None"

definition sent_to :: "factory_file \<Rightarrow> step_attempt \<Rightarrow> string option" where
  "sent_to f a =
     (if at_ending a = Some Clean
      then (case Option.bind (step_of f (at_step a)) (\<lambda>s. outcome_of s (at_outcome a)) of
              Some (Back sb) \<Rightarrow> Some (sb_back sb) | _ \<Rightarrow> None)
      else map_option sb_back (failed_to f a))"

lemma tally_attempt_counts:
  "count_of (ty_failures (tally_attempt f a t)) i =
     count_of (ty_failures t) i + (if at_step a = i \<and> counts_as_failure f a then 1 else 0)"
  "count_of (ty_sent_back (tally_attempt f a t)) (i, b) =
     count_of (ty_sent_back t) (i, b) + (if at_step a = i \<and> sent_to f a = Some b then 1 else 0)"
  by (auto simp: tally_attempt_def counts_as_failure_def sent_to_def dict_simps
      split: option.splits outcome.splits)

lemma tally_of_append: "tally_of f (as @ [a]) = tally_attempt f a (tally_of f as)"
  by (simp add: tally_of_def)

lemma tally_of_Nil: "tally_of f [] = empty_tally"
  by (simp add: tally_of_def)

lemma tally_of_counts:
  "count_of (ty_failures (tally_of f as)) i =
     length (filter (\<lambda>a. at_step a = i \<and> counts_as_failure f a) as)"
  "count_of (ty_sent_back (tally_of f as)) (i, b) =
     length (filter (\<lambda>a. at_step a = i \<and> sent_to f a = Some b) as)"
  by (induction as rule: rev_induct)
    (simp_all add: tally_of_Nil tally_of_append tally_attempt_counts, simp_all add: empty_tally_def)

text \<open>The tally is the count of the attempts themselves: a step's failures are its attempts that
  failed, timed out, were interrupted or asked for a human with no declaration to send them back,
  and an edge's send-backs are the attempts that took it.\<close>

theorem tally_counts_attempts:
  "count_of (ty_failures (tally_of f as)) i =
     length (filter (\<lambda>a. at_step a = i \<and> counts_as_failure f a) as) \<and>
   count_of (ty_sent_back (tally_of f as)) (i, b) =
     length (filter (\<lambda>a. at_step a = i \<and> sent_to f a = Some b) as)"
  by (simp add: tally_of_counts)

section \<open>The chase for a session\<close>

lemma first_of_session_more:
  "first_of_session m resumes i = Some j \<Longrightarrow> m \<le> n \<Longrightarrow> first_of_session n resumes i = Some j"
proof (induction m arbitrary: n i)
  case (Suc m)
  then obtain k where "n = Suc k" "m \<le> k" by (cases n) auto
  with Suc show ?case by (auto split: option.splits)
qed simp

abbreviation clients :: "step list \<Rightarrow> step list" where
  "clients ss \<equiv> filter (\<lambda>s. is_client (st_kind s)) ss"

lemma resumable_client:
  "resumable ss j inst client \<Longrightarrow> j \<in> st_id ` set (clients ss)"
proof -
  assume "resumable ss j inst client"
  then obtain s where "s \<in> set ss" and "case st_kind s of
      Client_Step inst' client' _ _ _ _ _ _ \<Rightarrow> st_id s = j \<and> inst' = inst \<and> client' = client
    | _ \<Rightarrow> False"
    by (auto simp: resumable_def list_ex_iff)
  then show ?thesis by (cases "st_kind s") auto
qed

lemma resumes_of_steps_clients:
  assumes "resumes_of_steps earlier ss = []" "l < length (clients ss)"
    "cl_resume (st_kind (clients ss ! l)) = Some j"
  shows "j \<in> st_id ` (set (clients earlier) \<union> set (take l (clients ss)))"
  using assms
proof (induction ss arbitrary: earlier l)
  case (Cons s ss)
  show ?case
  proof (cases "is_client (st_kind s)")
    case False
    with Cons.prems Cons.IH [of "earlier @ [s]" l] show ?thesis by simp
  next
    case client: True
    show ?thesis
    proof (cases l)
      case 0
      with client Cons.prems show ?thesis
        by (cases "st_kind s") (auto split: if_splits dest: resumable_client)
    next
      case (Suc k)
      with client Cons.prems Cons.IH [of "earlier @ [s]" k] show ?thesis by auto
    qed
  qed
qed simp

lemma map_of_fold_dict_set:
  "distinct (map key xs) \<Longrightarrow> x \<in> set xs \<Longrightarrow>
     map_of (fold (\<lambda>x d. dict_set (key x) (val x) d) xs d) (key x) = Some (val x)"
proof (induction xs arbitrary: d)
  case (Cons y xs)
  have other: "i \<notin> key ` set xs \<Longrightarrow> map_of (fold (\<lambda>x d. dict_set (key x) (val x) d) xs d) i = map_of d i" for i d
    by (induction xs arbitrary: d) (auto simp: dict_simps)
  from Cons show ?case by (auto simp: other dict_simps)
qed simp

lemma keys_fold_dict_set:
  "fst ` set (fold (\<lambda>x d. dict_set (key x) (val x) d) xs d) = key ` set xs \<union> fst ` set d"
  by (induction xs arbitrary: d) auto

lemma chase_ends:
  assumes "check_order f = []" "check_resumes f = []" "l < length (clients (ff_steps f))"
  shows "first_of_session (Suc l) (resumes_of f) (st_id (clients (ff_steps f) ! l)) \<noteq> None"
  using assms(3)
proof (induction l rule: less_induct)
  case (less l)
  let ?cs = "clients (ff_steps f)" and ?c = "clients (ff_steps f) ! l"
  have "distinct (map st_id ?cs)"
    using assms(1) order_of_steps_distinct by (auto simp: check_order_def distinct_map_filter)
  with less.prems have found: "map_of (resumes_of f) (st_id ?c) = Some (cl_resume (st_kind ?c))"
    unfolding resumes_of_def by (intro map_of_fold_dict_set nth_mem)
  show ?case
  proof (cases "cl_resume (st_kind ?c)")
    case None
    with found show ?thesis by (simp add: dict_get_def)
  next
    case (Some j)
    with assms(2) less.prems have "j \<in> st_id ` set (take l ?cs)"
      using resumes_of_steps_clients [of "[]" "ff_steps f" l j] by (simp add: check_resumes_def)
    then obtain k where k: "k < l" "j = st_id (?cs ! k)"
      using less.prems by (auto simp: in_set_conv_nth)
    have "first_of_session (Suc k) (resumes_of f) j \<noteq> None"
      unfolding k(2) by (rule less.IH [OF k(1)]) (rule less_trans [OF k(1) less.prems])
    then obtain i where "first_of_session (Suc k) (resumes_of f) j = Some i"
      by (simp only: not_None_eq) blast
    then have "first_of_session l (resumes_of f) j = Some i"
      by (rule first_of_session_more) (use k(1) in simp)
    moreover have "dict_get (resumes_of f) (st_id ?c) None = Some j"
      by (simp only: dict_get_def found Some option.case)
    ultimately show ?thesis by (simp del: not_None_eq)
  qed
qed


lemma length_resumes_of:
  assumes "check_order f = []"
  shows "length (resumes_of f) = length (clients (ff_steps f))"
proof -
  have keys: "distinct (map fst (fold (\<lambda>s d. dict_set (st_id s) (val s) d) ss d))"
    if "distinct (map fst d)" for ss :: "step list" and val :: "step \<Rightarrow> string option" and d
    using that by (induction ss arbitrary: d) auto
  have "distinct (map st_id (clients (ff_steps f)))"
    using assms order_of_steps_distinct by (auto simp: check_order_def distinct_map_filter)
  then have "length (clients (ff_steps f)) = card (st_id ` set (clients (ff_steps f)))"
    using distinct_card [of "map st_id (clients (ff_steps f))"] by simp
  also have "\<dots> = card (fst ` set (resumes_of f))"
    unfolding resumes_of_def keys_fold_dict_set by simp
  also have "\<dots> = length (resumes_of f)"
    using distinct_card [of "map fst (resumes_of f)"] keys [of "[]"] by (simp add: resumes_of_def)
  finally show ?thesis ..
qed

lemma chase_ends_anywhere:
  assumes "check_order f = []" "check_resumes f = []"
  shows "first_of_session (Suc (length (resumes_of f))) (resumes_of f) i \<noteq> None"
proof (cases "i \<in> st_id ` set (clients (ff_steps f))")
  case True
  then obtain l where l: "l < length (clients (ff_steps f))" "i = st_id (clients (ff_steps f) ! l)"
    by (metis imageE in_set_conv_nth)
  with chase_ends [OF assms] obtain j where "first_of_session (Suc l) (resumes_of f) i = Some j" by blast
  then have "first_of_session (Suc (length (resumes_of f))) (resumes_of f) i = Some j"
    by (rule first_of_session_more) (use l(1) length_resumes_of [OF assms(1)] in simp)
  then show ?thesis by (simp del: first_of_session.simps)
next
  case False
  then have "map_of (resumes_of f) i = None"
    by (simp add: map_of_eq_None_iff resumes_of_def keys_fold_dict_set)
  then show ?thesis by (simp add: dict_get_def)
qed

text \<open>C22: In a factory that passes the check of its order and its resumed sessions, looking for the
  session a client step resumes always returns: the chain of resumed steps ends at its first step.\<close>

theorem session_lookup_returns:
  assumes "check_order f = []" "check_resumes f = []"
  shows "\<exists>session. session_of f as i = Some session"
  using chase_ends_anywhere [OF assms] by (simp add: session_of_def Let_def)

theorem session_lookup_returns_witness: "\<exists>session. session_of sample [] ''plan'' = Some session"
  using session_lookup_returns [OF sample_checked] .

section \<open>Work items\<close>

text \<open>A work item is without errors exactly when it carries the values the factory declares and no
  others, each of its declared type: a boolean is never taken for a number.\<close>

theorem work_item_without_errors:
  "work_item_errors declared vals = [] \<longleftrightarrow>
     fst ` set vals \<subseteq> fst ` set declared \<and>
     (\<forall>(n, k) \<in> set declared. \<exists>v. map_of vals n = Some v \<and> value_type v = k)"
proof -
  have grows: "dict_set k v d \<noteq> []" for k v and d :: "(string, string) dict"
    unfolding dict_set_def by (cases d) auto
  have "fold (\<lambda>(n, k) errors.
         case map_of vals n of
           None \<Rightarrow> dict_set n ''The work item needs this value.'' errors
         | Some v \<Rightarrow>
             if value_type v \<noteq> k
             then dict_set n (''Expected a value of type '' @ type_text k @ ''.'') errors else errors)
       ds errors = [] \<longleftrightarrow>
     errors = [] \<and> (\<forall>(n, k) \<in> set ds. \<exists>v. map_of vals n = Some v \<and> value_type v = k)" for ds errors
  proof (induction ds arbitrary: errors)
    case (Cons nk ds)
    obtain n k where "nk = (n, k)" by (cases nk)
    with Cons show ?case by (cases "map_of vals n") (simp_all add: grows)
  qed simp
  moreover have "filter (\<lambda>(n, v). n \<notin> fst ` set declared) vals = [] \<longleftrightarrow>
      fst ` set vals \<subseteq> fst ` set declared"
    by (simp add: filter_empty_conv image_subset_iff split_beta)
  ultimately show ?thesis by (simp add: work_item_errors_def)
qed

theorem work_item_without_errors_witness:
  "work_item_errors (ff_work_item sample) [(''issue'', VInt 7)] = [] \<and>
   work_item_errors (ff_work_item sample) [(''issue'', VBool True)] \<noteq> []"
  using work_item_without_errors [of "ff_work_item sample" "[(''issue'', VInt 7)]"]
    work_item_without_errors [of "ff_work_item sample" "[(''issue'', VBool True)]"]
  by (simp add: sample_def)

section \<open>Waiting before a call is made again\<close>

text \<open>The waits of a call that keeps failing double from five seconds to five minutes: the wait
  after failure \<open>n + 1\<close> is \<open>5 * 2 ^ n\<close> seconds, and never more than 300.\<close>

theorem backoff_doubles_to_its_cap:
  "(next_backoff ^^ Suc n) 0 = min (BACKOFF_SECONDS * 2 ^ n) BACKOFF_CAP_SECONDS"
proof (induction n)
  case (Suc n)
  have "next_backoff (min (5 * x) 300) = min (5 * (2 * x)) 300" if "1 \<le> x" for x
    using that by (simp add: next_backoff_def BACKOFF_SECONDS_def BACKOFF_CAP_SECONDS_def min_def max_def)
  from this [of "2 ^ n"] Suc show ?case
    by (simp add: BACKOFF_SECONDS_def BACKOFF_CAP_SECONDS_def)
qed (simp add: next_backoff_def BACKOFF_SECONDS_def BACKOFF_CAP_SECONDS_def)

section \<open>Values in commands\<close>



lemma shell_safe_no_quote [simp]: "\<not> shell_safe CHR 0x27" "\<not> shell_safe CHR 0x22"
  by (simp_all add: shell_safe_def name_char_def name_start_def char_between_def)




end
