(* ===== verification/Run_Tables.thy ===== *)
theory Run_Tables
  imports Run_Types
begin

text \<open>
  The factory runs of the hub's registry (\<open>HubRegistry\<close> in src/src/kinby/hub/registry.py): the
  tables \<open>factory_runs\<close>, \<open>step_attempts\<close> and \<open>run_stops\<close>, and every method on them.

  An attempt keeps its \<open>rowid\<close>, because the methods compare rowids and a dropped attempt's rowid
  can be drawn again. Each write takes the clock's moment as an argument, and \<open>open_run\<close> the id
  that \<open>uuid4\<close> draws. A stored moment compares as text the way the moments compare, so a moment
  stands for its text. A statement that breaks a key or a reference is \<open>Integrity_Error\<close>, and
  leaves the tables as they were.
\<close>

named_theorems run_db_simps \<open>what each write does to each table\<close>

section \<open>Rows and tables\<close>

record run_row =
  rr_id :: uuid
  rr_factory :: string
  rr_instance :: uuid
  rr_work_item :: "(string, step_value) dict"
  rr_status :: run_status
  rr_step :: "string option"
  rr_created :: moment
  rr_updated :: moment
  rr_restarted_after :: nat
  rr_reported :: bool
  rr_stop_generation :: nat
  rr_wakes_at :: "moment option"
  rr_ended_call :: bool

record attempt_row =
  ar_rowid :: nat
  ar_run :: uuid
  ar_step :: string
  ar_attempt :: nat
  ar_ending :: "step_ending option"
  ar_outcome :: "string option"
  ar_values :: "(string, step_value) dict"
  ar_summary :: string
  ar_session :: "string option"
  ar_started :: moment
  ar_ended :: "moment option"

record stop_row =
  so_run :: uuid
  so_generation :: nat
  so_status :: run_status
  so_last_attempt :: nat
  so_told :: bool

record run_db =
  run_rows :: "run_row list"
  attempt_rows :: "attempt_row list"
  stop_rows :: "stop_row list"

datatype registry_error = Integrity_Error | Run_Not_Found uuid | Stop_Not_Found uuid nat

text \<open>The statuses a run never leaves, those of a run that is not finished, and those it stops in.\<close>

definition FINISHED :: "run_status list" where
  "FINISHED = [Done, Cancelled]"

definition UNFINISHED :: "run_status list" where
  "UNFINISHED = filter (\<lambda>s. s \<notin> set FINISHED) all_statuses"

definition STOPS :: "run_status list" where
  "STOPS = [Done, Cancelled, Needs_Human]"

text \<open>A work item in one order, whatever order its values came in (\<open>json.dumps\<close> with sorted keys).\<close>

definition work_item_key :: "(string, step_value) dict \<Rightarrow> (string, step_value) dict" where
  "work_item_key w = sort_key fst w"

definition factory_run_of :: "run_row \<Rightarrow> factory_run" where
  "factory_run_of r = \<lparr>fr_id = rr_id r, fr_factory = rr_factory r, fr_instance = rr_instance r,
     fr_work_item = rr_work_item r, fr_status = rr_status r, fr_step = rr_step r,
     fr_wakes_at = rr_wakes_at r, fr_created_at = rr_created r, fr_updated_at = rr_updated r\<rparr>"

definition step_attempt_of :: "attempt_row \<Rightarrow> step_attempt" where
  "step_attempt_of a = \<lparr>at_step = ar_step a, at_attempt = ar_attempt a, at_ending = ar_ending a,
     at_outcome = ar_outcome a, at_values = ar_values a, at_summary = ar_summary a,
     at_session = ar_session a, at_started = ar_started a, at_ended = ar_ended a\<rparr>"

text \<open>\<open>COALESCE(MAX(rowid), 0)\<close>.\<close>

definition max_rowid :: "attempt_row list \<Rightarrow> nat" where
  "max_rowid rows = foldr (\<lambda>a m. max (ar_rowid a) m) rows 0"

section \<open>Runs\<close>

definition run :: "run_db \<Rightarrow> uuid \<Rightarrow> factory_run option" where
  "run db i = map_option factory_run_of (find (\<lambda>r. rr_id r = i) (run_rows db))"

definition existing_run :: "run_db \<Rightarrow> uuid \<Rightarrow> registry_error + factory_run" where
  "existing_run db i = (case run db i of None \<Rightarrow> Inl (Run_Not_Found i) | Some r \<Rightarrow> Inr r)"

definition open_run ::
  "uuid \<Rightarrow> moment \<Rightarrow> run_db \<Rightarrow> uuid \<Rightarrow> string \<Rightarrow> (string, step_value) dict \<Rightarrow> string \<Rightarrow>
   registry_error + (run_db \<times> factory_run \<times> bool)" where
  "open_run new_id now db inst factory work_item first_step =
     (let key = work_item_key work_item
      in case find (\<lambda>r. rr_instance r = inst \<and> rr_work_item r = key \<and> rr_status r \<notin> set FINISHED)
               (run_rows db) of
           Some r \<Rightarrow> Inr (db, factory_run_of r, False)
         | None \<Rightarrow>
             if new_id \<in> rr_id ` set (run_rows db) then Inl Integrity_Error
             else
               let row = \<lparr>rr_id = new_id, rr_factory = factory, rr_instance = inst,
                          rr_work_item = key, rr_status = Queued, rr_step = Some first_step,
                          rr_created = now, rr_updated = now, rr_restarted_after = 0,
                          rr_reported = False, rr_stop_generation = 0, rr_wakes_at = None,
                          rr_ended_call = False\<rparr>;
                   db' = db\<lparr>run_rows := run_rows db @ [row]\<rparr>
               in case existing_run db' new_id of
                    Inl e \<Rightarrow> Inl e
                  | Inr r \<Rightarrow> Inr (db', r, True))"

definition runs ::
  "run_db \<Rightarrow> string option \<Rightarrow> run_status list option \<Rightarrow> uuid option \<Rightarrow> moment option \<Rightarrow>
   moment option \<Rightarrow> factory_run list" where
  "runs db factory statuses inst since until =
     map factory_run_of (filter (\<lambda>r.
       (case factory of None \<Rightarrow> True | Some f \<Rightarrow> rr_factory r = f) \<and>
       (case statuses of None \<Rightarrow> True | Some ss \<Rightarrow> rr_status r \<in> set ss) \<and>
       (case inst of None \<Rightarrow> True | Some i \<Rightarrow> rr_instance r = i) \<and>
       (case since of None \<Rightarrow> True | Some t \<Rightarrow> t \<le> rr_created r) \<and>
       (case until of None \<Rightarrow> True | Some t \<Rightarrow> rr_created r \<le> t)) (run_rows db))"

definition runs_in :: "run_db \<Rightarrow> run_status \<Rightarrow> factory_run list" where
  "runs_in db status =
     map factory_run_of (sort_key rr_updated (filter (\<lambda>r. rr_status r = status) (run_rows db)))"

text \<open>The \<open>UPDATE\<close> of the run's row, by its id.\<close>

definition set_run :: "uuid \<Rightarrow> (run_row \<Rightarrow> run_row) \<Rightarrow> run_db \<Rightarrow> run_db" where
  "set_run i f db = db\<lparr>run_rows := row_update (\<lambda>r. rr_id r = i) f (run_rows db)\<rparr>"

definition attempts_of :: "run_db \<Rightarrow> uuid \<Rightarrow> attempt_row list" where
  "attempts_of db i = filter (\<lambda>a. ar_run a = i) (attempt_rows db)"

text \<open>The stop \<open>move_run\<close> records: \<open>INSERT INTO run_stops SELECT \<dots> FROM factory_runs\<close>.\<close>

definition record_stop :: "uuid \<Rightarrow> run_db \<Rightarrow> registry_error + run_db" where
  "record_stop i db =
     (case find (\<lambda>r. rr_id r = i) (run_rows db) of
        None \<Rightarrow> Inr db
      | Some r \<Rightarrow>
          if \<exists>s \<in> set (stop_rows db). so_run s = i \<and> so_generation s = rr_stop_generation r
          then Inl Integrity_Error
          else Inr (db\<lparr>stop_rows := stop_rows db @
            [\<lparr>so_run = i, so_generation = rr_stop_generation r, so_status = rr_status r,
              so_last_attempt = max_rowid (attempts_of db i), so_told = False\<rparr>]\<rparr>))"

definition move_run ::
  "moment \<Rightarrow> run_db \<Rightarrow> uuid \<Rightarrow> run_status \<Rightarrow> string option \<Rightarrow> moment option \<Rightarrow> bool \<Rightarrow>
   registry_error + (run_db \<times> factory_run)" where
  "move_run now db i status step_id wakes_at ended_call =
     (let db1 = set_run i (\<lambda>r. r\<lparr>rr_status := status, rr_step := step_id, rr_wakes_at := wakes_at,
                  rr_updated := now, rr_ended_call := ended_call\<rparr>) db;
          db2 = (if status = Needs_Human then set_run i (\<lambda>r. r\<lparr>rr_reported := False\<rparr>) db1 else db1);
          stopped = (if status \<in> set STOPS
            then record_stop i
              (set_run i (\<lambda>r. r\<lparr>rr_stop_generation := rr_stop_generation r + 1\<rparr>) db2)
            else Inr db2)
      in case stopped of
           Inl e \<Rightarrow> Inl e
         | Inr db3 \<Rightarrow>
             (case existing_run db3 i of Inl e \<Rightarrow> Inl e | Inr r \<Rightarrow> Inr (db3, r)))"

definition stop_generation :: "run_db \<Rightarrow> uuid \<Rightarrow> nat" where
  "stop_generation db i =
     (case find (\<lambda>r. rr_id r = i) (run_rows db) of None \<Rightarrow> 0 | Some r \<Rightarrow> rr_stop_generation r)"

definition mark_reported :: "run_db \<Rightarrow> uuid \<Rightarrow> nat \<Rightarrow> run_db" where
  "mark_reported db i generation = db\<lparr>run_rows :=
     row_update (\<lambda>r. rr_id r = i \<and> rr_stop_generation r = generation)
       (\<lambda>r. r\<lparr>rr_reported := True\<rparr>) (run_rows db)\<rparr>"

definition unreported_runs :: "run_db \<Rightarrow> factory_run list" where
  "unreported_runs db = map factory_run_of (sort_key rr_updated
     (filter (\<lambda>r. rr_status r = Needs_Human \<and> \<not> rr_reported r) (run_rows db)))"

definition mark_ended_called :: "run_db \<Rightarrow> uuid \<Rightarrow> run_db" where
  "mark_ended_called db i = set_run i (\<lambda>r. r\<lparr>rr_ended_call := False\<rparr>) db"

definition uncalled_ends :: "run_db \<Rightarrow> factory_run list" where
  "uncalled_ends db =
     map factory_run_of (sort_key rr_updated (filter rr_ended_call (run_rows db)))"

section \<open>Attempts\<close>

definition attempts_after :: "run_db \<Rightarrow> uuid \<Rightarrow> nat \<Rightarrow> nat option \<Rightarrow> step_attempt list" where
  "attempts_after db i after through =
     map step_attempt_of (filter (\<lambda>a. ar_run a = i \<and> after < ar_rowid a \<and>
       (case through of None \<Rightarrow> True | Some t \<Rightarrow> ar_rowid a \<le> t)) (attempt_rows db))"

definition attempts :: "run_db \<Rightarrow> uuid \<Rightarrow> step_attempt list" where
  "attempts db i = attempts_after db i 0 None"

definition counted_attempts :: "run_db \<Rightarrow> uuid \<Rightarrow> step_attempt list" where
  "counted_attempts db i = attempts_after db i
     (case find (\<lambda>r. rr_id r = i) (run_rows db) of None \<Rightarrow> 0 | Some r \<Rightarrow> rr_restarted_after r) None"

definition restart_run ::
  "moment \<Rightarrow> run_db \<Rightarrow> uuid \<Rightarrow> string option \<Rightarrow> registry_error + (run_db \<times> factory_run)" where
  "restart_run now db i step_id =
     (let db' = set_run i (\<lambda>r. r\<lparr>rr_status := Queued, rr_step := step_id, rr_updated := now,
                  rr_restarted_after := max_rowid (attempts_of db i)\<rparr>) db
      in case existing_run db' i of Inl e \<Rightarrow> Inl e | Inr r \<Rightarrow> Inr (db', r))"

definition begin_attempt ::
  "moment \<Rightarrow> run_db \<Rightarrow> uuid \<Rightarrow> string \<Rightarrow> run_status \<Rightarrow> registry_error + (run_db \<times> factory_run)" where
  "begin_attempt now db i step_id status =
     (let n = length (filter (\<lambda>a. ar_run a = i \<and> ar_step a = step_id) (attempt_rows db)) + 1;
          row = \<lparr>ar_rowid = Suc (max_rowid (attempt_rows db)), ar_run = i, ar_step = step_id,
                 ar_attempt = n, ar_ending = None, ar_outcome = None, ar_values = [],
                 ar_summary = [], ar_session = None, ar_started = now, ar_ended = None\<rparr>
      in if i \<notin> rr_id ` set (run_rows db) \<or>
            (\<exists>a \<in> set (attempt_rows db). ar_run a = i \<and> ar_step a = step_id \<and> ar_attempt a = n)
         then Inl Integrity_Error
         else
           let db' = set_run i (\<lambda>r. r\<lparr>rr_status := status, rr_step := Some step_id,
                       rr_updated := now\<rparr>) (db\<lparr>attempt_rows := attempt_rows db @ [row]\<rparr>)
           in case existing_run db' i of Inl e \<Rightarrow> Inl e | Inr r \<Rightarrow> Inr (db', r))"

text \<open>Whether the row is the run's open attempt (\<open>ended_at IS NULL\<close>).\<close>

definition open_attempt :: "uuid \<Rightarrow> attempt_row \<Rightarrow> bool" where
  "open_attempt i a \<longleftrightarrow> ar_run a = i \<and> ar_ended a = None"

definition drop_attempt :: "moment \<Rightarrow> run_db \<Rightarrow> uuid \<Rightarrow> registry_error + (run_db \<times> factory_run)" where
  "drop_attempt now db i =
     (let db' = set_run i (\<lambda>r. r\<lparr>rr_status := Queued, rr_updated := now\<rparr>)
                  (db\<lparr>attempt_rows := row_delete (open_attempt i) (attempt_rows db)\<rparr>)
      in case existing_run db' i of Inl e \<Rightarrow> Inl e | Inr r \<Rightarrow> Inr (db', r))"

definition end_attempt :: "moment \<Rightarrow> run_db \<Rightarrow> uuid \<Rightarrow> step_result \<Rightarrow> run_db" where
  "end_attempt now db i result = db\<lparr>attempt_rows :=
     row_update (open_attempt i) (\<lambda>a. a\<lparr>ar_ending := Some (sr_ending result),
       ar_outcome := sr_outcome result, ar_values := sr_values result,
       ar_summary := sr_summary result, ar_session := sr_session result,
       ar_ended := Some now\<rparr>) (attempt_rows db)\<rparr>"

text \<open>The join keeps an attempt for each run it refers to, and a run's id is one row's.\<close>

definition unfinished_attempts :: "run_db \<Rightarrow> uuid list" where
  "unfinished_attempts db =
     map ar_run (filter (\<lambda>a. ar_ended a = None \<and>
       (\<exists>r \<in> set (run_rows db). rr_id r = ar_run a \<and> rr_status r = Running)) (attempt_rows db))"

section \<open>Stops\<close>

definition earlier_stop_attempt :: "run_db \<Rightarrow> uuid \<Rightarrow> nat \<Rightarrow> nat" where
  "earlier_stop_attempt db i generation =
     foldr (\<lambda>s m. max (so_last_attempt s) m)
       (filter (\<lambda>s. so_run s = i \<and> so_generation s < generation) (stop_rows db)) 0"

definition run_stop :: "run_db \<Rightarrow> uuid \<Rightarrow> nat \<Rightarrow> registry_error + run_stop" where
  "run_stop db i generation =
     (case (find (\<lambda>s. so_run s = i \<and> so_generation s = generation) (stop_rows db),
            find (\<lambda>r. rr_id r = i) (run_rows db)) of
        (Some s, Some r) \<Rightarrow>
          Inr \<lparr>rs_run = i, rs_factory = rr_factory r, rs_work_item = rr_work_item r,
               rs_status = so_status s, rs_generation = generation,
               rs_attempts = attempts_after db i (earlier_stop_attempt db i generation)
                 (Some (so_last_attempt s))\<rparr>
      | _ \<Rightarrow> Inl (Stop_Not_Found i generation))"

definition mark_told :: "run_db \<Rightarrow> uuid \<Rightarrow> nat \<Rightarrow> run_db" where
  "mark_told db i generation = db\<lparr>stop_rows :=
     row_update (\<lambda>s. so_run s = i \<and> so_generation s = generation)
       (\<lambda>s. s\<lparr>so_told := True\<rparr>) (stop_rows db)\<rparr>"

text \<open>The values of a list of results, or its first error.\<close>

fun all_right :: "('e + 'a) list \<Rightarrow> 'e + 'a list" where
  "all_right [] = Inr []"
| "all_right (Inl err # rs) = Inl err"
| "all_right (Inr x # rs) = map_sum id ((#) x) (all_right rs)"

definition untold_stops :: "run_db \<Rightarrow> registry_error + run_stop list" where
  "untold_stops db = all_right (map (\<lambda>s. run_stop db (so_run s) (so_generation s))
     (filter (\<lambda>s. \<not> so_told s) (stop_rows db)))"

end
