(* ===== verification/Run_Invariants.thy ===== *)
theory Run_Invariants
  imports Run_Tables
begin

text \<open>
  What the tables of runs, attempts and stops always hold (\<open>run_db_ok\<close>), and that every operation
  of the registry keeps it. Two operations keep it under a condition their callers meet: a run is
  moved to a status it stops in, or restarted, only once none of its attempts is open.
\<close>

section \<open>Rows, attempts and stops of a run\<close>

abbreviation row_of :: "run_db \<Rightarrow> uuid \<Rightarrow> run_row option" where
  "row_of db i \<equiv> find (\<lambda>r. rr_id r = i) (run_rows db)"

definition stops_of :: "run_db \<Rightarrow> uuid \<Rightarrow> stop_row list" where
  "stops_of db i = filter (\<lambda>s. so_run s = i) (stop_rows db)"

abbreviation closed :: "attempt_row \<Rightarrow> bool" where
  "closed a \<equiv> ar_ended a \<noteq> None"

definition no_open :: "run_db \<Rightarrow> uuid \<Rightarrow> bool" where
  "no_open db i \<longleftrightarrow> (\<forall>a \<in> set (attempts_of db i). closed a)"

text \<open>The rowid of the run's last attempt that ended.\<close>

definition closed_rowid :: "run_db \<Rightarrow> uuid \<Rightarrow> nat" where
  "closed_rowid db i = max_rowid (filter closed (attempts_of db i))"

lemma max_rowid_le: "max_rowid rows \<le> k \<longleftrightarrow> (\<forall>a \<in> set rows. ar_rowid a \<le> k)"
  by (induction rows) (auto simp: max_rowid_def)

lemma max_rowid_ge: "a \<in> set rows \<Longrightarrow> ar_rowid a \<le> max_rowid rows"
  using max_rowid_le [of rows "max_rowid rows"] by simp

lemma max_rowid_mono: "set rows \<subseteq> set rows2 \<Longrightarrow> max_rowid rows \<le> max_rowid rows2"
  by (auto simp: max_rowid_le intro: max_rowid_ge)

lemma max_rowid_append: "max_rowid (xs @ ys) = max (max_rowid xs) (max_rowid ys)"
  by (induction xs) (auto simp: max_rowid_def)

lemma no_open_closed_rowid: "no_open db i \<Longrightarrow> closed_rowid db i = max_rowid (attempts_of db i)"
  by (auto simp: no_open_def closed_rowid_def intro: arg_cong [of _ _ max_rowid] filter_True)

lemma row_of_set_run [run_db_simps]:
  assumes "\<And>r. rr_id (f r) = rr_id r"
  shows "row_of (set_run j f db) i = map_option (\<lambda>r. if i = j then f r else r) (row_of db i)"
  using assms by (simp add: set_run_def find_row_update_key)

lemma set_run_simps [run_db_simps]:
  "attempt_rows (set_run i f db) = attempt_rows db"
  "stop_rows (set_run i f db) = stop_rows db"
  by (simp_all add: set_run_def)

lemma attempts_of_cong: "attempt_rows db' = attempt_rows db \<Longrightarrow> attempts_of db' i = attempts_of db i"
  by (simp add: attempts_of_def)

lemma of_set_run [run_db_simps]:
  "attempts_of (set_run j f db) i = attempts_of db i"
  "stops_of (set_run j f db) i = stops_of db i"
  "no_open (set_run j f db) i = no_open db i"
  "closed_rowid (set_run j f db) i = closed_rowid db i"
  by (simp_all add: attempts_of_def stops_of_def no_open_def closed_rowid_def set_run_simps)

lemma run_row_of: "run db i = map_option factory_run_of (row_of db i)"
  by (simp add: run_def)

lemma factory_run_of_simps [simp]:
  "fr_id (factory_run_of r) = rr_id r" "fr_factory (factory_run_of r) = rr_factory r"
  "fr_instance (factory_run_of r) = rr_instance r" "fr_work_item (factory_run_of r) = rr_work_item r"
  "fr_status (factory_run_of r) = rr_status r" "fr_step (factory_run_of r) = rr_step r"
  "fr_wakes_at (factory_run_of r) = rr_wakes_at r" "fr_created_at (factory_run_of r) = rr_created r"
  "fr_updated_at (factory_run_of r) = rr_updated r"
  by (simp_all add: factory_run_of_def)

section \<open>The invariant\<close>

text \<open>
  The attempts: each later row has a larger \<open>rowid\<close>, a run's open attempts come after its ended
  ones, an attempt has an ending when it ended, and the attempts of a run at a step are numbered
  from one.
\<close>

definition same_step :: "attempt_row \<Rightarrow> attempt_row \<Rightarrow> bool" where
  "same_step a b \<longleftrightarrow> ar_run a = ar_run b \<and> ar_step a = ar_step b"

fun numbered_after :: "attempt_row list \<Rightarrow> attempt_row list \<Rightarrow> bool" where
  "numbered_after before [] = True"
| "numbered_after before (a # rows) =
     (ar_attempt a = Suc (length (filter (same_step a) before)) \<and> numbered_after (before @ [a]) rows)"

definition attempts_ok :: "attempt_row list \<Rightarrow> bool" where
  "attempts_ok rows \<longleftrightarrow>
     sorted_wrt (\<lambda>a b. ar_rowid a < ar_rowid b) rows \<and>
     (\<forall>a \<in> set rows. 0 < ar_rowid a) \<and>
     sorted_wrt (\<lambda>a b. ar_run a = ar_run b \<and> \<not> closed a \<longrightarrow> \<not> closed b) rows \<and>
     (\<forall>a \<in> set rows. closed a \<longleftrightarrow> ar_ending a \<noteq> None) \<and>
     numbered_after [] rows"

text \<open>
  A run's row: its stops are numbered from one up to its stop generation, the last attempts they
  name never go down, and these and the attempt it was restarted after ended. None of the attempts
  of a run that stopped is open.
\<close>

definition run_ok :: "run_db \<Rightarrow> run_row \<Rightarrow> bool" where
  "run_ok db r \<longleftrightarrow>
     map so_generation (stops_of db (rr_id r)) = [1..<Suc (rr_stop_generation r)] \<and>
     sorted (map so_last_attempt (stops_of db (rr_id r))) \<and>
     (\<forall>s \<in> set (stops_of db (rr_id r)). so_last_attempt s \<le> closed_rowid db (rr_id r)) \<and>
     rr_restarted_after r \<le> closed_rowid db (rr_id r) \<and>
     (rr_status r \<in> set STOPS \<longrightarrow> no_open db (rr_id r))"

definition run_db_ok :: "run_db \<Rightarrow> bool" where
  "run_db_ok db \<longleftrightarrow>
     distinct (map rr_id (run_rows db)) \<and>
     ar_run ` set (attempt_rows db) \<subseteq> rr_id ` set (run_rows db) \<and>
     so_run ` set (stop_rows db) \<subseteq> rr_id ` set (run_rows db) \<and>
     attempts_ok (attempt_rows db) \<and>
     (\<forall>r \<in> set (run_rows db). run_ok db r)"

lemma numbered_after_append:
  "numbered_after before (xs @ ys) \<longleftrightarrow> numbered_after before xs \<and> numbered_after (before @ xs) ys"
  by (induction xs arbitrary: before) auto

text \<open>The numbers of the attempts of a run at a step, in the order they began.\<close>

lemma numbered_after_upt:
  assumes "numbered_after before rows"
  shows "map ar_attempt (filter (\<lambda>a. ar_run a = i \<and> ar_step a = j) rows) =
    [Suc (length (filter (\<lambda>a. ar_run a = i \<and> ar_step a = j) before))..<
     Suc (length (filter (\<lambda>a. ar_run a = i \<and> ar_step a = j) (before @ rows)))]"
  using assms
proof (induction rows arbitrary: before)
  case (Cons a rows)
  have same: "same_step a = (\<lambda>b. ar_run b = i \<and> ar_step b = j)" if "ar_run a = i" "ar_step a = j"
    using that by (auto simp: same_step_def)
  from Cons.IH [of "before @ [a]"] Cons.prems show ?case
    by (auto simp: same upt_rec)
qed simp


section \<open>One row changed\<close>

lemma run_ok_cong:
  assumes "stops_of db' (rr_id r) = stops_of db (rr_id r)"
    "attempts_of db' (rr_id r) = attempts_of db (rr_id r)"
  shows "run_ok db' r = run_ok db r"
  using assms by (simp add: run_ok_def closed_rowid_def no_open_def)

lemma run_ok_grows:
  assumes "run_ok db r" "closed_rowid db (rr_id r) \<le> closed_rowid db' (rr_id r)"
    "no_open db (rr_id r) \<Longrightarrow> no_open db' (rr_id r)" "stops_of db' (rr_id r) = stops_of db (rr_id r)"
  shows "run_ok db' r"
  using assms(1,3) order_trans [OF _ assms(2)] unfolding run_ok_def assms(4) by blast

lemma run_db_ok_set_run:
  assumes "run_db_ok db" "\<And>r. rr_id (f r) = rr_id r"
    "\<And>r. row_of db i = Some r \<Longrightarrow> run_ok db (f r)"
  shows "run_db_ok (set_run i f db)"
proof -
  have "run_ok (set_run i f db) r" if "r \<in> set (run_rows (set_run i f db))" for r
  proof -
    have "run_ok db r"
    proof -
      from that consider r0 where "r0 \<in> set (run_rows db)" "rr_id r0 = i" "r = f r0"
        | "r \<in> set (run_rows db)"
        by (auto simp: set_run_def set_row_update)
      then show ?thesis
      proof cases
        case 1
        with assms(1) have "row_of db i = Some r0"
          using find_distinct_key [of rr_id "run_rows db" r0] by (simp add: run_db_ok_def)
        with 1 assms(3) show ?thesis by simp
      next
        case 2
        with assms(1) show ?thesis by (simp add: run_db_ok_def)
      qed
    qed
    then show ?thesis using run_ok_cong [of "set_run i f db" r db] by (simp add: run_db_simps)
  qed
  moreover have "map rr_id (run_rows (set_run i f db)) = map rr_id (run_rows db)"
    using assms(2) by (simp add: set_run_def map_row_update)
  moreover from this have "rr_id ` set (run_rows (set_run i f db)) = rr_id ` set (run_rows db)"
    by (metis image_set)
  ultimately show ?thesis
    using assms(1) by (simp add: run_db_ok_def run_db_simps)
qed

text \<open>A change of a run's row that leaves its stops, its restart and its status as they are.\<close>

lemma run_db_ok_touch:
  assumes "run_db_ok db" "\<And>r. rr_id (f r) = rr_id r"
    "\<And>r. rr_stop_generation (f r) = rr_stop_generation r"
    "\<And>r. rr_restarted_after (f r) = rr_restarted_after r"
    "\<And>r. rr_status (f r) = rr_status r \<or> rr_status (f r) \<notin> set STOPS"
  shows "run_db_ok (set_run i f db)"
proof (rule run_db_ok_set_run [OF assms(1,2)])
  fix r assume "row_of db i = Some r"
  then have "run_ok db r" using assms(1) find_Some_key by (fastforce simp: run_db_ok_def)
  moreover have "rr_status (f r) \<in> set STOPS \<Longrightarrow> rr_status r \<in> set STOPS"
    using assms(5) [of r] by auto
  ultimately show "run_ok db (f r)"
    unfolding run_ok_def by (simp only: assms(2-4)) blast
qed

lemma row_ok: "run_db_ok db \<Longrightarrow> row_of db i = Some r \<Longrightarrow> rr_id r = i \<and> run_ok db r"
  using find_Some_key [of rr_id i "run_rows db" r] by (auto simp: run_db_ok_def)

text \<open>An operation that keeps the ids of the runs keeps the invariant if it keeps its parts.\<close>

lemma run_db_ok_same_ids:
  assumes "run_db_ok db" "map rr_id (run_rows db') = map rr_id (run_rows db)"
    and "attempts_ok (attempt_rows db')" "ar_run ` set (attempt_rows db') \<subseteq> rr_id ` set (run_rows db)"
    and "so_run ` set (stop_rows db') \<subseteq> rr_id ` set (run_rows db)"
    and "\<And>r. r \<in> set (run_rows db') \<Longrightarrow> run_ok db' r"
  shows "run_db_ok db'"
proof -
  have "rr_id ` set (run_rows db') = rr_id ` set (run_rows db)"
    using assms(2) by (metis image_set)
  with assms show ?thesis by (simp add: run_db_ok_def)
qed

section \<open>Moving a run\<close>

definition moved_row ::
  "moment \<Rightarrow> run_status \<Rightarrow> string option \<Rightarrow> moment option \<Rightarrow> bool \<Rightarrow> run_row \<Rightarrow> run_row" where
  "moved_row now status step_id wakes_at ended_call r =
     r\<lparr>rr_status := status, rr_step := step_id, rr_wakes_at := wakes_at, rr_updated := now,
       rr_ended_call := ended_call, rr_reported := (status \<noteq> Needs_Human \<and> rr_reported r),
       rr_stop_generation := rr_stop_generation r + (if status \<in> set STOPS then 1 else 0)\<rparr>"

definition new_stop :: "run_db \<Rightarrow> run_status \<Rightarrow> run_row \<Rightarrow> stop_row" where
  "new_stop db status r = \<lparr>so_run = rr_id r, so_generation = Suc (rr_stop_generation r),
     so_status = status, so_last_attempt = max_rowid (attempts_of db (rr_id r)), so_told = False\<rparr>"

lemma moved_row_simps [simp]:
  "rr_id (moved_row now status step_id wakes_at ended_call r) = rr_id r"
  "rr_factory (moved_row now status step_id wakes_at ended_call r) = rr_factory r"
  "rr_instance (moved_row now status step_id wakes_at ended_call r) = rr_instance r"
  "rr_work_item (moved_row now status step_id wakes_at ended_call r) = rr_work_item r"
  "rr_status (moved_row now status step_id wakes_at ended_call r) = status"
  "rr_step (moved_row now status step_id wakes_at ended_call r) = step_id"
  "rr_wakes_at (moved_row now status step_id wakes_at ended_call r) = wakes_at"
  "rr_restarted_after (moved_row now status step_id wakes_at ended_call r) = rr_restarted_after r"
  "rr_stop_generation (moved_row now status step_id wakes_at ended_call r) =
     rr_stop_generation r + (if status \<in> set STOPS then 1 else 0)"
  by (simp_all add: moved_row_def)

lemma set_run_cong: "(\<And>r. f r = g r) \<Longrightarrow> set_run i f db = set_run i g db"
  by (simp add: set_run_def row_update_def cong: if_cong)

lemma set_run_set_run:
  assumes "\<And>r. rr_id (g r) = rr_id r"
  shows "set_run i f (set_run i g db) = set_run i (f \<circ> g) db"
proof -
  have "row_update (\<lambda>r. rr_id r = i) f (row_update (\<lambda>r. rr_id r = i) g rows) =
    row_update (\<lambda>r. rr_id r = i) (f \<circ> g) rows" for rows
    using assms by (induction rows) auto
  then show ?thesis by (simp add: set_run_def)
qed

definition moved_db ::
  "moment \<Rightarrow> uuid \<Rightarrow> run_status \<Rightarrow> string option \<Rightarrow> moment option \<Rightarrow> bool \<Rightarrow> run_row \<Rightarrow> run_db \<Rightarrow> run_db" where
  "moved_db now i status step_id wakes_at ended_call r db =
     (set_run i (moved_row now status step_id wakes_at ended_call) db)
     \<lparr>stop_rows := stop_rows db @ (if status \<in> set STOPS then [new_stop db status r] else [])\<rparr>"

lemma Needs_Human_stops [simp]: "Needs_Human \<in> set STOPS" "Done \<in> set STOPS" "Cancelled \<in> set STOPS"
  "Running \<notin> set STOPS" "Queued \<notin> set STOPS" "Parked \<notin> set STOPS"
  by (simp_all add: STOPS_def)

lemma move_run_eq:
  assumes "row_of db i = Some r"
    "status \<in> set STOPS \<Longrightarrow> \<forall>s \<in> set (stops_of db i). so_generation s \<noteq> Suc (rr_stop_generation r)"
  shows "move_run now db i status step_id wakes_at ended_call =
    Inr (moved_db now i status step_id wakes_at ended_call r db,
         factory_run_of (moved_row now status step_id wakes_at ended_call r))"
proof -
  let ?m = "moved_row now status step_id wakes_at ended_call"
  have id: "rr_id r = i" using assms(1) find_Some_key [of rr_id i] by blast
  have nostop: "\<not> (\<exists>s \<in> set (stop_rows db). so_run s = i \<and> so_generation s = Suc (rr_stop_generation r))"
    if "status \<in> set STOPS"
    using assms(2) [OF that] by (auto simp: stops_of_def)
  have row: "row_of (set_run i ?m db) i = Some (?m r)"
    using assms(1) by (simp add: run_db_simps)
  show ?thesis
  proof (cases "status \<in> set STOPS")
    case False
    then have "set_run i (\<lambda>r. r\<lparr>rr_status := status, rr_step := step_id, rr_wakes_at := wakes_at,
        rr_updated := now, rr_ended_call := ended_call\<rparr>) db = set_run i ?m db"
      by (intro set_run_cong) (auto simp: moved_row_def STOPS_def intro!: run_row.equality)
    with False row show ?thesis
      by (auto simp: move_run_def moved_db_def existing_run_def run_row_of Let_def set_run_def)
  next
    case True
    have stopped: "record_stop i (set_run i ?m db) = Inr (moved_db now i status step_id wakes_at ended_call r db)"
      using True assms(1) nostop id
      by (simp add: record_stop_def moved_db_def new_stop_def run_db_simps)
    have "set_run i (\<lambda>r. r\<lparr>rr_stop_generation := rr_stop_generation r + 1\<rparr>)
        (if status = Needs_Human then set_run i (\<lambda>r. r\<lparr>rr_reported := False\<rparr>)
           (set_run i (\<lambda>r. r\<lparr>rr_status := status, rr_step := step_id, rr_wakes_at := wakes_at,
             rr_updated := now, rr_ended_call := ended_call\<rparr>) db)
         else set_run i (\<lambda>r. r\<lparr>rr_status := status, rr_step := step_id, rr_wakes_at := wakes_at,
             rr_updated := now, rr_ended_call := ended_call\<rparr>) db) = set_run i ?m db"
      using True by (simp add: set_run_set_run) (auto simp: moved_row_def intro!: set_run_cong)
    with True stopped row show ?thesis
      by (simp add: move_run_def Let_def existing_run_def run_row_of moved_db_def)
  qed
qed


lemma next_stop_is_new:
  assumes "run_ok db r"
  shows "\<forall>s \<in> set (stops_of db (rr_id r)). so_generation s \<noteq> Suc (rr_stop_generation r)"
proof -
  have "so_generation ` set (stops_of db (rr_id r)) = {1..<Suc (rr_stop_generation r)}"
    using assms unfolding run_ok_def by (metis image_set set_upt)
  then have "so_generation s < Suc (rr_stop_generation r)" if "s \<in> set (stops_of db (rr_id r))" for s
    using that by auto
  then show ?thesis by (metis less_irrefl)
qed

lemma move_run_ok_eq:
  assumes "run_db_ok db" "row_of db i = Some r"
  shows "move_run now db i status step_id wakes_at ended_call =
    Inr (moved_db now i status step_id wakes_at ended_call r db,
         factory_run_of (moved_row now status step_id wakes_at ended_call r))"
  using row_ok [OF assms] next_stop_is_new [of db r] by (intro move_run_eq [OF assms(2)]) simp_all

lemma move_run_missing:
  assumes "row_of db i = None"
  shows "move_run now db i status step_id wakes_at ended_call = Inl (Run_Not_Found i)"
proof -
  have "row_of (set_run i f db) i = None" if "\<And>r. rr_id (f r) = rr_id r" for f
    using assms that by (simp add: run_db_simps)
  with assms show ?thesis
    by (simp add: move_run_def Let_def record_stop_def existing_run_def run_row_of set_run_set_run)
qed

lemma moved_db_simps [run_db_simps]:
  "attempt_rows (moved_db now i status step_id wakes_at ended_call r db) = attempt_rows db"
  "attempts_of (moved_db now i status step_id wakes_at ended_call r db) j = attempts_of db j"
  "no_open (moved_db now i status step_id wakes_at ended_call r db) j = no_open db j"
  "closed_rowid (moved_db now i status step_id wakes_at ended_call r db) j = closed_rowid db j"
  "stops_of (moved_db now i status step_id wakes_at ended_call r db) j = stops_of db j @
     (if status \<in> set STOPS \<and> rr_id r = j then [new_stop db status r] else [])"
  "row_of (moved_db now i status step_id wakes_at ended_call r db) j =
     map_option (\<lambda>x. if j = i then moved_row now status step_id wakes_at ended_call x else x) (row_of db j)"
proof -
  show at: "attempt_rows (moved_db now i status step_id wakes_at ended_call r db) = attempt_rows db"
    by (simp add: moved_db_def run_db_simps)
  then show of: "attempts_of (moved_db now i status step_id wakes_at ended_call r db) j = attempts_of db j"
    by (rule attempts_of_cong)
  show "no_open (moved_db now i status step_id wakes_at ended_call r db) j = no_open db j"
    "closed_rowid (moved_db now i status step_id wakes_at ended_call r db) j = closed_rowid db j"
    by (simp_all add: no_open_def closed_rowid_def of)
  show "stops_of (moved_db now i status step_id wakes_at ended_call r db) j = stops_of db j @
     (if status \<in> set STOPS \<and> rr_id r = j then [new_stop db status r] else [])"
    by (simp add: moved_db_def stops_of_def new_stop_def)
  show "row_of (moved_db now i status step_id wakes_at ended_call r db) j =
     map_option (\<lambda>x. if j = i then moved_row now status step_id wakes_at ended_call x else x) (row_of db j)"
    using row_of_set_run [where f = "moved_row now status step_id wakes_at ended_call" and j = i and db = db and i = j]
    by (simp add: moved_db_def set_run_def)
qed

lemma moved_row_ok:
  assumes "run_ok db r" "status \<in> set STOPS \<Longrightarrow> no_open db (rr_id r)"
  shows "run_ok (moved_db now (rr_id r) status step_id wakes_at ended_call r db)
     (moved_row now status step_id wakes_at ended_call r)"
proof (cases "status \<in> set STOPS")
  case False
  with assms show ?thesis by (simp add: run_ok_def run_db_simps)
next
  case True
  with assms have last: "max_rowid (attempts_of db (rr_id r)) = closed_rowid db (rr_id r)"
    by (simp add: no_open_closed_rowid)
  from True assms show ?thesis
    unfolding run_ok_def
    by (simp add: run_db_simps new_stop_def last sorted_append)
qed

lemma move_run_keeps:
  assumes "run_db_ok db" "status \<in> set STOPS \<Longrightarrow> no_open db i"
    "move_run now db i status step_id wakes_at ended_call = Inr (db', x)"
  shows "run_db_ok db'"
proof (cases "row_of db i")
  case None
  with assms(3) show ?thesis by (simp add: move_run_missing)
next
  case (Some r)
  note row = row_ok [OF assms(1) Some]
  let ?db = "moved_db now i status step_id wakes_at ended_call r db"
  have db': "db' = ?db" using assms(3) move_run_ok_eq [OF assms(1) Some] by simp
  have ids: "map rr_id (run_rows ?db) = map rr_id (run_rows db)"
    by (simp add: moved_db_def set_run_def map_row_update)
  have "run_ok ?db x" if "x \<in> set (run_rows ?db)" for x
  proof (cases "rr_id x = i")
    case True
    have "row_of ?db i = Some x"
      using that True ids assms(1) find_distinct_key [of rr_id "run_rows ?db" x]
      by (simp add: run_db_ok_def)
    with Some have "x = moved_row now status step_id wakes_at ended_call r"
      by (simp add: run_db_simps)
    with row moved_row_ok [of db r status] assms(2) show ?thesis by simp
  next
    case False
    with that have "x \<in> set (run_rows db)"
      by (auto simp: moved_db_def set_run_def set_row_update)
    with False row assms(1) show ?thesis
      using run_ok_cong [of ?db x db] by (simp add: run_db_ok_def run_db_simps)
  qed
  moreover have "so_run ` set (stop_rows ?db) \<subseteq> rr_id ` set (run_rows db)"
    using assms(1) row Some find_Some_key [of rr_id i "run_rows db" r]
    by (auto simp: moved_db_def new_stop_def run_db_ok_def)
  ultimately show ?thesis
    using assms(1) unfolding db'
    by (intro run_db_ok_same_ids [OF assms(1) ids]) (simp_all add: run_db_ok_def moved_db_simps)
qed


section \<open>Attempts that begin, end and are dropped\<close>

definition new_attempt :: "moment \<Rightarrow> run_db \<Rightarrow> uuid \<Rightarrow> string \<Rightarrow> attempt_row" where
  "new_attempt now db i step_id = \<lparr>ar_rowid = Suc (max_rowid (attempt_rows db)), ar_run = i,
     ar_step = step_id,
     ar_attempt = Suc (length (filter (\<lambda>a. ar_run a = i \<and> ar_step a = step_id) (attempt_rows db))),
     ar_ending = None, ar_outcome = None, ar_values = [], ar_summary = [], ar_session = None,
     ar_started = now, ar_ended = None\<rparr>"

definition begun_row :: "moment \<Rightarrow> string \<Rightarrow> run_status \<Rightarrow> run_row \<Rightarrow> run_row" where
  "begun_row now step_id status r =
     r\<lparr>rr_status := status, rr_step := Some step_id, rr_updated := now\<rparr>"

definition begun_db :: "moment \<Rightarrow> uuid \<Rightarrow> string \<Rightarrow> run_status \<Rightarrow> run_db \<Rightarrow> run_db" where
  "begun_db now i step_id status db = set_run i (begun_row now step_id status)
     (db\<lparr>attempt_rows := attempt_rows db @ [new_attempt now db i step_id]\<rparr>)"

lemma begun_row_simps [simp]:
  "rr_id (begun_row now step_id status r) = rr_id r"
  "rr_factory (begun_row now step_id status r) = rr_factory r"
  "rr_instance (begun_row now step_id status r) = rr_instance r"
  "rr_work_item (begun_row now step_id status r) = rr_work_item r"
  "rr_status (begun_row now step_id status r) = status"
  "rr_step (begun_row now step_id status r) = Some step_id"
  "rr_restarted_after (begun_row now step_id status r) = rr_restarted_after r"
  "rr_stop_generation (begun_row now step_id status r) = rr_stop_generation r"
  "rr_wakes_at (begun_row now step_id status r) = rr_wakes_at r"
  by (simp_all add: begun_row_def)

lemma new_attempt_simps [simp]:
  "ar_rowid (new_attempt now db i step_id) = Suc (max_rowid (attempt_rows db))"
  "ar_run (new_attempt now db i step_id) = i" "ar_step (new_attempt now db i step_id) = step_id"
  "ar_ending (new_attempt now db i step_id) = None" "ar_ended (new_attempt now db i step_id) = None"
  by (simp_all add: new_attempt_def)

text \<open>The number of a new attempt is free: the run's attempts at the step have the smaller ones.\<close>

lemma next_number_is_new:
  assumes "attempts_ok (attempt_rows db)" "a \<in> set (attempt_rows db)" "ar_run a = i" "ar_step a = step_id"
  shows "ar_attempt a < ar_attempt (new_attempt now db i step_id)"
proof -
  have "ar_attempt ` set (filter (\<lambda>a. ar_run a = i \<and> ar_step a = step_id) (attempt_rows db)) =
      set [Suc 0..<ar_attempt (new_attempt now db i step_id)]"
    using assms(1) numbered_after_upt [of "[]" "attempt_rows db" i step_id]
    unfolding attempts_ok_def new_attempt_def by (metis (no_types, lifting) append_Nil attempt_row.simps(4)
        filter.simps(1) image_set list.size(3))
  with assms(2-4) show ?thesis by (fastforce simp: image_iff)
qed

lemma begin_attempt_eq:
  assumes "run_db_ok db" "row_of db i = Some r"
  shows "begin_attempt now db i step_id status =
    Inr (begun_db now i step_id status db, factory_run_of (begun_row now step_id status r))"
proof -
  have "i \<in> rr_id ` set (run_rows db)"
    using assms(2) find_Some_key [of rr_id i "run_rows db" r] by force
  moreover have "\<not> (\<exists>a \<in> set (attempt_rows db). ar_run a = i \<and> ar_step a = step_id \<and>
      ar_attempt a = length (filter (\<lambda>a. ar_run a = i \<and> ar_step a = step_id) (attempt_rows db)) + 1)"
    using next_number_is_new [of db _ i step_id now] assms(1)
    by (fastforce simp: run_db_ok_def new_attempt_def)
  moreover have "row_of (begun_db now i step_id status db) i = Some (begun_row now step_id status r)"
    using assms(2) by (simp add: begun_db_def row_of_set_run)
  ultimately show ?thesis
    unfolding begin_attempt_def Let_def
    by (simp add: existing_run_def run_row_of begun_db_def begun_row_def [abs_def] new_attempt_def)
qed

lemma begin_attempt_missing:
  assumes "row_of db i = None"
  shows "begin_attempt now db i step_id status = Inl Integrity_Error"
  using assms by (simp add: begin_attempt_def find_None_key)

lemma attempts_ok_append:
  assumes "attempts_ok (attempt_rows db)"
  shows "attempts_ok (attempt_rows db @ [new_attempt now db i step_id])"
proof -
  have "(\<lambda>a. ar_run a = i \<and> ar_step a = step_id) = same_step (new_attempt now db i step_id)"
    by (auto simp: same_step_def)
  then have "ar_attempt (new_attempt now db i step_id) =
      Suc (length (filter (same_step (new_attempt now db i step_id)) (attempt_rows db)))"
    by (simp add: new_attempt_def)
  with assms show ?thesis
    by (auto simp: attempts_ok_def sorted_wrt_append numbered_after_append less_Suc_eq_le max_rowid_ge)
qed

lemma begun_db_simps [run_db_simps]:
  "attempt_rows (begun_db now i step_id status db) = attempt_rows db @ [new_attempt now db i step_id]"
  "attempts_of (begun_db now i step_id status db) j =
     attempts_of db j @ (if j = i then [new_attempt now db i step_id] else [])"
  "stop_rows (begun_db now i step_id status db) = stop_rows db"
  "stops_of (begun_db now i step_id status db) j = stops_of db j"
  "closed_rowid (begun_db now i step_id status db) j = closed_rowid db j"
  "row_of (begun_db now i step_id status db) j =
     map_option (\<lambda>x. if j = i then begun_row now step_id status x else x) (row_of db j)"
  by (simp_all add: begun_db_def attempts_of_def stops_of_def closed_rowid_def run_db_simps)

lemma begun_db_keeps:
  assumes "run_db_ok db" "status \<notin> set STOPS" "i \<in> rr_id ` set (run_rows db)"
  shows "run_db_ok (begun_db now i step_id status db)"
proof -
  let ?db = "begun_db now i step_id status db"
  have "run_ok ?db x" if "x \<in> set (run_rows ?db)" for x
  proof -
    from that obtain y where y: "y \<in> set (run_rows db)"
      and x: "x = (if rr_id y = i then begun_row now step_id status y else y)"
      by (auto simp: begun_db_def set_run_def set_row_update)
    from y assms(1) have "run_ok db y" by (simp add: run_db_ok_def)
    with x assms(2) show ?thesis
      by (auto simp: run_ok_def run_db_simps no_open_def)
  qed
  moreover have "map rr_id (run_rows ?db) = map rr_id (run_rows db)"
    by (simp add: begun_db_def set_run_def map_row_update)
  ultimately show ?thesis
    using assms(1,3) by (intro run_db_ok_same_ids [OF assms(1)])
      (simp_all add: run_db_ok_def begun_db_simps attempts_ok_append)
qed


definition ended_row :: "moment \<Rightarrow> step_result \<Rightarrow> attempt_row \<Rightarrow> attempt_row" where
  "ended_row now result a = a\<lparr>ar_ending := Some (sr_ending result), ar_outcome := sr_outcome result,
     ar_values := sr_values result, ar_summary := sr_summary result, ar_session := sr_session result,
     ar_ended := Some now\<rparr>"

lemma ended_row_simps [simp]:
  "ar_rowid (ended_row now result a) = ar_rowid a" "ar_run (ended_row now result a) = ar_run a"
  "ar_step (ended_row now result a) = ar_step a" "ar_attempt (ended_row now result a) = ar_attempt a"
  "ar_ending (ended_row now result a) = Some (sr_ending result)"
  "ar_ended (ended_row now result a) = Some now"
  "ar_started (ended_row now result a) = ar_started a"
  by (simp_all add: ended_row_def)

lemma end_attempt_rows [run_db_simps]:
  "attempt_rows (end_attempt now db i result) =
     map (\<lambda>a. if open_attempt i a then ended_row now result a else a) (attempt_rows db)"
  "run_rows (end_attempt now db i result) = run_rows db"
  "stop_rows (end_attempt now db i result) = stop_rows db"
  "stops_of (end_attempt now db i result) j = stops_of db j"
  by (simp_all add: end_attempt_def ended_row_def [abs_def] row_update_def stops_of_def)

lemma end_attempt_attempts_of [run_db_simps]:
  "attempts_of (end_attempt now db i result) j =
     map (\<lambda>a. if open_attempt i a then ended_row now result a else a) (attempts_of db j)"
proof -
  have same: "ar_run (if open_attempt i a then ended_row now result a else a) = ar_run a" for a
    by simp
  show ?thesis by (simp add: attempts_of_def run_db_simps filter_map comp_def same)
qed

lemma numbered_after_map:
  assumes "\<And>a. ar_run (g a) = ar_run a" "\<And>a. ar_step (g a) = ar_step a"
    "\<And>a. ar_attempt (g a) = ar_attempt a"
  shows "numbered_after (map g before) (map g rows) = numbered_after before rows"
proof (induction rows arbitrary: before)
  case (Cons a rows)
  have "(\<lambda>x. same_step (g a) (g x)) = same_step a"
    using assms by (auto simp: same_step_def)
  with Cons [of "before @ [a]"] show ?case by (simp add: assms filter_map comp_def)
qed simp

lemma numbered_after_filter:
  assumes "numbered_after before rows" "\<forall>b \<in> set rows. P b \<longrightarrow> (\<forall>a \<in> set before. same_step b a \<longrightarrow> P a)"
    "sorted_wrt (\<lambda>a b. same_step b a \<and> P b \<longrightarrow> P a) rows"
  shows "numbered_after (filter P before) (filter P rows)"
  using assms
proof (induction rows arbitrary: before)
  case (Cons a rows)
  have IH: "numbered_after (filter P (before @ [a])) (filter P rows)"
  proof (rule Cons.IH)
    have sorted: "\<forall>b \<in> set rows. same_step b a \<and> P b \<longrightarrow> P a"
      "sorted_wrt (\<lambda>a b. same_step b a \<and> P b \<longrightarrow> P a) rows"
      using Cons.prems(3) unfolding sorted_wrt.simps by blast+
    then show "sorted_wrt (\<lambda>a b. same_step b a \<and> P b \<longrightarrow> P a) rows" by blast
    show "numbered_after (before @ [a]) rows" using Cons.prems(1) by simp
    show "\<forall>b \<in> set rows. P b \<longrightarrow> (\<forall>x \<in> set (before @ [a]). same_step b x \<longrightarrow> P x)"
      using Cons.prems(2) sorted(1) unfolding set_append list.set by blast
  qed
  show ?case
  proof (cases "P a")
    case True
    have "filter (same_step a) (filter P xs) = filter (same_step a) xs"
      if "\<forall>x \<in> set xs. same_step a x \<longrightarrow> P x" for xs
      using that by (induction xs) auto
    from this [of before] have "filter (same_step a) (filter P before) = filter (same_step a) before"
      using Cons.prems(2) True by simp
    with IH True Cons.prems(1) show ?thesis by simp
  next
    case False
    with IH show ?thesis by simp
  qed
qed simp

lemma end_attempt_keeps:
  assumes "run_db_ok db"
  shows "run_db_ok (end_attempt now db i result)"
proof (rule run_db_ok_same_ids [OF assms])
  let ?db = "end_attempt now db i result"
  let ?g = "\<lambda>a. if open_attempt i a then ended_row now result a else a"
  have "sorted_wrt (\<lambda>a b. ar_run (?g a) = ar_run (?g b) \<and> \<not> closed (?g a) \<longrightarrow> \<not> closed (?g b)) (attempt_rows db)"
    using assms unfolding run_db_ok_def attempts_ok_def
    by (elim conjE) (erule sorted_wrt_mono_rel [rotated], auto simp: open_attempt_def)
  moreover have "numbered_after [] (map ?g (attempt_rows db))"
    using assms numbered_after_map [of ?g "[]" "attempt_rows db"]
    by (simp add: run_db_ok_def attempts_ok_def)
  moreover have "sorted_wrt (\<lambda>a b. ar_rowid (?g a) < ar_rowid (?g b)) (attempt_rows db)"
  proof -
    have "ar_rowid (?g a) = ar_rowid a" for a by simp
    then show ?thesis using assms by (simp add: run_db_ok_def attempts_ok_def)
  qed
  moreover have "\<forall>a \<in> set (attempt_rows db). 0 < ar_rowid (?g a) \<and> (closed (?g a) \<longleftrightarrow> ar_ending (?g a) \<noteq> None)"
    using assms by (simp add: run_db_ok_def attempts_ok_def)
  ultimately show "attempts_ok (attempt_rows ?db)"
    unfolding attempts_ok_def end_attempt_rows sorted_wrt_map set_map by blast
  fix r assume "r \<in> set (run_rows ?db)"
  then have "run_ok db r" using assms by (simp add: run_db_simps run_db_ok_def)
  moreover have "closed_rowid db (rr_id r) \<le> closed_rowid ?db (rr_id r)"
    unfolding closed_rowid_def max_rowid_le
  proof
    fix a assume "a \<in> set (filter closed (attempts_of db (rr_id r)))"
    then have "a \<in> set (filter closed (attempts_of ?db (rr_id r)))"
      by (force simp: run_db_simps open_attempt_def)
    then show "ar_rowid a \<le> max_rowid (filter closed (attempts_of ?db (rr_id r)))"
      by (rule max_rowid_ge)
  qed
  moreover have "no_open db (rr_id r) \<Longrightarrow> no_open ?db (rr_id r)"
    by (auto simp: no_open_def run_db_simps)
  ultimately show "run_ok ?db r"
    by (rule run_ok_grows [OF _ _ _ end_attempt_rows(4)])
qed (use assms in \<open>auto simp: run_db_simps run_db_ok_def\<close>)

lemma end_attempt_no_open: "no_open (end_attempt now db i result) i"
proof -
  have "closed (if open_attempt i a then ended_row now result a else a)"
    if "a \<in> set (attempts_of db i)" for a
    using that by (simp add: open_attempt_def attempts_of_def)
  then show ?thesis by (simp only: no_open_def end_attempt_attempts_of set_map ball_simps) blast
qed


definition dropped_db :: "moment \<Rightarrow> uuid \<Rightarrow> run_db \<Rightarrow> run_db" where
  "dropped_db now i db = set_run i (\<lambda>r. r\<lparr>rr_status := Queued, rr_updated := now\<rparr>)
     (db\<lparr>attempt_rows := row_delete (open_attempt i) (attempt_rows db)\<rparr>)"

lemma drop_attempt_eq:
  "drop_attempt now db i =
    (case row_of db i of
       None \<Rightarrow> Inl (Run_Not_Found i)
     | Some r \<Rightarrow> Inr (dropped_db now i db, factory_run_of (r\<lparr>rr_status := Queued, rr_updated := now\<rparr>)))"
proof -
  have "row_of (dropped_db now i db) i =
      map_option (\<lambda>r. r\<lparr>rr_status := Queued, rr_updated := now\<rparr>) (row_of db i)"
    by (simp add: dropped_db_def row_of_set_run)
  then show ?thesis
    by (cases "row_of db i")
      (simp_all add: drop_attempt_def Let_def existing_run_def run_row_of dropped_db_def [symmetric])
qed

lemma dropped_db_simps [run_db_simps]:
  "attempt_rows (dropped_db now i db) = row_delete (open_attempt i) (attempt_rows db)"
  "attempts_of (dropped_db now i db) j = row_delete (open_attempt i) (attempts_of db j)"
  "stop_rows (dropped_db now i db) = stop_rows db"
  "stops_of (dropped_db now i db) j = stops_of db j"
  "closed_rowid (dropped_db now i db) j = closed_rowid db j"
  "row_of (dropped_db now i db) j =
     map_option (\<lambda>r. if j = i then r\<lparr>rr_status := Queued, rr_updated := now\<rparr> else r) (row_of db j)"
proof -
  show rows: "attempt_rows (dropped_db now i db) = row_delete (open_attempt i) (attempt_rows db)"
    by (simp add: dropped_db_def set_run_simps)
  then show of: "attempts_of (dropped_db now i db) j = row_delete (open_attempt i) (attempts_of db j)"
    by (simp add: attempts_of_def row_delete_def conj_commute)
  have "filter closed (row_delete (open_attempt i) xs) = filter closed xs" for xs
    by (induction xs) (auto simp: open_attempt_def)
  then show "closed_rowid (dropped_db now i db) j = closed_rowid db j"
    by (simp add: closed_rowid_def of)
  show "stop_rows (dropped_db now i db) = stop_rows db" "stops_of (dropped_db now i db) j = stops_of db j"
    by (simp_all add: dropped_db_def stops_of_def set_run_simps)
  show "row_of (dropped_db now i db) j =
     map_option (\<lambda>r. if j = i then r\<lparr>rr_status := Queued, rr_updated := now\<rparr> else r) (row_of db j)"
    by (simp add: dropped_db_def row_of_set_run)
qed

lemma attempts_ok_drop:
  assumes "attempts_ok rows"
  shows "attempts_ok (row_delete (open_attempt i) rows)"
proof -
  let ?P = "\<lambda>a. \<not> open_attempt i a"
  have "sorted_wrt (\<lambda>a b. ar_run a = ar_run b \<and> \<not> closed a \<longrightarrow> \<not> closed b) rows"
    using assms unfolding attempts_ok_def by blast
  then have "sorted_wrt (\<lambda>a b. same_step b a \<and> ?P b \<longrightarrow> ?P a) rows"
    by (rule sorted_wrt_mono_rel [rotated]) (auto simp: open_attempt_def same_step_def)
  then have "numbered_after (filter ?P []) (filter ?P rows)"
    using assms by (intro numbered_after_filter) (simp_all add: attempts_ok_def)
  with assms show ?thesis
    unfolding attempts_ok_def row_delete_def by (simp add: sorted_wrt_filter)
qed

lemma dropped_db_keeps:
  assumes "run_db_ok db"
  shows "run_db_ok (dropped_db now i db)"
proof (rule run_db_ok_same_ids [OF assms])
  let ?db = "dropped_db now i db"
  show "map rr_id (run_rows ?db) = map rr_id (run_rows db)"
    by (simp add: dropped_db_def set_run_def map_row_update)
  show "attempts_ok (attempt_rows ?db)"
    using assms by (simp add: dropped_db_simps attempts_ok_drop run_db_ok_def)
  show "ar_run ` set (attempt_rows ?db) \<subseteq> rr_id ` set (run_rows db)"
    "so_run ` set (stop_rows ?db) \<subseteq> rr_id ` set (run_rows db)"
    using assms by (auto simp: dropped_db_simps run_db_ok_def)
  fix r assume "r \<in> set (run_rows ?db)"
  then obtain y where y: "y \<in> set (run_rows db)"
    and r: "r = (if rr_id y = i then y\<lparr>rr_status := Queued, rr_updated := now\<rparr> else y)"
    by (auto simp: dropped_db_def set_run_def set_row_update)
  from y assms have "run_ok db y" by (simp add: run_db_ok_def)
  then have "run_ok ?db y"
    by (rule run_ok_grows) (simp_all add: dropped_db_simps no_open_def)
  with r show "run_ok ?db r" by (auto simp: run_ok_def)
qed

definition restarted_row :: "moment \<Rightarrow> string option \<Rightarrow> nat \<Rightarrow> run_row \<Rightarrow> run_row" where
  "restarted_row now step_id k r =
     r\<lparr>rr_status := Queued, rr_step := step_id, rr_updated := now, rr_restarted_after := k\<rparr>"

lemma restarted_row_simps [simp]:
  "rr_id (restarted_row now step_id k r) = rr_id r"
  "rr_factory (restarted_row now step_id k r) = rr_factory r"
  "rr_status (restarted_row now step_id k r) = Queued"
  "rr_step (restarted_row now step_id k r) = step_id"
  "rr_restarted_after (restarted_row now step_id k r) = k"
  "rr_stop_generation (restarted_row now step_id k r) = rr_stop_generation r"
  by (simp_all add: restarted_row_def)

lemma restart_run_eq:
  "restart_run now db i step_id =
    (case row_of db i of
       None \<Rightarrow> Inl (Run_Not_Found i)
     | Some r \<Rightarrow> Inr (set_run i (restarted_row now step_id (max_rowid (attempts_of db i))) db,
         factory_run_of (restarted_row now step_id (max_rowid (attempts_of db i)) r)))"
proof -
  have "row_of (set_run i (restarted_row now step_id (max_rowid (attempts_of db i))) db) i =
      map_option (restarted_row now step_id (max_rowid (attempts_of db i))) (row_of db i)"
    by (simp add: row_of_set_run)
  then show ?thesis
    by (cases "row_of db i")
      (simp_all add: restart_run_def Let_def existing_run_def run_row_of restarted_row_def [abs_def])
qed

lemma restart_run_keeps:
  assumes "run_db_ok db" "no_open db i" "restart_run now db i step_id = Inr (db', x)"
  shows "run_db_ok db'"
proof -
  have "run_db_ok (set_run i (restarted_row now step_id (max_rowid (attempts_of db i))) db)"
  proof (rule run_db_ok_set_run [OF assms(1)])
    fix r assume "row_of db i = Some r"
    with row_ok [OF assms(1)] have "run_ok db r" "rr_id r = i" by blast+
    with no_open_closed_rowid [OF assms(2)]
    show "run_ok db (restarted_row now step_id (max_rowid (attempts_of db i)) r)"
      by (simp add: run_ok_def)
  qed simp
  with assms(3) show ?thesis by (simp add: restart_run_eq split: option.splits)
qed

section \<open>New runs and the marks\<close>

lemma open_run_keeps:
  assumes "run_db_ok db" "open_run new_id now db inst factory work_item first_step = Inr (db', x, started)"
  shows "run_db_ok db'"
proof (cases "started")
  case False
  with assms show ?thesis
    by (auto simp: open_run_def Let_def split: option.splits if_splits sum.splits)
next
  case True
  let ?row = "\<lparr>rr_id = new_id, rr_factory = factory, rr_instance = inst,
    rr_work_item = work_item_key work_item, rr_status = Queued, rr_step = Some first_step,
    rr_created = now, rr_updated = now, rr_restarted_after = 0, rr_reported = False,
    rr_stop_generation = 0, rr_wakes_at = None, rr_ended_call = False\<rparr>"
  from assms(2) True have fresh: "new_id \<notin> rr_id ` set (run_rows db)"
    and db': "db' = db\<lparr>run_rows := run_rows db @ [?row]\<rparr>"
    by (auto simp: open_run_def Let_def split: option.splits if_splits sum.splits)
  have none: "stops_of db new_id = []" "attempts_of db new_id = []"
    using fresh assms(1) by (auto simp: run_db_ok_def stops_of_def attempts_of_def filter_empty_conv)
  have of: "stops_of db' j = stops_of db j" "attempts_of db' j = attempts_of db j" for j
    by (simp_all add: db' stops_of_def attempts_of_def)
  have "run_ok db' ?row" by (simp add: run_ok_def of none no_open_def)
  moreover have "run_ok db' r" if "r \<in> set (run_rows db)" for r
    using that assms(1) run_ok_cong [of db' r db] by (simp add: run_db_ok_def of)
  ultimately show ?thesis
    using assms(1) fresh by (auto simp: run_db_ok_def db')
qed

lemma marks_keep:
  assumes "run_db_ok db"
  shows "run_db_ok (mark_reported db i generation)" "run_db_ok (mark_ended_called db i)"
    "run_db_ok (mark_told db i generation)"
proof -
  let ?p = "\<lambda>r. rr_id r = i \<and> rr_stop_generation r = generation"
  have "run_db_ok (db\<lparr>run_rows := row_update ?p (\<lambda>r. r\<lparr>rr_reported := True\<rparr>) (run_rows db)\<rparr>)"
  proof (rule run_db_ok_same_ids [OF assms])
    fix r assume "r \<in> set (run_rows (db\<lparr>run_rows := row_update ?p (\<lambda>r. r\<lparr>rr_reported := True\<rparr>) (run_rows db)\<rparr>))"
    then obtain y where "y \<in> set (run_rows db)" "r = (if ?p y then y\<lparr>rr_reported := True\<rparr> else y)"
      by (auto simp: set_row_update)
    with assms show "run_ok (db\<lparr>run_rows := row_update ?p (\<lambda>r. r\<lparr>rr_reported := True\<rparr>) (run_rows db)\<rparr>) r"
      by (auto simp: run_db_ok_def run_ok_def stops_of_def closed_rowid_def no_open_def attempts_of_def)
  qed (use assms in \<open>auto simp: run_db_ok_def map_row_update\<close>)
  then show "run_db_ok (mark_reported db i generation)" by (simp add: mark_reported_def)
  show "run_db_ok (mark_ended_called db i)"
    unfolding mark_ended_called_def by (rule run_db_ok_touch [OF assms]) simp_all
  let ?q = "\<lambda>s. so_run s = i \<and> so_generation s = generation"
  have map: "map f (filter (\<lambda>s. so_run s = j) (row_update ?q (\<lambda>s. s\<lparr>so_told := True\<rparr>) rows)) =
      map f (filter (\<lambda>s. so_run s = j) rows)" if "\<And>s. f (s\<lparr>so_told := True\<rparr>) = f s"
    for f :: "stop_row \<Rightarrow> nat" and j rows
    using that by (induction rows) auto
  show "run_db_ok (mark_told db i generation)"
  proof (rule run_db_ok_same_ids [OF assms])
    let ?db = "mark_told db i generation"
    have of: "attempts_of ?db j = attempts_of db j"
      "map so_generation (stops_of ?db j) = map so_generation (stops_of db j)"
      "map so_last_attempt (stops_of ?db j) = map so_last_attempt (stops_of db j)" for j
      by (simp_all add: mark_told_def attempts_of_def stops_of_def map)
    then have "so_last_attempt ` set (stops_of ?db j) = so_last_attempt ` set (stops_of db j)" for j
      by (metis image_set)
    then have le: "(\<forall>s \<in> set (stops_of ?db j). so_last_attempt s \<le> k) \<longleftrightarrow>
        (\<forall>s \<in> set (stops_of db j). so_last_attempt s \<le> k)" for j k
      by (metis (mono_tags, lifting) imageE imageI)
    fix r assume "r \<in> set (run_rows ?db)"
    with assms have "run_ok db r" by (simp add: run_db_ok_def mark_told_def)
    then show "run_ok ?db r" by (simp add: run_ok_def of le closed_rowid_def no_open_def)
  qed (use assms in \<open>auto simp: run_db_ok_def mark_told_def set_row_update\<close>)
qed

lemma no_row_no_attempts:
  assumes "run_db_ok db" "row_of db j = None"
  shows "attempts_of db j = []"
proof -
  have "j \<notin> rr_id ` set (run_rows db)" using assms(2) by (auto simp: find_None_iff)
  then have "j \<notin> ar_run ` set (attempt_rows db)" using assms(1) unfolding run_db_ok_def by blast
  then show ?thesis by (auto simp: attempts_of_def filter_empty_conv)
qed

lemma run_db_ok_empty: "run_db_ok \<lparr>run_rows = [], attempt_rows = [], stop_rows = []\<rparr>"
  by (simp add: run_db_ok_def attempts_ok_def)

end
