(* ===== verification/Run_Tables_Laws.thy ===== *)
theory Run_Tables_Laws
  imports Run_Invariants
begin

text \<open>
  What the run tables promise their callers: how a work item finds its run, how attempts are
  numbered, dropped and counted afresh, and which attempts each stop tells. The witnesses evaluate
  on a small database, \<open>sample_db\<close>, with one run that stopped once and is under way again.
\<close>

section \<open>A database for the witnesses\<close>

definition sample_row :: run_row where
  "sample_row = \<lparr>rr_id = 1, rr_factory = ''sample'', rr_instance = 7,
     rr_work_item = [(''issue'', VInt 3)], rr_status = Running, rr_step = Some ''test'',
     rr_created = 0, rr_updated = 4, rr_restarted_after = 1, rr_reported = True,
     rr_stop_generation = 1, rr_wakes_at = None, rr_ended_call = False\<rparr>"

definition sample_attempt :: "nat \<Rightarrow> string \<Rightarrow> nat \<Rightarrow> step_ending option \<Rightarrow> attempt_row" where
  "sample_attempt k i n ending = \<lparr>ar_rowid = k, ar_run = 1, ar_step = i, ar_attempt = n,
     ar_ending = ending, ar_outcome = None, ar_values = [], ar_summary = [], ar_session = None,
     ar_started = 0, ar_ended = map_option (\<lambda>_. 5) ending\<rparr>"

definition sample_stop :: stop_row where
  "sample_stop = \<lparr>so_run = 1, so_generation = 1, so_status = Needs_Human, so_last_attempt = 1,
     so_told = True\<rparr>"

text \<open>The database between two attempts, and with the attempt at the test open.\<close>

definition sample_db :: run_db where
  "sample_db = \<lparr>run_rows = [sample_row],
     attempt_rows = [sample_attempt 1 ''plan'' 1 (Some Timed_Out), sample_attempt 2 ''plan'' 2 (Some Clean)],
     stop_rows = [sample_stop]\<rparr>"

lemma sample_row_simps [simp]:
  "rr_id sample_row = 1" "rr_status sample_row = Running" "rr_stop_generation sample_row = 1"
  "rr_restarted_after sample_row = 1" "rr_instance sample_row = 7" "rr_factory sample_row = ''sample''"
  "rr_work_item sample_row = [(''issue'', VInt 3)]"
  by (simp_all add: sample_row_def)

lemma sample_attempt_simps [simp]:
  "ar_rowid (sample_attempt k i n ending) = k" "ar_run (sample_attempt k i n ending) = 1"
  "ar_step (sample_attempt k i n ending) = i" "ar_attempt (sample_attempt k i n ending) = n"
  "ar_ending (sample_attempt k i n ending) = ending"
  "ar_ended (sample_attempt k i n ending) = map_option (\<lambda>_. 5) ending"
  by (simp_all add: sample_attempt_def)

lemma sample_stop_simps [simp]:
  "so_run sample_stop = 1" "so_generation sample_stop = 1" "so_last_attempt sample_stop = 1"
  by (simp_all add: sample_stop_def)

lemma sample_tables [simp]:
  "run_rows sample_db = [sample_row]" "stop_rows sample_db = [sample_stop]"
  "attempt_rows sample_db = [sample_attempt 1 ''plan'' 1 (Some Timed_Out),
     sample_attempt 2 ''plan'' 2 (Some Clean)]"
  by (simp_all add: sample_db_def)

lemma sample_no_open: "no_open sample_db 1"
  by (simp add: no_open_def attempts_of_def)

lemma sample_db_ok: "run_db_ok sample_db"
  by (simp add: run_db_ok_def attempts_ok_def run_ok_def stops_of_def closed_rowid_def attempts_of_def
      max_rowid_def same_step_def STOPS_def)

section \<open>Work items\<close>

lemma sort_key_distinct:
  fixes d :: "(string, 'v) dict"
  assumes "distinct (map fst d)"
  shows "sorted (map fst (sort_key fst d))" "distinct (map fst (sort_key fst d))"
  using assms by (simp_all add: distinct_map)

lemma work_item_key_eq:
  assumes "distinct (map fst v)" "distinct (map fst w)"
  shows "work_item_key v = work_item_key w \<longleftrightarrow> map_of v = map_of w"
proof
  assume "work_item_key v = work_item_key w"
  then have "set v = set w" unfolding work_item_key_def by (metis set_sort)
  with assms show "map_of v = map_of w" by (metis map_of_inject_set)
next
  assume "map_of v = map_of w"
  with assms have "set v = set w" by (metis map_of_inject_set)
  moreover have "inj_on fst (set v)" using assms(1) by (simp add: distinct_map)
  ultimately show "work_item_key v = work_item_key w"
    unfolding work_item_key_def using sort_key_distinct assms
    by (intro map_sorted_distinct_set_unique [of fst]) (auto simp: distinct_map)
qed

text \<open>C24: Two work items are one key exactly when they carry the same values, whatever order these
  came in: the run of a work item is found by what it carries alone.\<close>

theorem work_item_key_is_canonical:
  assumes "distinct (map fst v)" "distinct (map fst w)"
  shows "work_item_key v = work_item_key w \<longleftrightarrow> map_of v = map_of w"
  by (rule work_item_key_eq [OF assms])

theorem work_item_key_is_canonical_witness:
  "work_item_key [(''b'', VInt 1), (''a'', VBool True)] = work_item_key [(''a'', VBool True), (''b'', VInt 1)]"
  using work_item_key_is_canonical [of "[(''b'', VInt 1), (''a'', VBool True)]"
      "[(''a'', VBool True), (''b'', VInt 1)]"]
  by (auto simp: fun_eq_iff)




section \<open>Numbering attempts\<close>

lemma attempts_rows: "run_db_ok db \<Longrightarrow> attempts db i = map step_attempt_of (attempts_of db i)"
  by (auto simp: attempts_def attempts_after_def attempts_of_def run_db_ok_def attempts_ok_def
      intro!: arg_cong [of _ _ "map step_attempt_of"] filter_cong)

lemma step_attempt_of_simps [simp]:
  "at_step (step_attempt_of a) = ar_step a" "at_attempt (step_attempt_of a) = ar_attempt a"
  "at_ending (step_attempt_of a) = ar_ending a" "at_outcome (step_attempt_of a) = ar_outcome a"
  "at_values (step_attempt_of a) = ar_values a" "at_summary (step_attempt_of a) = ar_summary a"
  "at_session (step_attempt_of a) = ar_session a" "at_started (step_attempt_of a) = ar_started a"
  "at_ended (step_attempt_of a) = ar_ended a"
  by (simp_all add: step_attempt_of_def)

definition attempt_numbers :: "run_db \<Rightarrow> uuid \<Rightarrow> string \<Rightarrow> nat list" where
  "attempt_numbers db i j = map at_attempt (filter (\<lambda>a. at_step a = j) (attempts db i))"

text \<open>The attempts of a run at a step are numbered 1, 2, 3 and so on without a gap, and beginning one
  more for a run that exists always succeeds with the next number: its key is never taken.\<close>

theorem attempts_are_numbered:
  assumes "run_db_ok db" "run db i \<noteq> None"
  shows "attempt_numbers db i j = [1..<Suc (length (attempt_numbers db i j))] \<and>
    (\<exists>db' r. begin_attempt now db i j Running = Inr (db', r) \<and>
       attempt_numbers db' i j = attempt_numbers db i j @ [Suc (length (attempt_numbers db i j))])"
proof -
  obtain r where r: "row_of db i = Some r" using assms(2) by (auto simp: run_def)
  let ?db = "begun_db now i j Running db"
  have ok: "run_db_ok ?db"
    using assms(1) r find_Some_key [of rr_id i "run_rows db"] by (intro begun_db_keeps) auto
  have numbers: "attempt_numbers d i j = map ar_attempt (filter (\<lambda>a. ar_run a = i \<and> ar_step a = j) (attempt_rows d))"
    if "run_db_ok d" for d
    using that by (simp add: attempt_numbers_def attempts_rows attempts_of_def filter_map comp_def conj_commute)
  have "attempt_numbers db i j = [1..<Suc (length (attempt_numbers db i j))]"
    using assms(1) numbered_after_upt [of "[]" "attempt_rows db" i j] numbers [OF assms(1)]
    by (simp add: run_db_ok_def attempts_ok_def del: upt_Suc)
  moreover have "attempt_numbers ?db i j = attempt_numbers db i j @ [Suc (length (attempt_numbers db i j))]"
    using numbers [OF assms(1)] by (simp add: numbers [OF ok] begun_db_simps new_attempt_def)
  ultimately show ?thesis using begin_attempt_eq [OF assms(1) r] by blast
qed

theorem attempts_are_numbered_witness:
  "attempt_numbers sample_db 1 ''plan'' = [1, 2] \<and>
   (\<exists>db' r. begin_attempt 9 sample_db 1 ''plan'' Running = Inr (db', r) \<and>
     attempt_numbers db' 1 ''plan'' = [1, 2, 3])"
proof -
  have "attempt_numbers sample_db 1 ''plan'' = [1, 2]"
    by (simp add: attempt_numbers_def attempts_rows [OF sample_db_ok] attempts_of_def)
  with attempts_are_numbered [OF sample_db_ok, of 1 "''plan''" 9] show ?thesis
    by (simp add: run_def numeral_3_eq_3)
qed

text \<open>A call an instance did not take is no attempt: dropping the attempt that was begun for it leaves
  the attempts and the stops as they were, the run queued at its step, and the number of the next
  attempt the same.\<close>

theorem drop_undoes_begin:
  assumes "run_db_ok db" "no_open db i"
    "begin_attempt now db i j Running = Inr (db1, r1)" "drop_attempt later db1 i = Inr (db2, r2)"
  shows "attempt_rows db2 = attempt_rows db \<and> stop_rows db2 = stop_rows db \<and>
    run db2 i = Some r2 \<and> fr_status r2 = Queued \<and> fr_step r2 = Some j \<and> counted_attempts db2 i = counted_attempts db i"
proof -
  obtain r where r: "row_of db i = Some r"
    using assms(3) by (cases "row_of db i") (simp_all add: begin_attempt_missing)
  with assms(1,3) have db1: "db1 = begun_db now i j Running db" by (simp add: begin_attempt_eq)
  with assms(4) r have db2: "db2 = dropped_db later i db1"
    and r2: "r2 = factory_run_of ((begun_row now j Running r)\<lparr>rr_status := Queued, rr_updated := later\<rparr>)"
    by (auto simp: drop_attempt_eq begun_db_simps)
  have "row_delete (open_attempt i) (attempt_rows db) = attempt_rows db"
    using assms(2) by (auto simp: row_delete_def no_open_def attempts_of_def open_attempt_def filter_id_conv)
  then have rows: "attempt_rows db2 = attempt_rows db"
    by (simp add: db2 db1 dropped_db_simps begun_db_simps row_delete_def open_attempt_def)
  moreover have "row_of db2 i = Some ((begun_row now j Running r)\<lparr>rr_status := Queued, rr_updated := later\<rparr>)"
    using r by (simp add: db2 db1 dropped_db_simps begun_db_simps)
  ultimately show ?thesis
    by (simp add: db2 db1 dropped_db_simps begun_db_simps run_def r2 counted_attempts_def attempts_after_def
        r rows [unfolded db2 db1])
qed

theorem drop_undoes_begin_witness:
  "\<exists>db1 r1 db2 r2. begin_attempt 9 sample_db 1 ''test'' Running = Inr (db1, r1) \<and>
     drop_attempt 11 db1 1 = Inr (db2, r2) \<and> attempt_rows db2 = attempt_rows sample_db"
proof -
  obtain db1 r1 where 1: "begin_attempt 9 sample_db 1 ''test'' Running = Inr (db1, r1)"
    using begin_attempt_eq [OF sample_db_ok, of 1 sample_row] by simp
  then have "row_of db1 1 \<noteq> None"
    using begin_attempt_eq [OF sample_db_ok, of 1 sample_row] by (auto simp: begun_db_simps)
  then obtain db2 r2 where "drop_attempt 11 db1 1 = Inr (db2, r2)"
    by (auto simp: drop_attempt_eq)
  with 1 drop_undoes_begin [OF sample_db_ok sample_no_open 1] show ?thesis by blast
qed


lemma counted_attempts_rows:
  assumes "row_of db i = Some r"
  shows "counted_attempts db i =
    map step_attempt_of (filter (\<lambda>a. rr_restarted_after r < ar_rowid a) (attempts_of db i))"
  using assms by (simp add: counted_attempts_def attempts_after_def attempts_of_def conj_commute)

lemma begun_ended_counted:
  assumes "run_db_ok db" "row_of db i = Some r" "no_open db i"
  shows "counted_attempts (end_attempt later (begun_db now i j status db) i result) i =
    counted_attempts db i @ [step_attempt_of (ended_row later result (new_attempt now db i j))]"
proof -
  have last: "rr_restarted_after r < Suc (max_rowid (attempt_rows db))"
  proof -
    from row_ok [OF assms(1,2)] have "rr_restarted_after r \<le> closed_rowid db i" by (auto simp: run_ok_def)
    also have "\<dots> \<le> max_rowid (attempt_rows db)"
      unfolding closed_rowid_def by (rule max_rowid_mono) (auto simp: attempts_of_def)
    finally show ?thesis by simp
  qed
  have row: "row_of (end_attempt later (begun_db now i j status db) i result) i = Some (begun_row now j status r)"
    using assms(2) by (simp add: end_attempt_rows begun_db_simps)
  have same: "map (\<lambda>a. if open_attempt i a then ended_row later result a else a) (attempts_of db i) = attempts_of db i"
    using assms(3) by (intro map_idI) (auto simp: no_open_def open_attempt_def attempts_of_def)
  show ?thesis
    unfolding counted_attempts_rows [OF assms(2)] counted_attempts_rows [OF row]
    using same last by (simp add: end_attempt_attempts_of begun_db_simps open_attempt_def)
qed

text \<open>A restart counts afresh: right after it the run has no attempt that counts toward its retries
  and send-backs, and an attempt that begins and ends later is the only one that counts.\<close>

theorem restart_counts_afresh:
  assumes "run_db_ok db" "no_open db i" "restart_run now db i (Some j) = Inr (db', r)"
  shows "counted_attempts db' i = [] \<and>
    (\<forall>db1 r1. begin_attempt later db' i j Running = Inr (db1, r1) \<longrightarrow>
       map at_ending (counted_attempts (end_attempt later db1 i result) i) = [Some (sr_ending result)])"
proof -
  let ?k = "max_rowid (attempts_of db i)"
  obtain r0 where r0: "row_of db i = Some r0"
    and db': "db' = set_run i (restarted_row now (Some j) ?k) db"
    using assms(3) by (auto simp: restart_run_eq split: option.splits)
  have ok: "run_db_ok db'" by (rule restart_run_keeps [OF assms])
  have row: "row_of db' i = Some (restarted_row now (Some j) ?k r0)"
    using r0 by (simp add: db' row_of_set_run)
  have open': "no_open db' i" using assms(2) by (simp add: db' of_set_run)
  have "counted_attempts db' i = []"
    unfolding counted_attempts_rows [OF row]
    using max_rowid_ge by (auto simp: db' of_set_run filter_empty_conv linorder_not_less)
  with begun_ended_counted [OF ok row open'] begin_attempt_eq [OF ok row] show ?thesis by simp
qed

theorem restart_counts_afresh_witness:
  "\<exists>db' r. restart_run 9 sample_db 1 (Some ''plan'') = Inr (db', r) \<and>
     counted_attempts sample_db 1 \<noteq> [] \<and> counted_attempts db' 1 = []"
proof -
  obtain db' r where 1: "restart_run 9 sample_db 1 (Some ''plan'') = Inr (db', r)"
    by (simp add: restart_run_eq)
  have "counted_attempts sample_db 1 \<noteq> []"
    by (simp add: counted_attempts_def attempts_after_def)
  with 1 restart_counts_afresh [OF sample_db_ok sample_no_open 1] show ?thesis by blast
qed

section \<open>Stops\<close>

text \<open>C26: Each move of a run to done, cancelled or needs_human succeeds and records exactly one stop more,
  under the next generation and not yet told; any other move records none.\<close>

theorem each_stop_is_recorded_once:
  assumes "run_db_ok db" "run db i \<noteq> None"
  shows "\<exists>db' r. move_run now db i status step_id wakes_at ended_call = Inr (db', r) \<and> fr_status r = status \<and>
    (if status \<in> set STOPS
     then \<exists>s. stops_of db' i = stops_of db i @ [s] \<and> so_status s = status \<and> \<not> so_told s \<and>
            so_generation s = Suc (length (stops_of db i)) \<and> stop_generation db' i = so_generation s
     else stop_rows db' = stop_rows db \<and> stop_generation db' i = stop_generation db i)"
proof -
  obtain r where r: "row_of db i = Some r" using assms(2) by (auto simp: run_def)
  from row_ok [OF assms(1) r] have id: "rr_id r = i"
    and gens: "map so_generation (stops_of db i) = [1..<Suc (rr_stop_generation r)]"
    by (auto simp: run_ok_def)
  from gens have length: "length (stops_of db i) = rr_stop_generation r"
    by (metis diff_Suc_1 length_map length_upt)
  show ?thesis
    using r id by (simp add: move_run_ok_eq [OF assms(1) r] moved_db_simps length new_stop_def
        stop_generation_def) (simp add: moved_db_def)
qed

theorem each_stop_is_recorded_once_witness:
  "\<exists>db' r. move_run 9 sample_db 1 Done None None False = Inr (db', r) \<and> length (stops_of db' 1) = 2"
proof -
  have "stops_of sample_db 1 = [sample_stop]" by (simp add: stops_of_def)
  with each_stop_is_recorded_once [OF sample_db_ok, of 1 9 Done None None False] show ?thesis
    by (auto simp: run_def)
qed

text \<open>Lists that a bound or a threshold splits.\<close>

lemma filter_take:
  "(\<And>j. j < length xs \<Longrightarrow> P (xs ! j) \<longleftrightarrow> j < k) \<Longrightarrow> filter P xs = take k xs"
proof (induction xs arbitrary: k)
  case (Cons x xs)
  have "P x \<longleftrightarrow> 0 < k" using Cons.prems [of 0] by simp
  moreover have "filter P xs = take (k - 1) xs"
    using Cons.prems [of "Suc _"] by (intro Cons.IH) auto
  ultimately show ?case by (cases k) auto
qed simp

lemma find_filter: "find (\<lambda>x. P x \<and> Q x) xs = find Q (filter P xs)"
  by (induction xs) auto

lemma foldr_max_sorted: "sorted xs \<Longrightarrow> foldr max xs (0::nat) = (if xs = [] then 0 else last xs)"
proof (induction xs)
  case (Cons x xs)
  then have "xs \<noteq> [] \<Longrightarrow> x \<le> last xs" by simp
  with Cons show ?case by (auto simp: max_def)
qed simp

lemma filter_interval:
  "sorted_wrt (\<lambda>a b. f a < (f b :: nat)) xs \<Longrightarrow> lo \<le> mid \<Longrightarrow> mid \<le> hi \<Longrightarrow>
     filter (\<lambda>x. lo < f x \<and> f x \<le> mid) xs @ filter (\<lambda>x. mid < f x \<and> f x \<le> hi) xs =
     filter (\<lambda>x. lo < f x \<and> f x \<le> hi) xs"
proof (induction xs)
  case (Cons x xs)
  show ?case
  proof (cases "mid < f x")
    case True
    then have "filter (\<lambda>x. lo < f x \<and> f x \<le> mid) xs = []"
      using Cons.prems(1) by (fastforce simp: filter_empty_conv)
    with True Cons show ?thesis by auto
  next
    case False
    with Cons show ?thesis by auto
  qed
qed simp

lemma nth_generation:
  assumes "run_db_ok db" "row_of db i = Some r"
  shows "length (stops_of db i) = rr_stop_generation r"
    "j < rr_stop_generation r \<Longrightarrow> so_generation (stops_of db i ! j) = Suc j"
    "sorted (map so_last_attempt (stops_of db i))"
proof -
  from row_ok [OF assms] have gens: "map so_generation (stops_of db i) = [1..<Suc (rr_stop_generation r)]"
    and "sorted (map so_last_attempt (stops_of db i))"
    by (auto simp: run_ok_def)
  then show "sorted (map so_last_attempt (stops_of db i))" by simp
  from gens show len: "length (stops_of db i) = rr_stop_generation r"
    by (metis diff_Suc_1 length_map length_upt)
  show "so_generation (stops_of db i ! j) = Suc j" if "j < rr_stop_generation r"
    using that arg_cong [OF gens, of "\<lambda>xs. xs ! j"] len by (simp del: upt_Suc)
qed

definition told_through :: "run_db \<Rightarrow> uuid \<Rightarrow> nat \<Rightarrow> nat" where
  "told_through db i k = foldr max (map so_last_attempt (take k (stops_of db i))) 0"

lemma earlier_stop_told:
  assumes "run_db_ok db" "row_of db i = Some r"
  shows "earlier_stop_attempt db i (Suc k) = told_through db i k"
proof -
  have "filter (\<lambda>s. so_generation s < Suc k) (stops_of db i) = take k (stops_of db i)"
    using nth_generation [OF assms] by (intro filter_take) simp
  then have "filter (\<lambda>s. so_run s = i \<and> so_generation s < Suc k) (stop_rows db) = take k (stops_of db i)"
    by (simp add: stops_of_def)
  then show ?thesis by (simp add: earlier_stop_attempt_def told_through_def foldr_map comp_def)
qed

lemma run_stop_nth:
  assumes "run_db_ok db" "row_of db i = Some r" "k < rr_stop_generation r"
  shows "run_stop db i (Suc k) = Inr \<lparr>rs_run = i, rs_factory = rr_factory r, rs_work_item = rr_work_item r,
     rs_status = so_status (stops_of db i ! k), rs_generation = Suc k,
     rs_attempts = attempts_after db i (told_through db i k) (Some (told_through db i (Suc k)))\<rparr>"
proof -
  note gen = nth_generation [OF assms(1,2)]
  have found: "find (\<lambda>s. so_run s = i \<and> so_generation s = Suc k) (stop_rows db) = Some (stops_of db i ! k)"
    unfolding find_filter stops_of_def [symmetric] find_Some_iff using gen assms(3) by (intro exI [of _ k]) auto
  have take: "take (Suc k) (stops_of db i) = take k (stops_of db i) @ [stops_of db i ! k]"
    using gen(1) assms(3) by (simp add: take_Suc_conv_app_nth)
  moreover have "sorted (map so_last_attempt (take (Suc k) (stops_of db i)))"
    using sorted_wrt_take [OF gen(3), of "Suc k"] by (simp add: take_map)
  ultimately have "told_through db i (Suc k) = so_last_attempt (stops_of db i ! k)"
    by (simp add: told_through_def foldr_max_sorted del: foldr_append foldr_map)
  then show ?thesis
    by (simp add: run_stop_def found assms(2) earlier_stop_told [OF assms(1,2)])
qed

lemma told_through_mono:
  assumes "run_db_ok db" "row_of db i = Some r"
  shows "told_through db i k \<le> told_through db i (Suc k)"
proof (cases "k < rr_stop_generation r")
  case True
  with nth_generation(1) [OF assms] have "take (Suc k) (stops_of db i) = take k (stops_of db i) @ [stops_of db i ! k]"
    by (simp add: take_Suc_conv_app_nth)
  moreover have "foldr max xs (0::nat) \<le> foldr max (xs @ [x]) 0" for xs x
    by (induction xs) auto
  ultimately show ?thesis by (simp add: told_through_def del: foldr_append)
qed (use nth_generation(1) [OF assms] in \<open>simp add: told_through_def\<close>)

definition stop_attempts :: "run_db \<Rightarrow> uuid \<Rightarrow> nat \<Rightarrow> step_attempt list" where
  "stop_attempts db i k = (case run_stop db i k of Inl _ \<Rightarrow> [] | Inr s \<Rightarrow> rs_attempts s)"

text \<open>C27: The stops of a run tell each of its attempts once and in order: one after another, the stops of
  generation one up to any stop it reached tell exactly the attempts that had begun by that stop.\<close>

theorem stops_tell_each_attempt_once:
  assumes "run_db_ok db" "run db i \<noteq> None" "k \<le> stop_generation db i"
  shows "concat (map (stop_attempts db i) [1..<Suc k]) = attempts_after db i 0 (Some (told_through db i k))"
proof -
  obtain r where r: "row_of db i = Some r" using assms(2) by (auto simp: run_def)
  then have gen: "stop_generation db i = rr_stop_generation r" by (simp add: stop_generation_def)
  have sorted: "sorted_wrt (\<lambda>a b. ar_rowid a < ar_rowid b) (attempts_of db i)"
    using assms(1) by (simp add: run_db_ok_def attempts_ok_def attempts_of_def sorted_wrt_filter)
  have after: "attempts_after db i lo (Some hi) =
      map step_attempt_of (filter (\<lambda>a. lo < ar_rowid a \<and> ar_rowid a \<le> hi) (attempts_of db i))" for lo hi
    by (simp add: attempts_after_def attempts_of_def conj_commute)
  show ?thesis using assms(3)
  proof (induction k)
    case 0
    have "filter (\<lambda>a. 0 < ar_rowid a \<and> ar_rowid a \<le> 0) (attempts_of db i) = []"
      by (auto simp: filter_empty_conv)
    then show ?case by (simp add: after told_through_def)
  next
    case (Suc k)
    then have "stop_attempts db i (Suc k) =
        attempts_after db i (told_through db i k) (Some (told_through db i (Suc k)))"
      using run_stop_nth [OF assms(1) r, of k] gen by (simp add: stop_attempts_def)
    moreover have "concat (map (stop_attempts db i) [1..<Suc (Suc k)]) =
        concat (map (stop_attempts db i) [1..<Suc k]) @ stop_attempts db i (Suc k)"
      by simp
    ultimately show ?case
      using Suc filter_interval [OF sorted, of 0 "told_through db i k" "told_through db i (Suc k)"]
        told_through_mono [OF assms(1) r, of k]
      by (simp add: after del: upt_Suc flip: map_append)
  qed
qed

theorem stops_tell_each_attempt_once_witness:
  "concat (map (stop_attempts sample_db 1) [1..<Suc 1]) = attempts_after sample_db 1 0 (Some (told_through sample_db 1 1))
   \<and> length (attempts_after sample_db 1 0 (Some (told_through sample_db 1 1))) = 1"
proof -
  have "length (attempts_after sample_db 1 0 (Some (told_through sample_db 1 1))) = 1"
    by (simp add: attempts_after_def told_through_def stops_of_def)
  with stops_tell_each_attempt_once [OF sample_db_ok, of 1 1] show ?thesis
    by (simp add: run_def stop_generation_def)
qed

section \<open>Reports\<close>

text \<open>C28: A report of an earlier stop never counts as the report of a later one: once a run stops for a human
  again, answering the call of any stop before leaves it among the runs whose report is still owed.\<close>

theorem stale_report_marks_nothing:
  assumes "run_db_ok db" "move_run now db i Needs_Human step_id None False = Inr (db', r)"
    "generation \<le> stop_generation db i"
  shows "r \<in> set (unreported_runs (mark_reported db' i generation))"
proof -
  obtain r0 where r0: "row_of db i = Some r0"
    using assms(2) by (cases "row_of db i") (simp_all add: move_run_missing)
  let ?row = "moved_row now Needs_Human step_id None False r0"
  from assms(2) move_run_ok_eq [OF assms(1) r0]
  have db': "db' = moved_db now i Needs_Human step_id None False r0 db" and r: "r = factory_run_of ?row"
    by auto
  have "row_of db' i = Some ?row" using r0 by (simp add: db' moved_db_simps)
  then have "?row \<in> set (run_rows db')" by (metis find_Some_key)
  moreover have "rr_stop_generation ?row \<noteq> generation"
    using assms(3) r0 by (simp add: stop_generation_def)
  ultimately have "?row \<in> set (run_rows (mark_reported db' i generation))"
    by (auto simp: mark_reported_def set_row_update)
  then have "?row \<in> set (filter (\<lambda>r. rr_status r = Needs_Human \<and> \<not> rr_reported r)
      (run_rows (mark_reported db' i generation)))"
    by (simp add: moved_row_def)
  then show ?thesis unfolding unreported_runs_def r by (simp del: set_filter)
qed

theorem stale_report_marks_nothing_witness:
  "\<exists>db' r. move_run 9 sample_db 1 Needs_Human (Some ''test'') None False = Inr (db', r) \<and>
     r \<in> set (unreported_runs (mark_reported db' 1 1))"
proof -
  obtain db' r where 1: "move_run 9 sample_db 1 Needs_Human (Some ''test'') None False = Inr (db', r)"
    using move_run_ok_eq [OF sample_db_ok, of 1 sample_row] by simp
  with stale_report_marks_nothing [OF sample_db_ok 1, of 1] show ?thesis
    by (simp add: stop_generation_def)
qed

end
