(* ===== verification/Operations.thy ===== *)
theory Operations
  imports Hub_Tables
begin

text \<open>
  The lifecycle operations of the hub's registry (\<open>HubRegistry\<close> in src/src/kinby/hub/registry.py):
  opening an operation or finding the unfinished one, its steps, its outcome, and the logins whose
  state an outcome sets.
\<close>

section \<open>Opening\<close>

definition insert_operation ::
  "operation_row \<Rightarrow> hub_db \<Rightarrow> hub_error + hub_db" where
  "insert_operation r db =
     (if op_id r \<in> op_id ` set (operation_rows db) \<or>
         (case op_instance r of None \<Rightarrow> False | Some i \<Rightarrow> i \<notin> ir_id ` set (instance_rows db))
      then Inl Hub_Integrity_Error
      else Inr (db\<lparr>operation_rows := operation_rows db @ [r]\<rparr>))"

definition new_operation ::
  "uuid \<Rightarrow> uuid option \<Rightarrow> operation_kind \<Rightarrow> string \<Rightarrow> uuid option \<Rightarrow> operation_row" where
  "new_operation operation inst kind detail requester =
     \<lparr>op_id = operation, op_instance = inst, op_kind = kind, op_state = Op_Pending,
      op_detail = detail, op_login = None, op_requester = requester\<rparr>"

definition record_operation ::
  "hub_db \<Rightarrow> uuid \<Rightarrow> uuid option \<Rightarrow> operation_kind \<Rightarrow> string \<Rightarrow> uuid option \<Rightarrow> hub_error + hub_db" where
  "record_operation db operation inst kind detail requester =
     insert_operation (new_operation operation inst kind detail requester) db"

text \<open>Open the row's operation, unless one that \<open>same\<close> selects is unfinished: then its id.\<close>

definition open_or_find ::
  "(operation_row \<Rightarrow> bool) \<Rightarrow> operation_row \<Rightarrow> hub_db \<Rightarrow> hub_error + hub_db \<times> uuid" where
  "open_or_find same r db =
     (case find (\<lambda>x. same x \<and> unfinished_state (op_state x)) (operation_rows db) of
        Some x \<Rightarrow> Inr (db, op_id x)
      | None \<Rightarrow> (case insert_operation r db of Inl e \<Rightarrow> Inl e | Inr db' \<Rightarrow> Inr (db', op_id r)))"

definition begin_preparation ::
  "hub_db \<Rightarrow> uuid \<Rightarrow> string \<Rightarrow> uuid option \<Rightarrow> hub_error + hub_db \<times> uuid" where
  "begin_preparation db operation detail requester =
     open_or_find (\<lambda>x. op_kind x = Prepare_Op)
       (new_operation operation None Prepare_Op detail requester) db"

definition begin_operation ::
  "hub_db \<Rightarrow> uuid \<Rightarrow> uuid \<Rightarrow> operation_kind \<Rightarrow> string \<Rightarrow> uuid option \<Rightarrow> hub_error + hub_db \<times> uuid" where
  "begin_operation db operation inst kind detail requester =
     open_or_find (\<lambda>x. op_instance x = Some inst \<and> op_kind x = kind)
       (new_operation operation (Some inst) kind detail requester) db"

definition login_of :: "uuid \<Rightarrow> string option \<Rightarrow> operation_row \<Rightarrow> bool" where
  "login_of inst login x \<longleftrightarrow> op_instance x = Some inst \<and> op_kind x = Login_Op \<and>
     (login = None \<or> op_login x = login)"

definition begin_login ::
  "hub_db \<Rightarrow> uuid \<Rightarrow> uuid \<Rightarrow> string \<Rightarrow> string \<Rightarrow> hub_error + hub_db \<times> uuid" where
  "begin_login db operation inst login detail =
     open_or_find (login_of inst (Some login))
       ((new_operation operation (Some inst) Login_Op detail None)\<lparr>op_login := Some login\<rparr>) db"

definition running_login :: "hub_db \<Rightarrow> uuid \<Rightarrow> string option \<Rightarrow> (uuid \<times> string option) option" where
  "running_login db inst login =
     map_option (\<lambda>x. (op_id x, op_login x))
       (find (\<lambda>x. login_of inst login x \<and> unfinished_state (op_state x)) (operation_rows db))"

section \<open>Steps\<close>

definition close_running_step ::
  "uuid \<Rightarrow> operation_state \<Rightarrow> string option \<Rightarrow> hub_db \<Rightarrow> hub_db" where
  "close_running_step operation state detail db = db\<lparr>operation_step_rows :=
     row_update (\<lambda>s. os_operation s = operation \<and> os_state s = Op_Running)
       (\<lambda>s. s\<lparr>os_state := state,
              os_detail := (case detail of None \<Rightarrow> os_detail s | Some d \<Rightarrow> d)\<rparr>)
       (operation_step_rows db)\<rparr>"

definition set_operation :: "uuid \<Rightarrow> operation_state \<Rightarrow> string \<Rightarrow> hub_db \<Rightarrow> hub_db" where
  "set_operation operation state detail db = db\<lparr>operation_rows :=
     row_update (\<lambda>x. op_id x = operation) (\<lambda>x. x\<lparr>op_state := state, op_detail := detail\<rparr>)
       (operation_rows db)\<rparr>"

definition advance_operation :: "hub_db \<Rightarrow> uuid \<Rightarrow> string \<Rightarrow> string \<Rightarrow> hub_error + hub_db" where
  "advance_operation db operation step_name detail =
     (let db1 = close_running_step operation Op_Succeeded None db;
          own = filter (\<lambda>s. os_operation s = operation) (operation_step_rows db1);
          row = \<lparr>os_operation = operation, os_position = length own, os_name = step_name,
                 os_state = Op_Running, os_detail = detail, os_prompt = None\<rparr>
      in if operation \<notin> op_id ` set (operation_rows db1) \<or> step_name \<in> os_name ` set own
         then Inl Hub_Integrity_Error
         else Inr (set_operation operation Op_Running detail
                (db1\<lparr>operation_step_rows := operation_step_rows db1 @ [row]\<rparr>)))"

definition succeed_step :: "hub_db \<Rightarrow> uuid \<Rightarrow> string \<Rightarrow> hub_db" where
  "succeed_step db operation detail = close_running_step operation Op_Succeeded (Some detail) db"

definition record_prompt :: "hub_db \<Rightarrow> uuid \<Rightarrow> login_prompt \<Rightarrow> hub_db" where
  "record_prompt db operation prompt = db\<lparr>operation_step_rows :=
     row_update (\<lambda>s. os_operation s = operation \<and> os_state s = Op_Running)
       (\<lambda>s. s\<lparr>os_prompt := Some prompt\<rparr>) (operation_step_rows db)\<rparr>"

section \<open>Outcomes and logins\<close>

text \<open>
  The login an outcome sets. A login that is signed in changes only to signed in again.
\<close>

definition settle_login :: "login_row \<Rightarrow> hub_db \<Rightarrow> hub_db" where
  "settle_login r db = db\<lparr>login_rows :=
     row_upsert (\<lambda>l. (lg_instance l, lg_login l))
       (\<lambda>old new. if lg_state old \<noteq> Signed_In \<or> lg_state new = Signed_In
                  then old\<lparr>lg_state := lg_state new, lg_changed := lg_changed new\<rparr> else old)
       r (login_rows db)\<rparr>"

definition finish_operation ::
  "moment \<Rightarrow> hub_db \<Rightarrow> uuid \<Rightarrow> operation_state \<Rightarrow> string \<Rightarrow> hub_error + hub_db" where
  "finish_operation now db operation state detail =
     (let login = (if state = Op_Succeeded then Signed_In else Login_Failed);
          db' = set_operation operation state detail
                  (close_running_step operation state (Some detail) db)
      in case find (\<lambda>x. op_id x = operation \<and> op_kind x = Login_Op) (operation_rows db') of
           None \<Rightarrow> Inr db'
         | Some x \<Rightarrow>
             (case (op_instance x, op_login x) of
                (Some i, Some l) \<Rightarrow>
                  Inr (settle_login \<lparr>lg_instance = i, lg_login = l, lg_state = login,
                                     lg_changed = now\<rparr> db')
              | _ \<Rightarrow> Inl Hub_Integrity_Error))"

fun finish_all ::
  "moment \<Rightarrow> string \<Rightarrow> uuid list \<Rightarrow> hub_db \<Rightarrow> hub_error + hub_db" where
  "finish_all now detail [] db = Inr db"
| "finish_all now detail (i # is) db =
     (case finish_operation now db i Op_Failed detail of
        Inl e \<Rightarrow> Inl e
      | Inr db' \<Rightarrow> finish_all now detail is db')"

text \<open>Fail the operations the previous process left unfinished.\<close>

definition fail_interrupted_operations :: "moment \<Rightarrow> hub_db \<Rightarrow> string \<Rightarrow> hub_error + hub_db" where
  "fail_interrupted_operations now db detail =
     finish_all now detail
       (map op_id (filter (\<lambda>x. unfinished_state (op_state x)) (operation_rows db))) db"

definition seed_logins :: "moment \<Rightarrow> hub_db \<Rightarrow> uuid \<Rightarrow> string list \<Rightarrow> hub_error + hub_db" where
  "seed_logins now db inst logins =
     (if logins \<noteq> [] \<and> inst \<notin> ir_id ` set (instance_rows db) then Inl Hub_Integrity_Error
      else Inr (db\<lparr>login_rows :=
        fold (\<lambda>l. row_replace (\<lambda>x. (lg_instance x, lg_login x))
               \<lparr>lg_instance = inst, lg_login = l, lg_state = Login_Pending, lg_changed = now\<rparr>)
          logins (login_rows db)\<rparr>))"

definition login_states :: "hub_db \<Rightarrow> uuid \<Rightarrow> (string, login_state) dict" where
  "login_states db inst =
     map (\<lambda>l. (lg_login l, lg_state l)) (filter (\<lambda>l. lg_instance l = inst) (login_rows db))"

section \<open>Reading\<close>

definition active_operation :: "hub_db \<Rightarrow> uuid \<Rightarrow> uuid option" where
  "active_operation db inst =
     map_option op_id (find (\<lambda>x. op_instance x = Some inst \<and> op_kind x \<noteq> Login_Op \<and>
       unfinished_state (op_state x)) (operation_rows db))"

definition operation :: "hub_db \<Rightarrow> uuid \<Rightarrow> operation_result option" where
  "operation db i =
     map_option (\<lambda>x. \<lparr>og_id = op_id x, og_instance = op_instance x, og_kind = op_kind x,
         og_state = op_state x, og_detail = op_detail x,
         og_steps = map (\<lambda>s. \<lparr>ps_name = os_name s, ps_state = os_state s,
             ps_detail = os_detail s, ps_prompt = os_prompt s\<rparr>)
           (sort_key os_position
             (filter (\<lambda>s. os_operation s = i) (operation_step_rows db))),
         og_requester = op_requester x\<rparr>)
       (find (\<lambda>x. op_id x = i) (operation_rows db))"

text \<open>The latest operation that changed the instance's container.\<close>

definition last_operation :: "hub_db \<Rightarrow> uuid \<Rightarrow> operation_result option" where
  "last_operation db inst =
     (case find (\<lambda>x. op_instance x = Some inst \<and> op_kind x \<notin> {Secrets_Op, Login_Op} \<and>
              (op_kind x \<in> {Remove_Op, Adopt_Op} \<or> op_state x = Op_Succeeded \<or>
               (\<exists>s \<in> set (operation_step_rows db). os_operation s = op_id x)))
            (rev (operation_rows db)) of
        None \<Rightarrow> None
      | Some x \<Rightarrow> operation db (op_id x))"

definition preparing_images :: "hub_db \<Rightarrow> bool" where
  "preparing_images db \<longleftrightarrow>
     (\<exists>x \<in> set (operation_rows db). op_kind x \<in> {Create_Op, Update_Op, Prepare_Op} \<and>
        unfinished_state (op_state x))"

end
