(* ===== verification/Instances.thy ===== *)
theory Instances
  imports Operations
begin

text \<open>
  The instances of the hub's registry (\<open>HubRegistry\<close> in src/src/kinby/hub/registry.py): creating
  and adopting one, the image it runs, the storage it owns, its removal and deletion, and the
  records the hub reads back.

  \<open>Path.resolve\<close> reads the file system's links, so it is a parameter: the components of the path
  a bind's source resolves to.
\<close>

section \<open>Records\<close>

definition managed_instance_of :: "hub_db \<Rightarrow> instance_row \<Rightarrow> managed_instance" where
  "managed_instance_of db r = \<lparr>mi_id = ir_id r, mi_path = ir_path r,
     mi_manifest_id = ir_manifest_id r, mi_persona = ir_persona r,
     mi_requested_revision = ir_requested_revision r, mi_source_revision = ir_source_revision r,
     mi_image = ir_image r, mi_intended = ir_intended r, mi_runtime_id = ir_runtime_id r,
     mi_prepared = ir_prepared r,
     mi_storage = map (\<lambda>t. \<lparr>sg_kind = tr_kind t, sg_source = tr_source t,
         sg_destination = tr_destination t, sg_writable = tr_writable t\<rparr>)
       (sort_key tr_destination (filter (\<lambda>t. tr_instance t = ir_id r) (storage_rows db))),
     mi_avatar = (case ir_avatar r of None \<Rightarrow> DEFAULT_AVATAR | Some a \<Rightarrow> a),
     mi_factory = map_option mr_member (find (\<lambda>m. mr_instance m = ir_id r) (member_rows db)),
     mi_home = (meta_home db = Some (ir_id r))\<rparr>"

definition instances_where :: "(managed_instance \<Rightarrow> bool) \<Rightarrow> hub_db \<Rightarrow> managed_instance list" where
  "instances_where p db = filter p (map (managed_instance_of db) (instance_rows db))"

definition instance_record :: "hub_db \<Rightarrow> uuid \<Rightarrow> managed_instance option" where
  "instance_record db i =
     (case instances_where (\<lambda>m. mi_id m = i) db of [] \<Rightarrow> None | m # _ \<Rightarrow> Some m)"

definition managed_instances :: "hub_db \<Rightarrow> managed_instance list" where
  "managed_instances db = instances_where (\<lambda>m. mi_intended m \<noteq> Deleted) db"

definition factory_members :: "hub_db \<Rightarrow> string \<Rightarrow> managed_instance list" where
  "factory_members db factory = instances_where (\<lambda>m.
     (case mi_factory m of None \<Rightarrow> False | Some fm \<Rightarrow> fm_factory fm = factory) \<and>
     mi_intended m \<noteq> Deleted) db"

definition listed_instances :: "hub_db \<Rightarrow> bool \<Rightarrow> managed_instance list" where
  "listed_instances db removed =
     (let states = (if removed then [Removed] else [Stopped, Intended_Running])
      in instances_where (\<lambda>m. mi_prepared m \<and> mi_intended m \<in> set states) db)"

section \<open>Storage\<close>

type_synonym resolver = "string \<Rightarrow> string list"

fun proper_prefix :: "string list \<Rightarrow> string list \<Rightarrow> bool" where
  "proper_prefix [] [] = False"
| "proper_prefix [] (y # ys) = True"
| "proper_prefix (x # xs) [] = False"
| "proper_prefix (x # xs) (y # ys) = (x = y \<and> proper_prefix xs ys)"

definition binds_overlap :: "resolver \<Rightarrow> string \<Rightarrow> string \<Rightarrow> bool" where
  "binds_overlap resolve first second =
     (let a = resolve first; b = resolve second
      in a = b \<or> proper_prefix a b \<or> proper_prefix b a)"

definition same_storage :: "resolver \<Rightarrow> storage_item \<Rightarrow> storage_row \<Rightarrow> bool" where
  "same_storage resolve item row \<longleftrightarrow>
     (sg_kind item = Volume \<and> tr_kind row = Volume \<and> sg_source item = tr_source row) \<or>
     (sg_kind item = Bind \<and> tr_kind row = Bind \<and>
      binds_overlap resolve (sg_source item) (tr_source row))"

fun overlap_of ::
  "resolver \<Rightarrow> storage_item list \<Rightarrow> storage_row list \<Rightarrow> storage_conflict option" where
  "overlap_of resolve [] rows = None"
| "overlap_of resolve (item # items) rows =
     (if \<not> sg_writable item then overlap_of resolve items rows
      else case find (same_storage resolve item) rows of
             Some r \<Rightarrow> Some \<lparr>sc_item = item, sc_owner = tr_instance r\<rparr>
           | None \<Rightarrow> overlap_of resolve items rows)"

definition writable_conflict ::
  "resolver \<Rightarrow> hub_db \<Rightarrow> uuid \<Rightarrow> storage_item list \<Rightarrow> storage_conflict option" where
  "writable_conflict resolve db i items =
     overlap_of resolve items
       (filter (\<lambda>r. tr_writable r \<and> tr_instance r \<noteq> i) (storage_rows db))"

definition shared_storage ::
  "resolver \<Rightarrow> hub_db \<Rightarrow> uuid \<Rightarrow> storage_item list \<Rightarrow> storage_conflict option" where
  "shared_storage resolve db i items =
     overlap_of resolve items (filter (\<lambda>r. tr_instance r \<noteq> i) (storage_rows db))"

definition storage_row_of :: "uuid \<Rightarrow> storage_item \<Rightarrow> storage_row" where
  "storage_row_of i item = \<lparr>tr_instance = i, tr_kind = sg_kind item, tr_source = sg_source item,
     tr_destination = sg_destination item, tr_writable = sg_writable item\<rparr>"

text \<open>The rows of the items, or a key that is there already: an instance mounts one source at a destination.\<close>

definition insert_storage :: "uuid \<Rightarrow> storage_item list \<Rightarrow> hub_db \<Rightarrow> hub_error + hub_db" where
  "insert_storage i items db =
     (let rows = storage_rows db @ map (storage_row_of i) items
      in if items \<noteq> [] \<and> i \<notin> ir_id ` set (instance_rows db) \<or>
            \<not> distinct (map (\<lambda>r. (tr_instance r, tr_destination r)) rows)
         then Inl Hub_Integrity_Error else Inr (db\<lparr>storage_rows := rows\<rparr>))"

definition set_instance :: "uuid \<Rightarrow> (instance_row \<Rightarrow> instance_row) \<Rightarrow> hub_db \<Rightarrow> hub_db" where
  "set_instance i f db =
     db\<lparr>instance_rows := row_update (\<lambda>r. ir_id r = i) f (instance_rows db)\<rparr>"

section \<open>Creating\<close>

definition begin_create ::
  "hub_db \<Rightarrow> managed_instance \<Rightarrow> uuid \<Rightarrow> uuid option \<Rightarrow> hub_error + hub_db" where
  "begin_create db m oid requester =
     (let row = \<lparr>ir_id = mi_id m, ir_path = mi_path m, ir_manifest_id = mi_manifest_id m,
                 ir_persona = mi_persona m, ir_requested_revision = mi_requested_revision m,
                 ir_source_revision = None, ir_image = None, ir_intended = mi_intended m,
                 ir_runtime_id = mi_runtime_id m, ir_prepared = False,
                 ir_avatar = Some (mi_avatar m)\<rparr>
      in if \<exists>r \<in> set (instance_rows db). ir_id r = mi_id m \<or> ir_path r = mi_path m \<or>
              ir_runtime_id r = mi_runtime_id m
         then Inl Hub_Integrity_Error
         else if mi_factory m \<noteq> None \<and> mi_id m \<in> mr_instance ` set (member_rows db)
         then Inl Hub_Integrity_Error
         else insert_operation
           (\<lparr>op_id = oid, op_instance = Some (mi_id m), op_kind = Create_Op,
             op_state = Op_Pending, op_detail = ''Creation queued.'', op_login = None,
             op_requester = requester\<rparr>)
           (db\<lparr>instance_rows := instance_rows db @ [row],
               member_rows := (case mi_factory m of
                   None \<Rightarrow> member_rows db
                 | Some fm \<Rightarrow> member_rows db @ [\<lparr>mr_instance = mi_id m, mr_member = fm\<rparr>]),
               meta_home := (if mi_home m then Some (mi_id m) else meta_home db)\<rparr>))"

definition record_preparation ::
  "resolver \<Rightarrow> hub_db \<Rightarrow> uuid \<Rightarrow> image_artifact \<Rightarrow> storage_item list \<Rightarrow> hub_error + hub_db" where
  "record_preparation resolve db i artifact items =
     (case writable_conflict resolve db i items of
        Some c \<Rightarrow> Inl (Refused (''Storage source \"'' @ sg_source (sc_item c) @
                                ''\" is already owned.''))
      | None \<Rightarrow>
          (case insert_storage i items db of
             Inl e \<Rightarrow> Inl e
           | Inr db' \<Rightarrow> Inr (set_instance i (\<lambda>r. r\<lparr>ir_source_revision := Some (ia_revision artifact),
                          ir_image := Some (ia_image artifact)\<rparr>) db')))"

definition mark_prepared :: "hub_db \<Rightarrow> uuid \<Rightarrow> hub_db" where
  "mark_prepared db i = set_instance i (\<lambda>r. r\<lparr>ir_prepared := True\<rparr>) db"

definition record_template ::
  "hub_db \<Rightarrow> uuid \<Rightarrow> declared_setup \<Rightarrow> (string, string) dict \<Rightarrow> hub_db" where
  "record_template db i setup baseline = db\<lparr>member_rows :=
     row_update (\<lambda>m. mr_instance m = i)
       (\<lambda>m. m\<lparr>mr_member := (mr_member m)\<lparr>fm_setup := setup, fm_baseline := Some baseline\<rparr>\<rparr>)
       (member_rows db)\<rparr>"

section \<open>Adopting\<close>

text \<open>The text of an instance's id. A UUID's digits are no part of what the registry promises.\<close>

definition held_identity :: "hub_db \<Rightarrow> uuid \<Rightarrow> string \<Rightarrow> string \<Rightarrow> string option" where
  "held_identity db i path runtime_id =
     map_option (\<lambda>r.
       if ir_runtime_id r = runtime_id
       then ''Container \"'' @ runtime_id @ ''\" is still recorded for instance '' @
            str_nat (ir_id r) @
            '', so this hub will not adopt another instance under that name.''
       else ''Directory '' @ ir_path r @ '' is still recorded for instance '' @ str_nat (ir_id r) @
            '', so this hub will not adopt another instance at that path.'')
     (find (\<lambda>r. ir_id r \<noteq> i \<and> (ir_path r = path \<or> ir_runtime_id r = runtime_id))
       (instance_rows db))"

text \<open>The row an adoption writes: over its own unfinished record, or a new one.\<close>

definition adopted_row :: "managed_instance \<Rightarrow> instance_row" where
  "adopted_row m = \<lparr>ir_id = mi_id m, ir_path = mi_path m, ir_manifest_id = mi_manifest_id m,
     ir_persona = mi_persona m, ir_requested_revision = [], ir_source_revision = None,
     ir_image = mi_image m, ir_intended = mi_intended m, ir_runtime_id = mi_runtime_id m,
     ir_prepared = False, ir_avatar = None\<rparr>"

definition write_adopted :: "managed_instance \<Rightarrow> hub_db \<Rightarrow> hub_error + hub_db" where
  "write_adopted m db =
     (if \<exists>r \<in> set (instance_rows db). ir_id r \<noteq> mi_id m \<and>
           (ir_path r = mi_path m \<or> ir_runtime_id r = mi_runtime_id m)
      then Inl (Refused (case held_identity db (mi_id m) (mi_path m) (mi_runtime_id m) of
          Some why \<Rightarrow> why
        | None \<Rightarrow> ''This path or container name is already recorded for another instance.''))
      else Inr (db\<lparr>instance_rows := row_upsert ir_id
        (\<lambda>old new. old\<lparr>ir_path := ir_path new, ir_manifest_id := ir_manifest_id new,
           ir_persona := ir_persona new, ir_image := ir_image new,
           ir_intended := ir_intended new, ir_runtime_id := ir_runtime_id new\<rparr>)
        (adopted_row m) (instance_rows db)\<rparr>))"

definition begin_adoption ::
  "resolver \<Rightarrow> hub_db \<Rightarrow> managed_instance \<Rightarrow> uuid \<Rightarrow> hub_error + hub_db \<times> uuid" where
  "begin_adoption resolve db m oid =
     (if case find (\<lambda>r. ir_id r = mi_id m) (instance_rows db) of None \<Rightarrow> False | Some r \<Rightarrow> ir_prepared r
      then Inl (Refused (''This hub already manages the instance at '' @ mi_path m @ '' as '' @
                         str_nat (mi_id m) @ ''.''))
      else case find (\<lambda>x. op_instance x = Some (mi_id m) \<and> unfinished_state (op_state x))
                  (operation_rows db) of
        Some x \<Rightarrow> Inr (db, op_id x)
      | None \<Rightarrow>
      (case writable_conflict resolve db (mi_id m) (mi_storage m) of
        Some c \<Rightarrow> Inl (Refused (''Writable storage \"'' @ sg_source (sc_item c) @
            ''\" is already recorded for instance '' @ str_nat (sc_owner c) @ ''.''))
      | None \<Rightarrow>
      (case held_identity db (mi_id m) (mi_path m) (mi_runtime_id m) of
        Some why \<Rightarrow> Inl (Refused why)
      | None \<Rightarrow>
      (case write_adopted m
              (db\<lparr>storage_rows := row_delete (\<lambda>r. tr_instance r = mi_id m) (storage_rows db)\<rparr>) of
        Inl e \<Rightarrow> Inl e
      | Inr db1 \<Rightarrow>
      (case insert_storage (mi_id m) (mi_storage m) db1 of
        Inl e \<Rightarrow> Inl e
      | Inr db2 \<Rightarrow>
      (case insert_operation
              (\<lparr>op_id = oid, op_instance = Some (mi_id m), op_kind = Adopt_Op,
                op_state = Op_Pending, op_detail = ''Adoption queued.'', op_login = None,
                op_requester = None\<rparr>) db2 of
        Inl e \<Rightarrow> Inl e
      | Inr db3 \<Rightarrow> Inr (db3, oid)))))))"

section \<open>Images\<close>

definition write_selection :: "hub_db \<Rightarrow> uuid \<Rightarrow> string \<Rightarrow> string \<Rightarrow> string \<Rightarrow> hub_db" where
  "write_selection db i requested source img =
     (set_instance i (\<lambda>r. r\<lparr>ir_requested_revision := requested, ir_source_revision := Some source,
        ir_image := Some img\<rparr>) db)
     \<lparr>candidate_rows := row_delete (\<lambda>c. cd_instance c = i) (candidate_rows db)\<rparr>"

definition record_selection :: "hub_db \<Rightarrow> uuid \<Rightarrow> string \<Rightarrow> image_artifact \<Rightarrow> hub_db" where
  "record_selection db i revision artifact =
     write_selection db i revision (ia_revision artifact) (ia_image artifact)"

definition stage_candidate ::
  "hub_db \<Rightarrow> uuid \<Rightarrow> string \<Rightarrow> image_artifact \<Rightarrow> hub_error + hub_db" where
  "stage_candidate db i revision artifact =
     (if i \<notin> ir_id ` set (instance_rows db) then Inl Hub_Integrity_Error
      else Inr (db\<lparr>candidate_rows := row_upsert cd_instance (\<lambda>old new. new)
        \<lparr>cd_instance = i, cd_requested_revision = revision,
         cd_source_revision = ia_revision artifact, cd_image = ia_image artifact\<rparr>
        (candidate_rows db)\<rparr>))"

definition candidate_image :: "hub_db \<Rightarrow> uuid \<Rightarrow> string option" where
  "candidate_image db i =
     map_option cd_image (find (\<lambda>c. cd_instance c = i) (candidate_rows db))"

definition accept_candidate :: "hub_db \<Rightarrow> uuid \<Rightarrow> string \<Rightarrow> hub_db" where
  "accept_candidate db i img =
     (case find (\<lambda>c. cd_instance c = i) (candidate_rows db) of
        None \<Rightarrow> db
      | Some c \<Rightarrow>
          if cd_image c \<noteq> img then db
          else write_selection db i (cd_requested_revision c) (cd_source_revision c) (cd_image c))"

definition image_artifact_of :: "hub_db \<Rightarrow> string \<Rightarrow> image_artifact option" where
  "image_artifact_of db key = map_option snd (find (\<lambda>a. fst a = key) (artifact_rows db))"

definition record_image_artifact :: "hub_db \<Rightarrow> string \<Rightarrow> image_artifact \<Rightarrow> hub_db" where
  "record_image_artifact db key artifact =
     db\<lparr>artifact_rows := row_replace fst (key, artifact) (artifact_rows db)\<rparr>"

definition image_artifacts :: "hub_db \<Rightarrow> image_artifact list" where
  "image_artifacts db = concat (map (\<lambda>key.
     (case image_artifact_of db key of None \<Rightarrow> [] | Some a \<Rightarrow> [a])) (map fst (artifact_rows db)))"

definition record_description :: "hub_db \<Rightarrow> string \<Rightarrow> declared_setup \<Rightarrow> hub_db" where
  "record_description db img setup =
     db\<lparr>description_rows := row_replace fst (img, setup) (description_rows db)\<rparr>"

definition description :: "hub_db \<Rightarrow> string option \<Rightarrow> declared_setup option" where
  "description db img =
     map_option snd (find (\<lambda>d. img = None \<or> img = Some (fst d)) (rev (description_rows db)))"

text \<open>The images an instance that is not deleted names, or a candidate of one, or described last.\<close>

definition referenced_images :: "hub_db \<Rightarrow> string list" where
  "referenced_images db =
     concat (map (\<lambda>r. case ir_image r of Some g \<Rightarrow> (if ir_intended r \<noteq> Deleted then [g] else [])
                      | None \<Rightarrow> []) (instance_rows db)) @
     map cd_image (filter (\<lambda>c. \<exists>r \<in> set (instance_rows db).
        ir_id r = cd_instance c \<and> ir_intended r \<noteq> Deleted) (candidate_rows db)) @
     (case rev (description_rows db) of [] \<Rightarrow> [] | d # _ \<Rightarrow> [fst d])"

definition unreferenced_images :: "hub_db \<Rightarrow> string list" where
  "unreferenced_images db =
     rev (remdups (rev (filter (\<lambda>g. g \<notin> set (referenced_images db))
       (map (ia_image \<circ> snd) (artifact_rows db)))))"

definition forget_image :: "hub_db \<Rightarrow> string \<Rightarrow> hub_db" where
  "forget_image db img =
     db\<lparr>artifact_rows := row_delete (\<lambda>a. ia_image (snd a) = img) (artifact_rows db),
        description_rows := row_delete (\<lambda>d. fst d = img) (description_rows db)\<rparr>"

section \<open>Removing and deleting\<close>

definition set_intended_state :: "hub_db \<Rightarrow> uuid \<Rightarrow> intended_state \<Rightarrow> hub_db" where
  "set_intended_state db i state = set_instance i (\<lambda>r. r\<lparr>ir_intended := state\<rparr>) db"

definition release_storage :: "hub_db \<Rightarrow> uuid \<Rightarrow> storage_item list \<Rightarrow> hub_db" where
  "release_storage db i items = db\<lparr>storage_rows :=
     row_delete (\<lambda>r. tr_instance r = i \<and> tr_destination r \<in> sg_destination ` set items)
       (storage_rows db)\<rparr>"

definition mark_deleted :: "hub_db \<Rightarrow> uuid \<Rightarrow> hub_db" where
  "mark_deleted db i =
     (set_instance i (\<lambda>r. r\<lparr>ir_intended := Deleted\<rparr>) db)
     \<lparr>storage_rows := row_delete (\<lambda>r. tr_instance r = i) (storage_rows db)\<rparr>"

end
