(* ===== verification/Hub_Access.thy ===== *)
theory Hub_Access
  imports Instances
begin

text \<open>
  The hub's identity, its tokens and sessions, the secrets its instances are linked to, and the
  skills of its library (\<open>HubRegistry\<close> in src/src/kinby/hub/registry.py). A token and a session are
  known by their hashes only.
\<close>

section \<open>Identity, tokens and sessions\<close>

definition hub_id :: "uuid \<Rightarrow> hub_db \<Rightarrow> hub_db \<times> uuid" where
  "hub_id new_id db =
     (case meta_hub_id db of Some i \<Rightarrow> (db, i) | None \<Rightarrow> (db\<lparr>meta_hub_id := Some new_id\<rparr>, new_id))"

definition set_signal_alias :: "hub_db \<Rightarrow> uuid \<Rightarrow> hub_error + hub_db" where
  "set_signal_alias db i =
     (case instance_record db i of
        None \<Rightarrow> Inl (Refused (''Instance \"'' @ str_nat i @ ''\" was not found.''))
      | Some _ \<Rightarrow> Inr (db\<lparr>meta_signal_alias := Some i\<rparr>))"

definition try_set_access_token_hash :: "hub_db \<Rightarrow> string \<Rightarrow> hub_db \<times> bool" where
  "try_set_access_token_hash db token =
     (case meta_access_token db of
        None \<Rightarrow> (db\<lparr>meta_access_token := Some token\<rparr>, True)
      | Some _ \<Rightarrow> (db, False))"

text \<open>Swap the hash and drop every session in one transaction.\<close>

definition replace_access_token_hash :: "hub_db \<Rightarrow> string \<Rightarrow> hub_db" where
  "replace_access_token_hash db token =
     db\<lparr>meta_access_token := Some token, session_rows := []\<rparr>"

definition replace_update_token_hash :: "hub_db \<Rightarrow> string \<Rightarrow> hub_db" where
  "replace_update_token_hash db token = db\<lparr>meta_update_token := Some token\<rparr>"

definition open_session_if_current :: "hub_db \<Rightarrow> string \<Rightarrow> string \<Rightarrow> hub_error + hub_db \<times> bool" where
  "open_session_if_current db token session =
     (if meta_access_token db \<noteq> Some token then Inr (db, False)
      else if session \<in> set (session_rows db) then Inl Hub_Integrity_Error
      else Inr (db\<lparr>session_rows := session_rows db @ [session]\<rparr>, True))"

definition close_session :: "hub_db \<Rightarrow> string \<Rightarrow> hub_db" where
  "close_session db session = db\<lparr>session_rows := row_delete ((=) session) (session_rows db)\<rparr>"

definition session_open :: "hub_db \<Rightarrow> string \<Rightarrow> bool" where
  "session_open db session \<longleftrightarrow> session \<in> set (session_rows db)"

section \<open>Linked secrets\<close>

definition link_secrets ::
  "hub_db \<Rightarrow> uuid \<Rightarrow> (string, string) dict \<Rightarrow> string list \<Rightarrow> hub_error + hub_db" where
  "link_secrets db i links unlinked =
     (if links \<noteq> [] \<and> i \<notin> ir_id ` set (instance_rows db) then Inl Hub_Integrity_Error
      else Inr (db\<lparr>link_rows :=
        fold (\<lambda>(v, n). row_replace (\<lambda>l. (lk_instance l, lk_variable l))
               \<lparr>lk_instance = i, lk_variable = v, lk_secret = n\<rparr>) links
          (row_delete (\<lambda>l. lk_instance l = i \<and> lk_variable l \<in> set unlinked) (link_rows db))\<rparr>))"

definition secret_links :: "hub_db \<Rightarrow> uuid \<Rightarrow> (string, string) dict" where
  "secret_links db i =
     map (\<lambda>l. (lk_variable l, lk_secret l)) (filter (\<lambda>l. lk_instance l = i) (link_rows db))"

definition linked_to :: "hub_db \<Rightarrow> string \<Rightarrow> (uuid, string list) dict" where
  "linked_to db secret =
     fold (\<lambda>l d. dict_set (lk_instance l) (dict_get d (lk_instance l) [] @ [lk_variable l]) d)
       (sort_key lk_variable (filter (\<lambda>l. lk_secret l = secret) (link_rows db))) []"

definition unlink_hub_secret :: "hub_db \<Rightarrow> string \<Rightarrow> hub_db" where
  "unlink_hub_secret db secret =
     db\<lparr>link_rows := row_delete (\<lambda>l. lk_secret l = secret) (link_rows db)\<rparr>"

section \<open>Skills of the library\<close>

definition record_shipped_skill :: "hub_db \<Rightarrow> string \<Rightarrow> string \<Rightarrow> hub_db" where
  "record_shipped_skill db n copied =
     db\<lparr>shipped_skill_rows := row_replace fst (n, copied) (shipped_skill_rows db)\<rparr>"

definition git_skills :: "hub_db \<Rightarrow> (string, git_source) dict" where
  "git_skills db = map (\<lambda>g. (gk_name g, gk_source g)) (git_skill_rows db)"

definition record_git_skill :: "hub_db \<Rightarrow> string \<Rightarrow> git_source \<Rightarrow> string \<Rightarrow> hub_db" where
  "record_git_skill db n source landed = db\<lparr>git_skill_rows :=
     row_replace gk_name \<lparr>gk_name = n, gk_source = source, gk_hash = Some landed\<rparr>
       (git_skill_rows db)\<rparr>"

definition forget_git_skill :: "hub_db \<Rightarrow> string \<Rightarrow> hub_db" where
  "forget_git_skill db n =
     db\<lparr>git_skill_rows := row_delete (\<lambda>g. gk_name g = n) (git_skill_rows db)\<rparr>"

text \<open>A git skill's hash wins over a shipped one's of the same name, which the user deleted.\<close>

definition landed_skills :: "hub_db \<Rightarrow> (string, string) dict" where
  "landed_skills db =
     dict_union (dict_union [] (shipped_skill_rows db))
       (concat (map (\<lambda>g. case gk_hash g of None \<Rightarrow> [] | Some h \<Rightarrow> [(gk_name g, h)])
          (git_skill_rows db)))"

definition unhashed_git_skills :: "hub_db \<Rightarrow> string list" where
  "unhashed_git_skills db = map gk_name (filter (\<lambda>g. gk_hash g = None) (git_skill_rows db))"

definition record_landed_git_skill :: "hub_db \<Rightarrow> string \<Rightarrow> string \<Rightarrow> hub_db" where
  "record_landed_git_skill db n landed = db\<lparr>git_skill_rows :=
     row_update (\<lambda>g. gk_name g = n) (\<lambda>g. g\<lparr>gk_hash := Some landed\<rparr>) (git_skill_rows db)\<rparr>"

section \<open>What a rotation ends\<close>

lemma rotation_ends_sessions: "\<not> session_open (replace_access_token_hash db token) session"
  by (simp add: session_open_def replace_access_token_hash_def)

lemma session_needs_current_token:
  "open_session_if_current db token session = Inr (db', True) \<Longrightarrow>
     meta_access_token db = Some token \<and> session_open db' session"
  by (auto simp: open_session_if_current_def session_open_def split: if_splits)

end
