(* ===== verification/Run_Engine.thy ===== *)
theory Run_Engine
  imports Run_Rules Run_Tables Hub_Access
begin

text \<open>
  The runs engine (\<open>FactoryRuns\<close> in src/src/kinby/hub/runs.py): it starts runs from intake, queues
  their steps per instance, settles each attempt, parks runs at waits and approvals, and moves them
  on for a signal, a deadline or the user.

  The engine's state is a record: the registry's tables, the queue of each instance, the timer of
  each parked run and the tasks of timers that lost their place, the waits a signal already matched, what each subscriber was sent, and the
  notifications handed to the outbox. An operation is a function on that state which returns a
  value or an error, and the state it left: an exception keeps what was written before it. A
  handler reads the clock once.

  What the hub reads outside this code is in \<open>env\<close>: the factory files and prompts on disk, the
  lists of repository commands in an instance's manifest, and \<open>json.loads\<close>.
\<close>

section \<open>State\<close>

record env =
  env_factory :: "string \<Rightarrow> factory_file option"
  env_prompt :: "string \<Rightarrow> string \<Rightarrow> string + string"
  env_commands :: "string \<Rightarrow> (string, string list) dict option"
  env_json :: "string \<Rightarrow> json option"

text \<open>A signal as its instance's receiver got it. Headers are read without regard to case.\<close>

record signal =
  sn_routine :: string
  sn_headers :: "string \<Rightarrow> string option"
  sn_body :: string

record queued_step =
  qs_run :: uuid
  qs_step :: string
  qs_command :: step_run_command

record queued_report =
  qr_run :: uuid
  qr_instance :: string
  qr_command :: step_run_command
  qr_status :: run_status
  qr_generation :: nat
  qr_waited :: nat

record queued_stop =
  qp_stop :: run_stop
  qp_waited :: nat

datatype queued = Q_Step queued_step | Q_Report queued_report | Q_Stop queued_stop

text \<open>A park's timer: a quiet time or deadline with the result it ends the wait in, or a reset.\<close>

datatype timer = Expire moment step_result | Wake moment "string option"

record notice =
  nt_instance :: uuid
  nt_key :: string
  nt_source :: string
  nt_title :: string
  nt_text :: string
  nt_page :: string
  nt_options :: "string list"
  nt_stop :: run_stop_ref

record engine =
  en_db :: run_db
  en_hub :: hub_db
  en_queues :: "(uuid, queued list) dict"
  en_deadlines :: "uuid \<Rightarrow> timer option"
  en_strays :: "(uuid \<times> timer) list"
  en_woken :: "uuid \<Rightarrow> string list"
  en_subscribers :: "factory_run list list"
  en_notices :: "notice list"

text \<open>
  \<open>Out_Of_Fuel\<close> is the model's own: \<open>enqueue\<close> needs more rounds than it was given, which
  \<open>engine_fuel\<close> rules out. \<open>Never_Returns\<close> is the session chase of a factory whose resumes go
  round, which the factory check refuses.
\<close>

datatype run_error =
    Registry_Error registry_error
  | Factory_Run_Not_Found uuid
  | Not_An_Intake string
  | Invalid_Work_Item "(string, string) dict"
  | Repository_Commands_Missing "string list"
  | Not_An_Earlier_Step string
  | Run_Awaits_No_Approval uuid
  | Run_Needs_No_Human uuid
  | No_Step_To_Queue uuid
  | Key_Error
  | Index_Error
  | Never_Returns
  | Out_Of_Fuel

type_synonym 'a act = "engine \<Rightarrow> (run_error + 'a) \<times> engine"

definition ret :: "'a \<Rightarrow> 'a act" where
  "ret x = (\<lambda>e. (Inr x, e))"

definition throw :: "run_error \<Rightarrow> 'a act" where
  "throw err = (\<lambda>e. (Inl err, e))"

definition and_then :: "'a act \<Rightarrow> ('a \<Rightarrow> 'b act) \<Rightarrow> 'b act" where
  "and_then m k = (\<lambda>e. case m e of (Inl err, e') \<Rightarrow> (Inl err, e') | (Inr x, e') \<Rightarrow> k x e')"

definition change :: "(engine \<Rightarrow> engine) \<Rightarrow> unit act" where
  "change f = (\<lambda>e. (Inr (), f e))"

text \<open>A write of the run tables: a refused one leaves them as they were.\<close>

definition on_db :: "(run_db \<Rightarrow> registry_error + run_db \<times> 'a) \<Rightarrow> 'a act" where
  "on_db f = (\<lambda>e. case f (en_db e) of
      Inl err \<Rightarrow> (Inl (Registry_Error err), e)
    | Inr (db, x) \<Rightarrow> (Inr x, e\<lparr>en_db := db\<rparr>))"

definition set_db :: "(run_db \<Rightarrow> run_db) \<Rightarrow> unit act" where
  "set_db f = change (\<lambda>e. e\<lparr>en_db := f (en_db e)\<rparr>)"

lemma act_simps [simp]:
  "ret x e = (Inr x, e)"
  "throw err e = (Inl err, e)"
  "change f e = (Inr (), f e)"
  "and_then m k e = (case m e of (Inl err, e') \<Rightarrow> (Inl err, e') | (Inr x, e') \<Rightarrow> k x e')"
  by (simp_all add: ret_def throw_def change_def and_then_def)

section \<open>Publishing and queueing\<close>

definition publish :: "factory_run \<Rightarrow> unit act" where
  "publish r = change (\<lambda>e. e\<lparr>en_subscribers := map (\<lambda>q. q @ [r]) (en_subscribers e)\<rparr>)"

definition subscribe :: "nat act" where
  "subscribe = (\<lambda>e. (Inr (length (en_subscribers e)),
     e\<lparr>en_subscribers := en_subscribers e @ [[]]\<rparr>))"

definition put :: "uuid \<Rightarrow> queued \<Rightarrow> unit act" where
  "put i q = change (\<lambda>e. e\<lparr>en_queues :=
     dict_set i (dict_get (en_queues e) i [] @ [q]) (en_queues e)\<rparr>)"

definition existing :: "uuid \<Rightarrow> factory_run act" where
  "existing i = (\<lambda>e. case run (en_db e) i of
      None \<Rightarrow> (Inl (Factory_Run_Not_Found i), e) | Some r \<Rightarrow> (Inr r, e))"

text \<open>The factory's first active instance of a role.\<close>

definition first_in :: "hub_db \<Rightarrow> string \<Rightarrow> string \<Rightarrow> uuid option" where
  "first_in hub factory role =
     map_option mi_id (find (\<lambda>m. active m \<and>
       (case mi_factory m of None \<Rightarrow> False | Some fm \<Rightarrow> fm_name fm = role))
       (factory_members hub factory))"

text \<open>The instance that holds a role for the run: its own for the one that handed it in.\<close>

definition holder :: "hub_db \<Rightarrow> factory_run \<Rightarrow> string \<Rightarrow> uuid option" where
  "holder hub r role =
     (case instance_record hub (fr_instance r) of
        None \<Rightarrow> first_in hub (fr_factory r) role
      | Some owner \<Rightarrow>
          (case mi_factory owner of
             None \<Rightarrow> first_in hub (fr_factory r) role
           | Some fm \<Rightarrow>
               if fm_name fm = role then (if active owner then Some (mi_id owner) else None)
               else first_in hub (fr_factory r) role))"

definition put_stop :: "queued_stop \<Rightarrow> unit act" where
  "put_stop q =
     and_then (existing (rs_run (qp_stop q))) (\<lambda>r e.
       case instance_record (en_hub e) (fr_instance r) of
         None \<Rightarrow> (Inr (), e)
       | Some owner \<Rightarrow> if active owner then put (mi_id owner) (Q_Stop q) e else (Inr (), e))"

definition put_report :: "queued_report \<Rightarrow> unit act" where
  "put_report q =
     and_then (existing (qr_run q)) (\<lambda>r e.
       case holder (en_hub e) r (qr_instance q) of
         None \<Rightarrow> (Inr (), e)
       | Some i \<Rightarrow> put i (Q_Report q) e)"

text \<open>Queue the factory's call for the run as it stopped.\<close>

definition report ::
  "factory_file \<Rightarrow> stop_call \<Rightarrow> factory_run \<Rightarrow> string option \<Rightarrow> unit act" where
  "report f call r summary = (\<lambda>e.
     (let as = attempts (en_db e) (fr_id r)
      in case (fr_step r, as) of
           (None, []) \<Rightarrow> (Inl Index_Error, e)
         | _ \<Rightarrow>
           (let step_id = (case fr_step r of Some s \<Rightarrow> s | None \<Rightarrow> at_step (last as));
                command = \<lparr>src_step = Code_Step_Run (ca_call call) summary,
                  src_origin = \<lparr>ro_factory = fr_factory r, ro_run = fr_id r, ro_step = step_id\<rparr>,
                  src_attempt = None, src_hook = None, src_work_item = fr_work_item r,
                  src_results = results f as None\<rparr>
            in put_report \<lparr>qr_run = fr_id r, qr_instance = ca_instance call, qr_command = command,
                 qr_status = fr_status r, qr_generation = stop_generation (en_db e) (fr_id r),
                 qr_waited = 0\<rparr> e)))"

section \<open>Moving a run\<close>

definition RETRY :: string where "RETRY = ''Retry''"
definition SEND_BACK :: string where "SEND_BACK = ''Send back to ''"
definition CANCEL :: string where "CANCEL = ''Cancel''"

text \<open>The statuses a run ends in, which the factory's ended call follows.\<close>

definition ENDS :: "run_status list" where "ENDS = [Done, Cancelled]"

definition notify_stop ::
  "factory_run \<Rightarrow> run_stop_ref \<Rightarrow> factory_file option \<Rightarrow> unit act" where
  "notify_stop r stop f = (\<lambda>e.
     case instance_record (en_hub e) (fr_instance r) of
       None \<Rightarrow> (Inr (), e)
     | Some _ \<Rightarrow>
       (let items = joined '', '' (map (\<lambda>(n, v). n @ '' '' @ str_value v) (fr_work_item r));
            earlier = earlier_ids f (fr_step r);
            send_back = (if earlier = [] then [] else [SEND_BACK @ last earlier])
        in (Inr (), e\<lparr>en_notices := en_notices e @
             [\<lparr>nt_instance = fr_instance r,
               nt_key = ''run_stop:'' @ str_nat (fr_id r) @ '':'' @ str_nat (ref_generation stop),
               nt_source = fr_factory r, nt_title = ''Needs human'',
               nt_text = ''The run for '' @ items @ '' stopped at \"'' @
                 (case fr_step r of None \<Rightarrow> ''None'' | Some s \<Rightarrow> s) @ ''\".'',
               nt_page = ''/library'', nt_options = RETRY # send_back @ [CANCEL],
               nt_stop = stop\<rparr>]\<rparr>)))"

definition move :: "env \<Rightarrow> moment \<Rightarrow> uuid \<Rightarrow> run_status \<Rightarrow> string option \<Rightarrow> factory_run act" where
  "move en now i status step_id =
     and_then (existing i) (\<lambda>found.
     let f = env_factory en (fr_factory found);
         ended = (if status \<in> set ENDS then Option.bind f ff_ended else None)
     in
     and_then (on_db (\<lambda>db. move_run now db i status step_id None (ended \<noteq> None))) (\<lambda>moved.
     and_then (publish moved) (\<lambda>_.
     and_then (if fr_status moved \<in> set STOPS
       then (\<lambda>e. let generation = stop_generation (en_db e) i
             in and_then (on_db (\<lambda>db. map_sum id (\<lambda>s. (db, s)) (run_stop db i generation))) (\<lambda>s.
                and_then (put_stop \<lparr>qp_stop = s, qp_waited = 0\<rparr>) (\<lambda>_.
                if fr_status moved = Needs_Human
                then notify_stop moved \<lparr>ref_run = i, ref_generation = generation\<rparr> f
                else ret ())) e)
       else ret ()) (\<lambda>_.
     and_then (case (f, ended) of
         (Some g, Some call) \<Rightarrow> report g call moved None
       | _ \<Rightarrow> ret ()) (\<lambda>_.
     ret moved)))))"

section \<open>Parking\<close>

text \<open>The quiet time and the deadline of a wait: when each ends it, counted in seconds, and how.\<close>

definition wait_ends :: "step \<Rightarrow> (nat \<times> step_result) list" where
  "wait_ends s =
     (case st_kind s of
        Wait_Step _ quiet deadline \<Rightarrow>
          (case quiet of None \<Rightarrow> [] | Some d \<Rightarrow>
             [(duration_seconds d, (plain_result Clean (''No signal matched step \"'' @ st_id s @
                ''\" within its '' @ duration_text d @ '' quiet time.''))
                \<lparr>sr_values := [(QUIET, VBool True)]\<rparr>)]) @
          (case deadline of None \<Rightarrow> [] | Some d \<Rightarrow>
             [(duration_seconds d, plain_result Failed (''No signal matched step \"'' @ st_id s @
                ''\" within its '' @ duration_text d @ '' deadline.''))])
      | _ \<Rightarrow> [])"

text \<open>\<open>min\<close> by the time, the first of two equal ones.\<close>

fun first_end :: "(nat \<times> step_result) list \<Rightarrow> (nat \<times> step_result) option" where
  "first_end [] = None"
| "first_end (x # xs) =
     (case first_end xs of None \<Rightarrow> Some x | Some y \<Rightarrow> if fst x \<le> fst y then Some x else Some y)"

text \<open>
  A new timer takes the run's place in the table. The task of the one it took it from is not
  cancelled: it goes on as a stray.
\<close>

definition set_timer :: "uuid \<Rightarrow> timer \<Rightarrow> unit act" where
  "set_timer i t = change (\<lambda>e. e\<lparr>en_deadlines := (en_deadlines e)(i := Some t),
     en_strays := en_strays e @ (case en_deadlines e i of None \<Rightarrow> [] | Some t' \<Rightarrow> [(i, t')])\<rparr>)"

definition arm :: "uuid \<Rightarrow> step \<Rightarrow> moment \<Rightarrow> unit act" where
  "arm i s parked_at =
     (case first_end (wait_ends s) of
        None \<Rightarrow> ret ()
      | Some (after, r) \<Rightarrow> set_timer i (Expire (parked_at + int after * SECOND) r))"

definition disarm :: "uuid \<Rightarrow> unit act" where
  "disarm i = change (\<lambda>e. e\<lparr>en_deadlines := (en_deadlines e)(i := None)\<rparr>)"

definition park_until :: "moment \<Rightarrow> uuid \<Rightarrow> string \<Rightarrow> moment \<Rightarrow> factory_run act" where
  "park_until now i step_id wakes_at =
     and_then (on_db (\<lambda>db. move_run now db i Parked (Some step_id) (Some wakes_at) False)) (\<lambda>parked.
     and_then (publish parked) (\<lambda>_.
     and_then (set_timer i (Wake wakes_at (Some step_id))) (\<lambda>_.
     ret parked)))"

end
