(* ===== verification/Run_Handlers.thy ===== *)
theory Run_Handlers
  imports Run_Engine
begin

text \<open>
  The rest of the runs engine (\<open>FactoryRuns\<close> in src/src/kinby/hub/runs.py): placing and queueing a
  step, settling an attempt, and the handlers of intake, the user's commands, signals, timers and
  the instances' answers.
\<close>

section \<open>Placing a step\<close>

text \<open>
  Where a step goes: to an instance, into a park, or back as an attempt that fails. An error is the
  exception that placing it raises, or \<open>Never_Returns\<close>.
\<close>

datatype placed = To_Instance uuid queued_step | Into_Park step | Refused_Step refused

definition prompt_of :: "env \<Rightarrow> factory_run \<Rightarrow> string \<Rightarrow> string \<Rightarrow> refused + string" where
  "prompt_of en r step_id prompt =
     (case env_prompt en (fr_factory r) prompt of
        Inr text \<Rightarrow> Inr text
      | Inl why \<Rightarrow> Inl \<lparr>rf_step = step_id,
          rf_reason = ''Prompt \"'' @ prompt @ ''\" cannot be read: '' @ why\<rparr>)"

text \<open>How long a client step's coding client runs when the step declares no timeout.\<close>

definition CLIENT_TIMEOUT :: duration where "CLIENT_TIMEOUT = Duration 60 Minutes"

definition client_run ::
  "env \<Rightarrow> factory_run \<Rightarrow> factory_file \<Rightarrow> step_attempt list \<Rightarrow> step \<Rightarrow>
   (string, step_value) dict \<Rightarrow> run_error + refused + step_run" where
  "client_run en r f as s held =
     (case st_kind s of
        Client_Step _ client prompt _ resume model effort branch \<Rightarrow>
          (case prompt_of en r (st_id s) prompt of
             Inl refusal \<Rightarrow> Inr (Inl refusal)
           | Inr text \<Rightarrow>
             (let asked = (\<lambda>session. case branch_of branch held of
                    None \<Rightarrow> Inl Key_Error
                  | Some b \<Rightarrow> Inr (Inr (Client_Step_Run client text session
                      (duration_seconds (case st_timeout s of Some d \<Rightarrow> d | None \<Rightarrow> CLIENT_TIMEOUT))
                      model effort b)))
              in case resume of
                   None \<Rightarrow> asked None
                 | Some j \<Rightarrow>
                     (case session_of f as j of
                        None \<Rightarrow> Inl Never_Returns
                      | Some None \<Rightarrow> Inr (Inl \<lparr>rf_step = j,
                          rf_reason = ''Step \"'' @ st_id s @ ''\" resumes the session of \"'' @ j @
                            ''\", which this step did not record.''\<rparr>)
                      | Some (Some session) \<Rightarrow> asked (Some session))))
      | _ \<Rightarrow> Inl Key_Error)"

text \<open>Each entry of a command step's run, with the run's values in its own commands.\<close>

fun filled_entries ::
  "run_entry list \<Rightarrow> (string, step_value) dict \<Rightarrow> run_entry list option" where
  "filled_entries [] held = Some []"
| "filled_entries (Command c # es) held =
     (case (with_run_values c held, filled_entries es held) of
        (Some t, Some ts) \<Rightarrow> Some (Command t # ts) | _ \<Rightarrow> None)"
| "filled_entries (Repository_Commands n # es) held =
     map_option ((#) (Repository_Commands n)) (filled_entries es held)"

text \<open>What an instance is asked to run, and the hook that records the result.\<close>

definition asked_of ::
  "env \<Rightarrow> factory_run \<Rightarrow> factory_file \<Rightarrow> step_attempt list \<Rightarrow> step \<Rightarrow>
   (string, step_value) dict \<Rightarrow> run_error + refused + (step_run \<times> string option)" where
  "asked_of en r f as s held =
     (case st_kind s of
        Agent_Step _ prompt hook \<Rightarrow>
          Inr (map_sum id (\<lambda>text. (Agent_Step_Run text, Some hook)) (prompt_of en r (st_id s) prompt))
      | Client_Step _ _ _ hook _ _ _ _ \<Rightarrow>
          map_sum id (map_sum id (\<lambda>asked. (asked, Some hook))) (client_run en r f as s held)
      | Command_Step _ entries hook branch \<Rightarrow>
          (case (filled_entries entries held, branch_of branch held) of
             (Some commands, Some b) \<Rightarrow>
               Inr (Inr (Command_Step_Run commands (map_option duration_seconds (st_timeout s)) b, hook))
           | _ \<Rightarrow> Inl Key_Error)
      | Code_Step _ call \<Rightarrow> Inr (Inr (Code_Step_Run call None, None))
      | _ \<Rightarrow> Inl Key_Error)"

definition place ::
  "env \<Rightarrow> hub_db \<Rightarrow> step_attempt list \<Rightarrow> factory_run \<Rightarrow> string \<Rightarrow> run_error + placed" where
  "place en hub as r i =
     (case Option.bind (env_factory en (fr_factory r)) (\<lambda>f. map_option (Pair f) (step_of f i)) of
        None \<Rightarrow> Inr (Refused_Step \<lparr>rf_step = i, rf_reason = ''Factory \"'' @ fr_factory r @
            ''\" has no step \"'' @ i @ ''\" any more.''\<rparr>)
      | Some (f, s) \<Rightarrow>
        (let res = results f as (Some (st_id s));
             held = dict_union (fr_work_item r) res
         in case unmet f s held of
              Some refusal \<Rightarrow> Inr (Refused_Step refusal)
            | None \<Rightarrow>
              (case kind_instance (st_kind s) of
                 None \<Rightarrow> Inr (Into_Park s)
               | Some role \<Rightarrow>
                 (case asked_of en r f as s held of
                    Inl err \<Rightarrow> Inl err
                  | Inr (Inl refusal) \<Rightarrow> Inr (Refused_Step refusal)
                  | Inr (Inr (asked, hook)) \<Rightarrow>
                    (case holder hub r role of
                       None \<Rightarrow> Inr (Refused_Step \<lparr>rf_step = st_id s, rf_reason =
                           ''No instance holds role \"'' @ role @ ''\" of factory \"'' @
                           fr_factory r @ ''\".''\<rparr>)
                     | Some inst \<Rightarrow>
                       Inr (To_Instance inst \<lparr>qs_run = fr_id r, qs_step = st_id s, qs_command =
                         \<lparr>src_step = asked,
                          src_origin = \<lparr>ro_factory = fr_factory r, ro_run = fr_id r, ro_step = st_id s\<rparr>,
                          src_attempt = None, src_hook = hook, src_work_item = fr_work_item r,
                          src_results = res\<rparr>\<rparr>))))))"

section \<open>Settling an attempt\<close>

text \<open>End the run's open attempt, and move the run where the result sends it.\<close>

definition settle :: "env \<Rightarrow> moment \<Rightarrow> uuid \<Rightarrow> step_result \<Rightarrow> factory_run act" where
  "settle en now i result = (\<lambda>e.
     case run (en_db e) i of
       None \<Rightarrow> (Inl (Factory_Run_Not_Found i), e)
     | Some r \<Rightarrow>
     (case fr_step r of
       None \<Rightarrow> (Inl (Factory_Run_Not_Found i), e)
     | Some step_id \<Rightarrow>
     (case sr_resets_at result of
       Some wakes_at \<Rightarrow>
         and_then (set_db (\<lambda>db. end_attempt now db i result)) (\<lambda>_.
         park_until now i step_id wakes_at) e
     | None \<Rightarrow>
       (let f = env_factory en (fr_factory r);
            s = Option.bind f (\<lambda>g. step_of g step_id)
        in case (f, s) of
             (Some g, Some st) \<Rightarrow>
               (let checked = (if sr_ending result = Clean then checked_types st result else result);
                    held = dict_union (fr_work_item r) (results g (attempts (en_db e) i) None);
                    t = tally_of g (counted_attempts (en_db e) i)
                in case settled g st checked held t of
                     (result', status, to) \<Rightarrow>
                       and_then (set_db (\<lambda>db. end_attempt now db i result')) (\<lambda>_.
                       and_then (move en now i status to) (\<lambda>moved.
                       and_then (case (fr_status moved = Needs_Human, ff_needs_human g) of
                           (True, Some call) \<Rightarrow> report g call moved (Some (sr_summary result'))
                         | _ \<Rightarrow> ret ()) (\<lambda>_.
                       ret moved))) e)
           | _ \<Rightarrow>
               and_then (set_db (\<lambda>db. end_attempt now db i result)) (\<lambda>_.
               and_then (move en now i Needs_Human (Some step_id)) (\<lambda>moved.
               and_then (case (fr_status moved = Needs_Human, Option.bind f ff_needs_human, f) of
                   (True, Some call, Some g) \<Rightarrow> report g call moved (Some (sr_summary result))
                 | _ \<Rightarrow> ret ()) (\<lambda>_.
               ret moved))) e))))"

text \<open>Settle the run's open attempt, and queue the step it moves the run to with \<open>queue_step\<close>.\<close>

definition advance_by ::
  "(factory_run \<Rightarrow> unit act) \<Rightarrow> env \<Rightarrow> moment \<Rightarrow> uuid \<Rightarrow> step_result \<Rightarrow> factory_run act" where
  "advance_by queue_step en now i result =
     and_then (settle en now i result) (\<lambda>moved.
     and_then (if fr_status moved = Queued then queue_step moved else ret ()) (\<lambda>_.
     ret moved))"

section \<open>Queueing a step\<close>

text \<open>Open the attempt of a wait or an approve step with the run parked at it.\<close>

definition park_by ::
  "(uuid \<Rightarrow> step_result \<Rightarrow> factory_run act) \<Rightarrow> moment \<Rightarrow> uuid \<Rightarrow> step \<Rightarrow> unit act" where
  "park_by advance_run now i s =
     and_then (on_db (\<lambda>db. begin_attempt now db i (st_id s) Parked)) (\<lambda>parked.
     and_then (publish parked) (\<lambda>_.
     if \<not> is_wait (st_kind s) then ret ()
     else (\<lambda>e.
       if st_id s \<in> set (en_woken e i)
       then and_then (change (\<lambda>e. e\<lparr>en_woken :=
                (en_woken e)(i := removeAll (st_id s) (en_woken e i))\<rparr>)) (\<lambda>_.
            and_then (advance_run i (plain_result Clean
              ''A signal matched while the run was on its way to this step.'')) (\<lambda>_.
            ret ())) e
       else arm i s (fr_updated_at parked) e)))"

text \<open>
  \<open>_enqueue\<close>: a step that cannot start fails an attempt right away, which can move the run to
  another step, and a wait a signal already matched moves on at once. Each such round spends fuel.
\<close>

fun enqueue_rounds :: "nat \<Rightarrow> env \<Rightarrow> moment \<Rightarrow> factory_run \<Rightarrow> unit act" where
  "enqueue_rounds 0 en now r = throw Out_Of_Fuel"
| "enqueue_rounds (Suc fuel) en now r =
     (case fr_step r of
        None \<Rightarrow> throw (No_Step_To_Queue (fr_id r))
      | Some step_id \<Rightarrow> (\<lambda>e.
        case place en (en_hub e) (attempts (en_db e) (fr_id r)) r step_id of
          Inl err \<Rightarrow> (Inl err, e)
        | Inr (Refused_Step refusal) \<Rightarrow>
            and_then (on_db (\<lambda>db. begin_attempt now db (fr_id r) (rf_step refusal) Running))
              (\<lambda>running.
            and_then (publish running) (\<lambda>_.
            and_then (advance_by (enqueue_rounds fuel en now) en now (fr_id r)
              (plain_result Failed (rf_reason refusal))) (\<lambda>_.
            ret ()))) e
        | Inr (Into_Park s) \<Rightarrow>
            park_by (advance_by (enqueue_rounds fuel en now) en now) now (fr_id r) s e
        | Inr (To_Instance inst q) \<Rightarrow> put inst (Q_Step q) e))"

text \<open>
  What the run may still use up: for each step of its factory the send-backs its failures have left
  or its retries have left, each plus one, and the waits a signal already matched.
\<close>

definition budget_of :: "factory_file \<Rightarrow> tally \<Rightarrow> nat" where
  "budget_of f t =
     sum_list (map (\<lambda>s. case st_failed s of
         Some (Send_Back back most) \<Rightarrow> most - count_of (ty_sent_back t) (st_id s, back)
       | None \<Rightarrow> retries s - count_of (ty_failures t) (st_id s)) (ff_steps f))"

definition engine_fuel :: "env \<Rightarrow> engine \<Rightarrow> uuid \<Rightarrow> nat" where
  "engine_fuel en e i =
     (case Option.bind (run (en_db e) i) (\<lambda>r. env_factory en (fr_factory r)) of
        None \<Rightarrow> 2
      | Some f \<Rightarrow> budget_of f (tally_of f (counted_attempts (en_db e) i)) +
                 length (en_woken e i) + 2)"

definition enqueue :: "env \<Rightarrow> moment \<Rightarrow> factory_run \<Rightarrow> unit act" where
  "enqueue en now r = (\<lambda>e. enqueue_rounds (engine_fuel en e (fr_id r)) en now r e)"

definition advance :: "env \<Rightarrow> moment \<Rightarrow> uuid \<Rightarrow> step_result \<Rightarrow> factory_run act" where
  "advance en now = advance_by (enqueue en now) en now"

definition park :: "env \<Rightarrow> moment \<Rightarrow> uuid \<Rightarrow> step \<Rightarrow> unit act" where
  "park en now = park_by (advance en now) now"

end
