(* ===== verification/Run_Commands.thy ===== *)
theory Run_Commands
  imports Run_Handlers
begin

text \<open>
  What moves a run (\<open>FactoryRuns\<close> in src/src/kinby/hub/runs.py): intake, the user's commands, the
  signals, the timers, the instances' answers, and the start of the hub. Each definition here is one
  handler of the code, which nothing interrupts: a coroutine that waits is split where it waits.
\<close>

section \<open>Commands\<close>

definition restart :: "env \<Rightarrow> moment \<Rightarrow> factory_run \<Rightarrow> string option \<Rightarrow> factory_run act" where
  "restart en now r step_id =
     and_then (on_db (\<lambda>db. restart_run now db (fr_id r) step_id)) (\<lambda>moved.
     and_then (publish moved) (\<lambda>_.
     and_then (enqueue en now moved) (\<lambda>_.
     ret moved)))"

text \<open>The instance's place in its factory, and that factory's file, if it has one.\<close>

definition membership :: "env \<Rightarrow> hub_db \<Rightarrow> uuid \<Rightarrow> (factory_member \<times> factory_file) option" where
  "membership en hub i =
     Option.bind (Option.bind (instance_record hub i) mi_factory)
       (\<lambda>fm. map_option (Pair fm) (env_factory en (fm_factory fm)))"

definition held_commands :: "env \<Rightarrow> string \<Rightarrow> (string, string list) dict" where
  "held_commands en path = (case env_commands en path of None \<Rightarrow> [] | Some d \<Rightarrow> d)"

definition missing_commands :: "env \<Rightarrow> factory_file \<Rightarrow> string \<Rightarrow> string \<Rightarrow> string list" where
  "missing_commands en f role path =
     (let needed = command_lists f role;
          held = (if needed = [] then [] else held_commands en path)
      in filter (\<lambda>n. n \<notin> fst ` set held) needed)"

definition intake_run ::
  "env \<Rightarrow> uuid \<Rightarrow> moment \<Rightarrow> uuid \<Rightarrow> string \<Rightarrow> (string, step_value) dict \<Rightarrow> factory_run act" where
  "intake_run en new_id now i routine work_item = (\<lambda>e.
     case (instance_record (en_hub e) i, membership en (en_hub e) i) of
       (Some rec, Some (fm, f)) \<Rightarrow>
         if (in_instance (ff_intake f), in_routine (ff_intake f)) \<noteq> (fm_name fm, routine)
         then (Inl (Not_An_Intake routine), e)
         else if work_item_errors (ff_work_item f) work_item \<noteq> []
         then (Inl (Invalid_Work_Item (work_item_errors (ff_work_item f) work_item)), e)
         else if missing_commands en f (fm_name fm) (mi_path rec) \<noteq> []
         then (Inl (Repository_Commands_Missing
                     (missing_commands en f (fm_name fm) (mi_path rec))), e)
         else if ff_steps f = [] then (Inl Index_Error, e)
         else
           and_then (on_db (\<lambda>db. open_run new_id now db i (fm_factory fm) work_item
                              (st_id (hd (ff_steps f))))) (\<lambda>(r, started).
           if started then
             and_then (publish r) (\<lambda>_. and_then (enqueue en now r) (\<lambda>_. ret r))
           else if fr_status r = Needs_Human then restart en now r (fr_step r)
           else ret r) e
     | _ \<Rightarrow> (Inl (Not_An_Intake routine), e))"

definition needing_human :: "factory_run \<Rightarrow> factory_run act" where
  "needing_human r =
     (if fr_status r \<noteq> Needs_Human then throw (Run_Needs_No_Human (fr_id r)) else ret r)"

text \<open>Whether the run is parked at an approve step, for the user to approve or send back.\<close>

definition awaits_approval :: "factory_file option \<Rightarrow> factory_run \<Rightarrow> bool" where
  "awaits_approval f r \<longleftrightarrow> fr_status r = Parked \<and>
     (case Option.bind f (\<lambda>g. Option.bind (fr_step r) (step_of g)) of
        None \<Rightarrow> False | Some s \<Rightarrow> is_approve (st_kind s))"

definition retry :: "env \<Rightarrow> moment \<Rightarrow> uuid \<Rightarrow> factory_run act" where
  "retry en now i =
     and_then (existing i) (\<lambda>found.
     and_then (needing_human found) (\<lambda>r.
     restart en now r (fr_step r)))"

definition send_back :: "env \<Rightarrow> moment \<Rightarrow> uuid \<Rightarrow> string \<Rightarrow> factory_run act" where
  "send_back en now i step_id =
     and_then (existing i) (\<lambda>r.
     let f = env_factory en (fr_factory r); approving = awaits_approval f r in
     and_then (if approving then ret r else needing_human r) (\<lambda>_.
     if step_id \<notin> set (earlier_ids f (fr_step r)) then throw (Not_An_Earlier_Step step_id)
     else
       and_then (if approving
         then set_db (\<lambda>db. end_attempt now db i (plain_result Clean
                (''The user sent the run back to \"'' @ step_id @ ''\".'')))
         else ret ()) (\<lambda>_.
       restart en now r (Some step_id))))"

definition approve :: "env \<Rightarrow> moment \<Rightarrow> uuid \<Rightarrow> factory_run act" where
  "approve en now i =
     and_then (existing i) (\<lambda>r.
     if \<not> awaits_approval (env_factory en (fr_factory r)) r
     then throw (Run_Awaits_No_Approval i)
     else advance en now i (plain_result Clean ''The user approved it.''))"

definition cancel :: "env \<Rightarrow> moment \<Rightarrow> uuid \<Rightarrow> factory_run act" where
  "cancel en now i =
     and_then (existing i) (\<lambda>r.
     and_then (if fr_status r = Parked
       then and_then (disarm i) (\<lambda>_.
            and_then (set_db (\<lambda>db. end_attempt now db i
              (plain_result Clean ''The user cancelled the run.''))) (\<lambda>_.
            ret r))
       else needing_human r) (\<lambda>_.
     move en now i Cancelled (fr_step r)))"

text \<open>What came of the user's reply to a needs-human notification, or \<open>None\<close> when the run moved.\<close>

definition answer_stop :: "env \<Rightarrow> moment \<Rightarrow> run_stop_ref \<Rightarrow> string \<Rightarrow> string option act" where
  "answer_stop en now stop option_text = (\<lambda>e.
     let i = ref_run stop in
     case run (en_db e) i of
       None \<Rightarrow> (Inr None, e)
     | Some r \<Rightarrow>
         if fr_status r \<noteq> Needs_Human \<or> stop_generation (en_db e) i \<noteq> ref_generation stop
         then (Inr None, e)
         else if option_text = RETRY
         then and_then (retry en now i) (\<lambda>_. ret (Some ''Retried.'')) e
         else if option_text = CANCEL
         then and_then (cancel en now i) (\<lambda>_. ret (Some ''Cancelled.'')) e
         else
           (let step_id = (if starts_with option_text SEND_BACK
                           then drop (length SEND_BACK) option_text else option_text)
            in and_then (send_back en now i step_id)
                 (\<lambda>_. ret (Some (''Sent back to \"'' @ step_id @ ''\".''))) e))"

section \<open>Signals\<close>

fun json_field :: "json \<Rightarrow> string list \<Rightarrow> json" where
  "json_field found [] = found"
| "json_field (J_Object flds) (k # ks) =
     json_field (case map_of flds k of None \<Rightarrow> J_Null | Some v \<Rightarrow> v) ks"
| "json_field _ (k # ks) = J_Null"

definition signal_field :: "signal \<Rightarrow> json \<Rightarrow> string \<Rightarrow> json" where
  "signal_field s body field =
     (case partition_at CHR ''.'' field of
        (root, path) \<Rightarrow>
          if root = ''routine'' then J_Str (sn_routine s)
          else if root = ''headers''
          then (case sn_headers s path of None \<Rightarrow> J_Null | Some h \<Rightarrow> J_Str h)
          else json_field body (split_on CHR ''.'' path))"

text \<open>A JSON value of a type that a filter's value can have.\<close>

fun json_value :: "json \<Rightarrow> step_value option" where
  "json_value (J_Bool b) = Some (VBool b)"
| "json_value (J_Int i) = Some (VInt i)"
| "json_value (J_Str s) = Some (VStr s)"
| "json_value _ = None"

text \<open>Whether the signal carries every field of a filter, each of its type and value.\<close>

definition signal_matches ::
  "signal_filter \<Rightarrow> signal \<Rightarrow> json \<Rightarrow> (string, step_value) dict \<Rightarrow> bool" where
  "signal_matches flds s body held =
     list_all (\<lambda>(field, expected).
       let wanted = (case run_value_name expected of
             Some n \<Rightarrow> map_of held n | None \<Rightarrow> Some expected)
       in wanted \<noteq> None \<and> json_value (signal_field s body field) = wanted) flds"

text \<open>The run's values that filters may name. They are read only when one names a value.\<close>

definition held_for ::
  "run_db \<Rightarrow> factory_run \<Rightarrow> factory_file \<Rightarrow> signal_filter list \<Rightarrow> (string, step_value) dict" where
  "held_for db r f filters =
     (if list_ex (list_ex (\<lambda>(field, expected). run_value_name expected \<noteq> None)) filters
      then dict_union (fr_work_item r) (results f (attempts db (fr_id r)) None) else [])"

fun each :: "('a \<Rightarrow> unit act) \<Rightarrow> 'a list \<Rightarrow> unit act" where
  "each f [] = ret ()"
| "each f (x # xs) = and_then (f x) (\<lambda>_. each f xs)"

text \<open>Move on a run parked at a wait that the signal matches.\<close>

definition wake_parked ::
  "env \<Rightarrow> moment \<Rightarrow> factory_file \<Rightarrow> signal \<Rightarrow> json \<Rightarrow> factory_run \<Rightarrow> unit act" where
  "wake_parked en now f s body r = (\<lambda>e.
     case Option.bind (fr_step r) (step_of f) of
       None \<Rightarrow> (Inr (), e)
     | Some st \<Rightarrow>
         if fr_status r = Parked \<and> is_wait (st_kind st) \<and>
            list_ex (\<lambda>flds. signal_matches flds s body
              (held_for (en_db e) r f (signals_of st))) (signals_of st)
         then and_then (disarm (fr_id r)) (\<lambda>_.
              and_then (advance en now (fr_id r) (plain_result Clean
                (''A signal on routine \"'' @ sn_routine s @ ''\" matched.''))) (\<lambda>_.
              ret ())) e
         else (Inr (), e))"

text \<open>Note the waits the signal matches for a run still on its way to them.\<close>

definition note_waits ::
  "factory_file \<Rightarrow> signal \<Rightarrow> json \<Rightarrow> factory_run \<Rightarrow> unit act" where
  "note_waits f s body r = (\<lambda>e.
     let waits = filter (\<lambda>st. is_wait (st_kind st)) (ff_steps f);
         held = held_for (en_db e) r f (concat (map signals_of waits));
         matched = map st_id (filter (\<lambda>st.
           list_ex (\<lambda>flds. signal_matches flds s body held) (signals_of st)) waits)
     in (Inr (), if fr_status r \<in> {Queued, Running}
         then e\<lparr>en_woken := (en_woken e)(fr_id r := fold List.insert matched (en_woken e (fr_id r)))\<rparr>
         else e))"

text \<open>End a run that needs a human, when a closing signal says its work finished elsewhere.\<close>

definition close_run ::
  "env \<Rightarrow> moment \<Rightarrow> factory_file \<Rightarrow> signal \<Rightarrow> json \<Rightarrow> factory_run \<Rightarrow> unit act" where
  "close_run en now f s body r = (\<lambda>e.
     let c = ff_closing f; held = held_for (en_db e) r f (cs_done c @ cs_cancelled c);
         hit = list_ex (\<lambda>flds. signal_matches flds s body held)
     in if fr_status r \<noteq> Needs_Human then (Inr (), e)
        else if hit (cs_done c)
        then and_then (move en now (fr_id r) Done None) (\<lambda>_. ret ()) e
        else if hit (cs_cancelled c)
        then and_then (move en now (fr_id r) Cancelled (fr_step r)) (\<lambda>_. ret ()) e
        else (Inr (), e))"

definition signal_accepted :: "env \<Rightarrow> moment \<Rightarrow> uuid \<Rightarrow> signal \<Rightarrow> unit act" where
  "signal_accepted en now i s = (\<lambda>e.
     case membership en (en_hub e) i of
       None \<Rightarrow> (Inr (), e)
     | Some (fm, f) \<Rightarrow>
       (let owner = (if fm_name fm = in_instance (ff_intake f) then Some i else None);
            body = (case env_json en (sn_body s) of None \<Rightarrow> J_Null | Some j \<Rightarrow> j);
            unfinished = runs (en_db e) (Some (fm_factory fm)) (Some UNFINISHED) owner None None
        in and_then (each (wake_parked en now f s body) unfinished) (\<lambda>_.
           and_then (each (note_waits f s body) unfinished) (\<lambda>_.
           each (close_run en now f s body) unfinished)) e))"

section \<open>Timers\<close>

text \<open>A park's timer runs out: it leaves the table first, then moves the run on.\<close>

definition timer_fired :: "env \<Rightarrow> moment \<Rightarrow> uuid \<Rightarrow> unit act" where
  "timer_fired en now i = (\<lambda>e.
     case en_deadlines e i of
       None \<Rightarrow> (Inl Key_Error, e)
     | Some (Expire due result) \<Rightarrow>
         and_then (disarm i) (\<lambda>_. and_then (advance en now i result) (\<lambda>_. ret ())) e
     | Some (Wake due step_id) \<Rightarrow>
         and_then (disarm i) (\<lambda>_.
         and_then (move en now i Queued step_id) (\<lambda>moved.
         enqueue en now moved)) e)"

text \<open>
  The task of a timer that lost its place in the table runs out. It takes the run's place out of the
  table whoever holds it, whose own task then is a stray in its turn, and moves the run on.
\<close>

definition stray_fired :: "env \<Rightarrow> moment \<Rightarrow> nat \<Rightarrow> unit act" where
  "stray_fired en now k = (\<lambda>e.
     if length (en_strays e) \<le> k then (Inr (), e)
     else case en_strays e ! k of (i, t) \<Rightarrow>
       (let rest = take k (en_strays e) @ drop (Suc k) (en_strays e)
        in case en_deadlines e i of
             None \<Rightarrow> (Inl Key_Error, e\<lparr>en_strays := rest\<rparr>)
           | Some t' \<Rightarrow>
               and_then (change (\<lambda>e. e\<lparr>en_deadlines := (en_deadlines e)(i := None),
                   en_strays := rest @ [(i, t')]\<rparr>)) (\<lambda>_.
               case t of
                 Expire due result \<Rightarrow> and_then (advance en now i result) (\<lambda>_. ret ())
               | Wake due step_id \<Rightarrow> and_then (move en now i Queued step_id) (enqueue en now)) e))"

section \<open>Instances' answers\<close>

text \<open>An instance's answer to a call: the result, or that it provably never took the call, or that its answer was lost.\<close>

datatype answer = Answered step_result | Undelivered | Answer_Lost

text \<open>\<open>_deliver\<close> before it sends: a step with no attempt open begins one, and the call names it.\<close>

definition deliver_begin :: "moment \<Rightarrow> queued_step \<Rightarrow> step_run_command act" where
  "deliver_begin now q =
     and_then (on_db (\<lambda>db. begin_attempt now db (qs_run q) (qs_step q) Running)) (\<lambda>running.
     and_then (publish running) (\<lambda>_ e.
       case attempts (en_db e) (qs_run q) of
         [] \<Rightarrow> (Inl Index_Error, e)
       | as \<Rightarrow> (Inr ((qs_command q)\<lparr>src_attempt := Some (at_attempt (last as))\<rparr>), e)))"

text \<open>
  The answer to a send: \<open>Some\<close> what the next send keeps when the step is sent again (the command
  of an attempt still open, or none), \<open>None\<close> once the attempt is settled.
\<close>

definition deliver_answer ::
  "env \<Rightarrow> moment \<Rightarrow> queued_step \<Rightarrow> step_run_command \<Rightarrow> answer \<Rightarrow> step_run_command option option act" where
  "deliver_answer en now q command ans =
     (case ans of
        Answered result \<Rightarrow> and_then (advance en now (qs_run q) result) (\<lambda>_. ret None)
      | Undelivered \<Rightarrow>
          and_then (on_db (\<lambda>db. drop_attempt now db (qs_run q))) (\<lambda>dropped.
          and_then (publish dropped) (\<lambda>_. ret (Some None)))
      | Answer_Lost \<Rightarrow> ret (Some (Some command)))"

text \<open>After the backoff: an instance that is gone gives its step back. True when it is sent again.\<close>

definition deliver_again ::
  "env \<Rightarrow> moment \<Rightarrow> uuid \<Rightarrow> queued_step \<Rightarrow> step_run_command option \<Rightarrow> bool act" where
  "deliver_again en now inst q command = (\<lambda>e.
     if (case instance_record (en_hub e) inst of None \<Rightarrow> False | Some m \<Rightarrow> active m)
     then (Inr True, e)
     else
       and_then (if command \<noteq> None
         then and_then (on_db (\<lambda>db. drop_attempt now db (qs_run q))) publish else ret ()) (\<lambda>_.
       and_then (existing (qs_run q)) (\<lambda>r.
       and_then (enqueue en now r) (\<lambda>_.
       ret False))) e)"

definition stale :: "run_db \<Rightarrow> queued_report \<Rightarrow> bool" where
  "stale db q \<longleftrightarrow>
     (case run db (qr_run q) of
        None \<Rightarrow> True
      | Some r \<Rightarrow> fr_status r \<noteq> qr_status q \<or> stop_generation db (fr_id r) \<noteq> qr_generation q)"

text \<open>The answer to a report's call: \<open>Some\<close> the report to queue again after its wait.\<close>

definition report_answered :: "queued_report \<Rightarrow> answer \<Rightarrow> queued_report option act" where
  "report_answered q ans =
     (case ans of
        Answered result \<Rightarrow>
          if sr_ending result = Clean
          then and_then (set_db (\<lambda>db. if qr_status q \<in> set ENDS then mark_ended_called db (qr_run q)
                 else mark_reported db (qr_run q) (qr_generation q))) (\<lambda>_. ret None)
          else ret (Some (q\<lparr>qr_waited := next_backoff (qr_waited q)\<rparr>))
      | _ \<Rightarrow> ret (Some (q\<lparr>qr_waited := next_backoff (qr_waited q)\<rparr>)))"

text \<open>The instance took the stop, or did not: then it is told again after its wait.\<close>

definition stop_told :: "queued_stop \<Rightarrow> bool \<Rightarrow> queued_stop option act" where
  "stop_told q told =
     (if told
      then and_then (set_db (\<lambda>db. mark_told db (rs_run (qp_stop q)) (rs_generation (qp_stop q))))
             (\<lambda>_. ret None)
      else ret (Some (q\<lparr>qp_waited := next_backoff (qp_waited q)\<rparr>)))"

section \<open>The start of the hub\<close>

text \<open>Arm a run the previous process left parked.\<close>

definition rearm :: "env \<Rightarrow> factory_run \<Rightarrow> unit act" where
  "rearm en r = (\<lambda>e.
     case fr_wakes_at r of
       Some t \<Rightarrow> set_timer (fr_id r) (Wake t (fr_step r)) e
     | None \<Rightarrow>
       (case Option.bind (env_factory en (fr_factory r))
               (\<lambda>f. Option.bind (fr_step r) (step_of f)) of
          None \<Rightarrow> (Inr (), e)
        | Some s \<Rightarrow>
            if \<not> is_wait (st_kind s) then (Inr (), e)
            else case attempts (en_db e) (fr_id r) of
                   [] \<Rightarrow> (Inl Index_Error, e)
                 | as \<Rightarrow> arm (fr_id r) s (at_started (last as)) e))"

definition report_again :: "env \<Rightarrow> factory_run \<Rightarrow> unit act" where
  "report_again en r = (\<lambda>e.
     case env_factory en (fr_factory r) of
       None \<Rightarrow> (Inr (), e)
     | Some f \<Rightarrow>
       (case ff_needs_human f of
          None \<Rightarrow> (Inr (), e)
        | Some call \<Rightarrow>
            (let as = attempts (en_db e) (fr_id r)
             in report f call r (Some (if as = [] then [] else at_summary (last as))) e)))"

definition call_end_again :: "env \<Rightarrow> factory_run \<Rightarrow> unit act" where
  "call_end_again en r =
     (case env_factory en (fr_factory r) of
        None \<Rightarrow> ret ()
      | Some f \<Rightarrow> (case ff_ended f of None \<Rightarrow> ret () | Some call \<Rightarrow> report f call r None))"

definition resume :: "env \<Rightarrow> moment \<Rightarrow> unit act" where
  "resume en now = (\<lambda>e.
     let pending = unreported_runs (en_db e); uncalled = uncalled_ends (en_db e);
         untold = untold_stops (en_db e)
     in and_then (case untold of Inl err \<Rightarrow> throw (Registry_Error err) | Inr _ \<Rightarrow> ret ()) (\<lambda>_.
        and_then (each (\<lambda>i. and_then (on_db (\<lambda>db. drop_attempt now db i)) (\<lambda>_. ret ()))
          (unfinished_attempts (en_db e))) (\<lambda>_.
        and_then (\<lambda>e. each (enqueue en now) (runs_in (en_db e) Queued) e) (\<lambda>_.
        and_then (\<lambda>e. each (rearm en) (runs_in (en_db e) Parked) e) (\<lambda>_.
        and_then (each (report_again en) pending) (\<lambda>_.
        and_then (each (call_end_again en) uncalled) (\<lambda>_.
        each (\<lambda>s. put_stop \<lparr>qp_stop = s, qp_waited = 0\<rparr>)
          (case untold of Inl _ \<Rightarrow> [] | Inr ss \<Rightarrow> ss))))))) e)"

section \<open>Reading\<close>

definition get_run :: "env \<Rightarrow> uuid \<Rightarrow> (factory_run \<times> step_attempt list \<times> string list) act" where
  "get_run en i =
     and_then (existing i) (\<lambda>r e.
       (Inr (r, attempts (en_db e) i, earlier_ids (env_factory en (fr_factory r)) (fr_step r)), e))"

definition list_runs :: "engine \<Rightarrow> string \<Rightarrow> run_status option \<Rightarrow> uuid option \<Rightarrow> factory_run list" where
  "list_runs e factory status inst =
     runs (en_db e) (Some factory) (map_option (\<lambda>s. [s]) status) inst None None"

text \<open>How many runs of the instance's factory need the user at a step in that instance.\<close>

definition runs_needing_human ::
  "engine \<Rightarrow> managed_instance \<Rightarrow> factory_file option \<Rightarrow> nat" where
  "runs_needing_human e rec f =
     (case (mi_factory rec, f) of
        (Some fm, Some g) \<Rightarrow>
          (let count = (\<lambda>owner. length (filter (\<lambda>r.
                 (fr_status r = Needs_Human \<or> awaits_approval (Some g) r) \<and>
                 instance_of g (fr_step r) = fm_name fm)
               (runs (en_db e) (Some (fm_factory fm)) (Some [Needs_Human, Parked]) owner None None)))
           in if fm_name fm = in_instance (ff_intake g) then count (Some (mi_id rec))
              else if first_in (en_hub e) (fm_factory fm) (fm_name fm) = Some (mi_id rec)
              then count None else 0)
      | _ \<Rightarrow> 0)"

end
