(* ===== verification/Run_Budget.thy ===== *)
theory Run_Budget
  imports Run_Handlers Run_Rules_Laws Run_Tables_Laws
begin

text \<open>
  What a run may still use up (\<open>budget_of\<close>) when its steps cannot start: each attempt that fails
  and queues the run again takes one from a step's retries or from an edge's send-backs, so only
  so many can follow one another. \<open>engine_fuel\<close> is built from it.
\<close>

section \<open>Attempts that end\<close>

text \<open>The attempts before and after the open ones among them ended.\<close>

definition closes :: "step_attempt list \<Rightarrow> step_attempt list \<Rightarrow> bool" where
  "closes as as' \<longleftrightarrow> list_all2 (\<lambda>a a'. at_step a' = at_step a \<and> (a' = a \<or> at_ending a = None)) as as'"

lemma open_counts_for_nothing [simp]:
  "at_ending a = None \<Longrightarrow> \<not> counts_as_failure f a"
  "at_ending a = None \<Longrightarrow> sent_to f a = None"
  by (simp_all add: counts_as_failure_def sent_to_def failed_to_def split: option.splits)

lemma list_all2_filter_le:
  "list_all2 (\<lambda>a b. P a \<longrightarrow> P b) xs ys \<Longrightarrow> length (filter P xs) \<le> length (filter P ys)"
  by (induction rule: list_all2_induct) auto

lemma list_all2_filter_less:
  assumes "list_all2 (\<lambda>a b. P a \<longrightarrow> P b) xs ys" "k < length xs" "\<not> P (xs ! k)" "P (ys ! k)"
  shows "length (filter P xs) < length (filter P ys)"
  using assms
proof (induction arbitrary: k rule: list_all2_induct)
  case (Cons x xs y ys)
  show ?case
  proof (cases k)
    case 0
    with Cons.hyps Cons.prems list_all2_filter_le [of P xs ys] show ?thesis by simp
  next
    case (Suc m)
    with Cons have "length (filter P xs) < length (filter P ys)" by (intro Cons.IH [of m]) simp_all
    with Cons.hyps show ?thesis by auto
  qed
qed simp

lemma closes_counts:
  assumes "closes as as'"
  shows "count_of (ty_failures (tally_of f as)) i \<le> count_of (ty_failures (tally_of f as')) i"
    "count_of (ty_sent_back (tally_of f as)) edge \<le> count_of (ty_sent_back (tally_of f as')) edge"
proof -
  show "count_of (ty_failures (tally_of f as)) i \<le> count_of (ty_failures (tally_of f as')) i"
    unfolding tally_of_counts
    by (rule list_all2_filter_le, rule list_all2_mono [OF assms [unfolded closes_def]]) auto
  obtain j b where edge: "edge = (j, b)" by (cases edge)
  show "count_of (ty_sent_back (tally_of f as)) edge \<le> count_of (ty_sent_back (tally_of f as')) edge"
    unfolding edge tally_of_counts
    by (rule list_all2_filter_le, rule list_all2_mono [OF assms [unfolded closes_def]]) auto
qed

section \<open>The budget\<close>

lemma sum_list_less:
  "(\<And>x. x \<in> set xs \<Longrightarrow> f x \<le> (g x :: nat)) \<Longrightarrow> x \<in> set xs \<Longrightarrow> f x < g x \<Longrightarrow>
     sum_list (map f xs) < sum_list (map g xs)"
proof (induction xs)
  case (Cons y xs)
  have le: "sum_list (map f xs) \<le> sum_list (map g xs)"
    using Cons.prems(1) by (intro sum_list_mono) simp
  show ?case
  proof (cases "x = y")
    case True
    with Cons.prems(3) le show ?thesis by simp
  next
    case False
    with Cons.prems have "sum_list (map f xs) < sum_list (map g xs)" by (intro Cons.IH) auto
    moreover have "f y \<le> g y" using Cons.prems(1) by simp
    ultimately show ?thesis by simp
  qed
qed simp

definition left_of :: "tally \<Rightarrow> step \<Rightarrow> nat" where
  "left_of t s = (case st_failed s of
       Some (Send_Back dest most) \<Rightarrow> most - count_of (ty_sent_back t) (st_id s, dest)
     | None \<Rightarrow> retries s - count_of (ty_failures t) (st_id s))"

lemma budget_of_left: "budget_of f t = sum_list (map (left_of t) (ff_steps f))"
  by (simp add: budget_of_def left_of_def [abs_def])

lemma left_of_mono:
  assumes "\<And>i. count_of (ty_failures t) i \<le> count_of (ty_failures t') i"
    "\<And>edge. count_of (ty_sent_back t) edge \<le> count_of (ty_sent_back t') edge"
  shows "left_of t' s \<le> left_of t s"
  using assms by (auto simp: left_of_def diff_le_mono2 split: option.splits send_back.splits)

lemma budget_closes:
  assumes "closes as as'"
  shows "budget_of f (tally_of f as') \<le> budget_of f (tally_of f as)"
  unfolding budget_of_left using closes_counts [OF assms]
  by (intro sum_list_mono left_of_mono) simp_all

text \<open>A failed attempt that queues its run again costs the run at least one.\<close>

lemma failed_round_costs:
  assumes "step_of f j = Some s" "settled f s r held (tally_of f as) = (r', Queued, dest)"
    and "sr_ending r = Failed" "closes as as'"
    and "k < length as" "at_step (as ! k) = j" "at_ending (as ! k) = None" "at_ending (as' ! k) = Some (sr_ending r')"
  shows "budget_of f (tally_of f as') < budget_of f (tally_of f as)"
proof -
  have s: "s \<in> set (ff_steps f)" "st_id s = j"
    using assms(1) find_Some_key [of st_id j "ff_steps f" s] by (simp_all add: step_of_def)
  have as': "at_step (as' ! k) = j"
    using assms(4-6) by (simp add: closes_def list_all2_conv_all_nth)
  have "settled_failure s r (tally_of f as) = (r', Queued, dest)"
    using assms(2,3) by (simp add: settled_def)
  then have "left_of (tally_of f as') s < left_of (tally_of f as) s"
  proof (cases rule: settled_failure_cases)
    case (sent most d)
    have "count_of (ty_sent_back (tally_of f as)) (j, d) < count_of (ty_sent_back (tally_of f as')) (j, d)"
      unfolding tally_of_counts
    proof (rule list_all2_filter_less [OF _ assms(5)])
      show "list_all2 (\<lambda>a b. at_step a = j \<and> sent_to f a = Some d \<longrightarrow> at_step b = j \<and> sent_to f b = Some d) as as'"
        by (rule list_all2_mono [OF assms(4) [unfolded closes_def]]) auto
      show "at_step (as' ! k) = j \<and> sent_to f (as' ! k) = Some d"
        using sent as' assms(1,8) by (simp add: sent_to_def failed_to_def)
    qed (use assms(7) in simp)
    with sent s show ?thesis by (simp add: left_of_def)
  next
    case again
    have "count_of (ty_failures (tally_of f as)) j < count_of (ty_failures (tally_of f as')) j"
      unfolding tally_of_counts
    proof (rule list_all2_filter_less [OF _ assms(5)])
      show "list_all2 (\<lambda>a b. at_step a = j \<and> counts_as_failure f a \<longrightarrow> at_step b = j \<and> counts_as_failure f b) as as'"
        by (rule list_all2_mono [OF assms(4) [unfolded closes_def]]) auto
      show "at_step (as' ! k) = j \<and> counts_as_failure f (as' ! k)"
        using again as' assms(1,3,8) by (simp add: counts_as_failure_def failed_to_def)
    qed (use assms(7) in simp)
    with again s assms(3) show ?thesis by (simp add: left_of_def)
  qed simp_all
  with s closes_counts [OF assms(4)] show ?thesis
    unfolding budget_of_left by (intro sum_list_less [of _ _ _ s] left_of_mono) simp_all
qed

lemma end_attempt_closes:
  assumes "run_db_ok db"
  shows "closes (counted_attempts db i) (counted_attempts (end_attempt now db i result) i)"
proof -
  let ?g = "\<lambda>a. if open_attempt i a then ended_row now result a else a"
  define k where "k = (case row_of db i of None \<Rightarrow> 0 | Some r \<Rightarrow> rr_restarted_after r)"
  have g: "ar_run (?g a) = ar_run a" "ar_rowid (?g a) = ar_rowid a" for a by simp_all
  have counted: "counted_attempts d i = map step_attempt_of (filter (\<lambda>a. ar_run a = i \<and> k < ar_rowid a) (attempt_rows d))"
    if "run_rows d = run_rows db" for d
    by (simp add: counted_attempts_def attempts_after_def k_def that)
  have "\<forall>a \<in> set (attempt_rows db). closed a \<longleftrightarrow> ar_ending a \<noteq> None"
    using assms by (simp add: run_db_ok_def attempts_ok_def)
  then have "list_all2 (\<lambda>a a'. at_step a' = at_step a \<and> (a' = a \<or> at_ending a = None))
      (map step_attempt_of (filter (\<lambda>a. ar_run a = i \<and> k < ar_rowid a) rows))
      (map step_attempt_of (filter (\<lambda>a. ar_run a = i \<and> k < ar_rowid a) (map ?g rows)))"
    if "set rows \<subseteq> set (attempt_rows db)" for rows
    using that by (induction rows) (auto simp: open_attempt_def)
  then show ?thesis
    by (simp only: closes_def counted counted [OF end_attempt_rows(2)] end_attempt_rows)
qed

end
