(* ===== verification/Run_Protocol.thy ===== *)
theory Run_Protocol
  imports Run_Commands Run_Budget "HOL-Library.Multiset"
begin

text \<open>
  The protocol the runs engine keeps between its handlers. For each run: at most one of its steps
  waits in a queue or is with a worker, and then the run is queued or running; a queued or stopped
  run has no open attempt, and no run has two; a timer runs only for a parked run; a run parked
  until its plan window resets has no open attempt. No run is left behind either: a queued run's
  step waits in a queue or is with a worker, a running one's is with a worker, and a parked one
  waits for its timer, a signal or the user (\<open>under_way\<close>). The invariant (\<open>engine_ok\<close>) is stated for
  the engine's state and for what the workers hold; the runs a handler is at work on (\<open>away\<close>) are
  under way again when it returns. Every piece of a handler that is given what it needs returns,
  and leaves what the next piece needs (\<open>leads\<close>).
\<close>

named_theorems core_simps \<open>predicates that read only the core of the engine's state\<close>

section \<open>What the engine holds of a run\<close>

fun steps_in :: "uuid \<Rightarrow> queued list \<Rightarrow> queued_step multiset" where
  "steps_in j [] = {#}"
| "steps_in j (Q_Step s # qs) = (if qs_run s = j then {#s#} else {#}) + steps_in j qs"
| "steps_in j (Q_Report _ # qs) = steps_in j qs"
| "steps_in j (Q_Stop _ # qs) = steps_in j qs"

fun steps_queued :: "uuid \<Rightarrow> (uuid, queued list) dict \<Rightarrow> queued_step multiset" where
  "steps_queued j [] = {#}"
| "steps_queued j ((i, qs) # d) = steps_in j qs + steps_queued j d"

definition queued_steps :: "engine \<Rightarrow> uuid \<Rightarrow> queued_step multiset" where
  "queued_steps e j = steps_queued j (en_queues e)"

lemma steps_in_append [simp]: "steps_in j (xs @ ys) = steps_in j xs + steps_in j ys"
  by (induction j xs rule: steps_in.induct) auto

lemma steps_queued_put:
  "steps_queued j (dict_set i (dict_get d i [] @ [q]) d) = steps_queued j d + steps_in j [q]"
proof (induction d)
  case (Cons kv d)
  then show ?case by (cases kv) (auto simp: dict_set_def dict_get_def)
qed (simp add: dict_set_def dict_get_def)

lemma steps_queued_pop:
  "map_of d i = Some (q # qs) \<Longrightarrow> steps_queued j d = steps_in j [q] + steps_queued j (dict_set i qs d)"
proof (induction d)
  case (Cons kv d)
  have "steps_in j (q # qs) = steps_in j [q] + steps_in j qs"
    using steps_in_append [of j "[q]" qs] by simp
  with Cons show ?case by (cases kv) (auto simp: dict_set_def split: if_splits)
qed simp

text \<open>
  What is outside the engine's tables: the step of each run that a worker holds, if one does, and
  whether its attempt is open; and the timers that lost their place.
\<close>

record busy =
  holding :: "uuid \<Rightarrow> (bool \<times> string) option"
  strays :: "(uuid \<times> timer) list"

definition step_at :: "env \<Rightarrow> string \<Rightarrow> string option \<Rightarrow> step option" where
  "step_at en factory i = Option.bind (env_factory en factory) (\<lambda>f. Option.bind i (step_of f))"

definition approve_at :: "env \<Rightarrow> string \<Rightarrow> string option \<Rightarrow> bool" where
  "approve_at en factory i \<longleftrightarrow> (case step_at en factory i of None \<Rightarrow> False | Some s \<Rightarrow> is_approve (st_kind s))"

text \<open>Whether a run parked at the step waits for a signal or the user alone.\<close>

definition untimed_at :: "env \<Rightarrow> string \<Rightarrow> string option \<Rightarrow> bool" where
  "untimed_at en factory i \<longleftrightarrow>
     (case step_at en factory i of None \<Rightarrow> True | Some s \<Rightarrow> first_end (wait_ends s) = None)"

definition open_attempts :: "run_db \<Rightarrow> uuid \<Rightarrow> attempt_row list" where
  "open_attempts db j = filter (\<lambda>a. \<not> closed a) (attempts_of db j)"

lemma no_open_attempts: "no_open db j \<longleftrightarrow> open_attempts db j = []"
  by (auto simp: no_open_def open_attempts_def filter_empty_conv)

definition timer_ok :: "env \<Rightarrow> run_row \<Rightarrow> timer option \<Rightarrow> bool" where
  "timer_ok en r t \<longleftrightarrow>
     (case t of
        None \<Rightarrow> True
      | Some (Expire _ result) \<Rightarrow> rr_status r = Parked \<and> rr_wakes_at r = None \<and>
          \<not> approve_at en (rr_factory r) (rr_step r) \<and> sr_resets_at result = None
      | Some (Wake _ i) \<Rightarrow> rr_status r = Parked \<and> rr_wakes_at r \<noteq> None \<and> i = rr_step r)"

definition row_fine :: "env \<Rightarrow> run_db \<Rightarrow> run_row \<Rightarrow> bool" where
  "row_fine en db r \<longleftrightarrow>
     (rr_status r = Queued \<longrightarrow> no_open db (rr_id r)) \<and>
     (rr_status r \<noteq> Queued \<longrightarrow> attempts_of db (rr_id r) \<noteq> []) \<and>
     (rr_step r = None \<longrightarrow> rr_status r = Done) \<and>
     (rr_ended_call r \<longrightarrow> rr_status r \<in> set ENDS) \<and>
     (rr_wakes_at r \<noteq> None \<longrightarrow> rr_status r = Parked \<and> no_open db (rr_id r) \<and>
        \<not> approve_at en (rr_factory r) (rr_step r)) \<and>
     length (open_attempts db (rr_id r)) \<le> 1"

text \<open>Whether something will move the run on, or only the user can.\<close>

definition under_way :: "env \<Rightarrow> busy \<Rightarrow> engine \<Rightarrow> run_row \<Rightarrow> bool" where
  "under_way en busy e r \<longleftrightarrow>
     (case rr_status r of
        Queued \<Rightarrow> queued_steps e (rr_id r) \<noteq> {#} \<or> (\<exists>s. holding busy (rr_id r) = Some (False, s))
      | Running \<Rightarrow> (\<exists>s. holding busy (rr_id r) = Some (True, s)) \<and> open_attempts (en_db e) (rr_id r) \<noteq> []
      | Parked \<Rightarrow> (rr_wakes_at r = None \<longrightarrow> open_attempts (en_db e) (rr_id r) \<noteq> []) \<and>
          (en_deadlines e (rr_id r) = None \<longrightarrow>
             rr_wakes_at r = None \<and> untimed_at en (rr_factory r) (rr_step r))
      | _ \<Rightarrow> True)"

definition run_fine :: "env \<Rightarrow> busy \<Rightarrow> uuid set \<Rightarrow> engine \<Rightarrow> uuid \<Rightarrow> bool" where
  "run_fine en busy away e j \<longleftrightarrow>
     (case row_of (en_db e) j of
        None \<Rightarrow> queued_steps e j = {#} \<and> holding busy j = None \<and> en_deadlines e j = None
      | Some r \<Rightarrow>
          row_fine en (en_db e) r \<and> timer_ok en r (en_deadlines e j) \<and>
          size (queued_steps e j) \<le> 1 \<and>
          (queued_steps e j \<noteq> {#} \<longrightarrow> rr_status r = Queued \<and> holding busy j = None) \<and>
          (\<forall>q \<in># queued_steps e j. rr_step r = Some (qs_step q)) \<and>
          (\<forall>b s. holding busy j = Some (b, s) \<longrightarrow>
             rr_status r = (if b then Running else Queued) \<and> rr_step r = Some s) \<and>
          (queued_steps e j \<noteq> {#} \<or> holding busy j \<noteq> None \<longrightarrow> \<not> approve_at en (rr_factory r) (rr_step r)) \<and>
          (j \<in> away \<or> under_way en busy e r))"

definition engine_ok :: "env \<Rightarrow> busy \<Rightarrow> uuid set \<Rightarrow> engine \<Rightarrow> bool" where
  "engine_ok en busy away e \<longleftrightarrow> run_db_ok (en_db e) \<and> en_strays e = strays busy \<and> (\<forall>j. run_fine en busy away e j)"

lemma engine_ok_away:
  assumes "engine_ok en busy away e" "away \<subseteq> away'"
  shows "engine_ok en busy away' e"
proof -
  have "run_fine en busy away' e j" if "run_fine en busy away e j" for j
    using that assms(2) unfolding run_fine_def by (cases "row_of (en_db e) j") auto
  with assms(1) show ?thesis by (simp add: engine_ok_def)
qed

text \<open>Nothing of the engine is under way for the run.\<close>

definition idle :: "busy \<Rightarrow> engine \<Rightarrow> uuid \<Rightarrow> bool" where
  "idle busy e i \<longleftrightarrow> queued_steps e i = {#} \<and> holding busy i = None \<and> en_deadlines e i = None"

text \<open>What the run may still use up.\<close>

definition spend :: "env \<Rightarrow> engine \<Rightarrow> uuid \<Rightarrow> nat" where
  "spend en e i =
     (case Option.bind (run (en_db e) i) (\<lambda>r. env_factory en (fr_factory r)) of
        None \<Rightarrow> 0
      | Some f \<Rightarrow> budget_of f (tally_of f (counted_attempts (en_db e) i)) + length (en_woken e i))"

lemma spend_fuel: "spend en e i < engine_fuel en e i"
  by (simp add: spend_def engine_fuel_def split: option.splits)

text \<open>
  A run a handler is at work on, with nothing of it under way and none of its attempts open, that
  may spend less than \<open>n\<close>; and the same run as the handler has it.
\<close>

definition at_rest :: "env \<Rightarrow> busy \<Rightarrow> uuid set \<Rightarrow> nat \<Rightarrow> uuid \<Rightarrow> engine \<Rightarrow> bool" where
  "at_rest en busy away n i e \<longleftrightarrow> engine_ok en busy (insert i away) e \<and> idle busy e i \<and>
     no_open (en_db e) i \<and> spend en e i < n \<and> row_of (en_db e) i \<noteq> None"

definition rested :: "env \<Rightarrow> busy \<Rightarrow> uuid set \<Rightarrow> nat \<Rightarrow> uuid \<Rightarrow> factory_run \<Rightarrow> engine \<Rightarrow> bool" where
  "rested en busy away n i r e \<longleftrightarrow> at_rest en busy away n i e \<and> fr_id r = i \<and> run (en_db e) i = Some r"

section \<open>Pieces of a handler\<close>

text \<open>From a state where \<open>P\<close> holds, the piece returns a value with a state where \<open>Q\<close> holds.\<close>

definition leads :: "(engine \<Rightarrow> bool) \<Rightarrow> 'a act \<Rightarrow> ('a \<Rightarrow> engine \<Rightarrow> bool) \<Rightarrow> bool" where
  "leads P m Q \<longleftrightarrow> (\<forall>e. P e \<longrightarrow> (\<exists>x e'. m e = (Inr x, e') \<and> Q x e'))"

lemma leads_ret: "(\<And>e. P e \<Longrightarrow> Q x e) \<Longrightarrow> leads P (ret x) Q"
  by (simp add: leads_def)

lemma leads_change: "(\<And>e. P e \<Longrightarrow> Q () (g e)) \<Longrightarrow> leads P (change g) Q"
  by (simp add: leads_def)

lemma leads_and_then: "leads P m R \<Longrightarrow> (\<And>x. leads (R x) (k x) Q) \<Longrightarrow> leads P (and_then m k) Q"
  by (fastforce simp: leads_def)

lemma leads_weaken:
  "leads P m Q \<Longrightarrow> (\<And>e. P' e \<Longrightarrow> P e) \<Longrightarrow> (\<And>x e. Q x e \<Longrightarrow> Q' x e) \<Longrightarrow> leads P' m Q'"
  unfolding leads_def by metis

lemma leads_if: "(b \<Longrightarrow> leads P m Q) \<Longrightarrow> (\<not> b \<Longrightarrow> leads P n Q) \<Longrightarrow> leads P (if b then m else n) Q"
  by simp

text \<open>A piece is what it does in each state it may start in.\<close>

lemma leads_pointwise: "(\<And>e0. P e0 \<Longrightarrow> leads (\<lambda>e. e = e0) m Q) \<Longrightarrow> leads P m Q"
  by (simp add: leads_def)

lemma leads_same: "leads (\<lambda>e. e = e0) m' Q \<Longrightarrow> m e0 = m' e0 \<Longrightarrow> leads (\<lambda>e. e = e0) m Q"
  by (simp add: leads_def)

lemma leads_start: "leads P m Q \<Longrightarrow> P e0 \<Longrightarrow> leads (\<lambda>e. e = e0) m Q"
  by (simp add: leads_def)

lemma leads_on_db:
  "(\<And>e. P e \<Longrightarrow> \<exists>db x. f (en_db e) = Inr (db, x) \<and> Q x (e\<lparr>en_db := db\<rparr>)) \<Longrightarrow> leads P (on_db f) Q"
  by (fastforce simp: leads_def on_db_def)

text \<open>
  What the protocol reads of the engine's state. A quiet piece returns and changes nothing of it:
  only the subscribers, the notices, and the reports and stops in the queues.
\<close>

definition core ::
  "engine \<Rightarrow> run_db \<times> (uuid \<Rightarrow> timer option) \<times> (uuid \<times> timer) list \<times> (uuid \<Rightarrow> string list) \<times>
     (uuid \<Rightarrow> queued_step multiset)" where
  "core e = (en_db e, en_deadlines e, en_strays e, en_woken e, queued_steps e)"

definition on_core :: "(engine \<Rightarrow> bool) \<Rightarrow> bool" where
  "on_core P \<longleftrightarrow> (\<forall>e e'. core e' = core e \<longrightarrow> P e \<longrightarrow> P e')"

definition quiet :: "(engine \<Rightarrow> bool) \<Rightarrow> 'a act \<Rightarrow> bool" where
  "quiet P m \<longleftrightarrow> (\<forall>e. P e \<longrightarrow> core (snd (m e)) = core e \<and> (\<exists>x. fst (m e) = Inr x))"

lemma core_engine_ok: "core e' = core e \<Longrightarrow> engine_ok en busy away e' = engine_ok en busy away e"
  by (simp add: core_def engine_ok_def run_fine_def under_way_def cong: option.case_cong run_status.case_cong)

lemma core_idle: "core e' = core e \<Longrightarrow> idle busy e' i = idle busy e i"
  by (simp add: core_def idle_def)

lemma core_spend: "core e' = core e \<Longrightarrow> spend en e' i = spend en e i"
  by (simp add: core_def spend_def cong: option.case_cong)

lemma core_db: "core e' = core e \<Longrightarrow> en_db e' = en_db e"
  by (simp add: core_def)

lemma on_core_simple:
  "on_core (engine_ok en busy away)" "on_core (\<lambda>e. idle busy e i)" "on_core (\<lambda>e. spend en e i < n)"
  "on_core (\<lambda>e. F (en_db e))" "on_core (\<lambda>e. b)"
  unfolding on_core_def using core_engine_ok core_idle core_spend core_db by metis+

lemma on_core_conj: "on_core P \<Longrightarrow> on_core Q \<Longrightarrow> on_core (\<lambda>e. P e \<and> Q e)"
  unfolding on_core_def by blast

lemmas on_core_intros = on_core_conj on_core_simple

lemma on_core_at_rest: "on_core (at_rest en busy away n i)"
  unfolding at_rest_def [abs_def] by (intro on_core_intros)

lemma on_core_rested: "on_core (rested en busy away n i r)"
  unfolding rested_def [abs_def] by (intro on_core_conj on_core_at_rest on_core_simple)

lemma quiet_leads: "quiet P m \<Longrightarrow> on_core P \<Longrightarrow> leads P m (\<lambda>_. P)"
  unfolding leads_def quiet_def on_core_def by (metis prod.collapse)

lemma quiet_weaken: "quiet P m \<Longrightarrow> (\<And>e. P' e \<Longrightarrow> P e) \<Longrightarrow> quiet P' m"
  by (simp add: quiet_def)

lemma quiet_ret: "quiet P (ret x)" by (simp add: quiet_def)

lemma quiet_bind:
  assumes "quiet P m" "\<And>e x. P e \<Longrightarrow> fst (m e) = Inr x \<Longrightarrow> V x" "\<And>x. V x \<Longrightarrow> quiet P (k x)" "on_core P"
  shows "quiet P (and_then m k)"
  unfolding quiet_def
proof (intro allI impI)
  fix e assume P: "P e"
  with assms(1) obtain x e' where m: "m e = (Inr x, e')" "core e' = core e"
    unfolding quiet_def by (metis prod.collapse)
  with assms(4) P have "P e'" unfolding on_core_def by blast
  moreover from m assms(2) [OF P] have "V x" by simp
  ultimately show "core (snd (and_then m k e)) = core e \<and> (\<exists>x. fst (and_then m k e) = Inr x)"
    using m assms(3) by (simp add: quiet_def)
qed

lemma quiet_and_then: "quiet P m \<Longrightarrow> (\<And>x. quiet P (k x)) \<Longrightarrow> on_core P \<Longrightarrow> quiet P (and_then m k)"
  by (rule quiet_bind [where V = "\<lambda>_. True"]) simp_all

lemma quiet_pointwise: "(\<And>e0. P e0 \<Longrightarrow> quiet (\<lambda>e. e = e0) m) \<Longrightarrow> quiet P m"
  by (simp add: quiet_def)

section \<open>The quiet pieces\<close>

definition known :: "uuid \<Rightarrow> engine \<Rightarrow> bool" where
  "known i e \<longleftrightarrow> run_db_ok (en_db e) \<and> row_of (en_db e) i \<noteq> None \<and> attempts_of (en_db e) i \<noteq> []"

lemma on_core_known: "on_core (known i)"
  unfolding known_def [abs_def] by (rule on_core_simple(4))

lemma quiet_publish: "quiet P (publish r)"
  by (simp add: quiet_def publish_def core_def queued_steps_def fun_eq_iff)

lemma quiet_existing: "quiet (\<lambda>e. row_of (en_db e) i \<noteq> None) (existing i)"
  by (auto simp: quiet_def existing_def run_row_of)

lemma quiet_put: "(\<And>j. steps_in j [q] = {#}) \<Longrightarrow> quiet P (put i q)"
  by (simp add: quiet_def put_def core_def queued_steps_def fun_eq_iff steps_queued_put)

lemma quiet_put_stop: "quiet (\<lambda>e. row_of (en_db e) (rs_run (qp_stop q)) \<noteq> None) (put_stop q)"
  unfolding put_stop_def
proof (rule quiet_and_then [OF quiet_existing _ on_core_simple(4)])
  fix r
  show "quiet (\<lambda>e. row_of (en_db e) (rs_run (qp_stop q)) \<noteq> None) (\<lambda>e. case instance_record (en_hub e) (fr_instance r) of
      None \<Rightarrow> (Inr (), e)
    | Some owner \<Rightarrow> if active owner then put (mi_id owner) (Q_Stop q) e else (Inr (), e))"
    using quiet_put [of "Q_Stop q"] by (auto simp: quiet_def split: option.splits)
qed

lemma quiet_put_report: "quiet (\<lambda>e. row_of (en_db e) (qr_run q) \<noteq> None) (put_report q)"
  unfolding put_report_def
proof (rule quiet_and_then [OF quiet_existing _ on_core_simple(4)])
  fix r
  show "quiet (\<lambda>e. row_of (en_db e) (qr_run q) \<noteq> None) (\<lambda>e. case holder (en_hub e) r (qr_instance q) of
      None \<Rightarrow> (Inr (), e) | Some i \<Rightarrow> put i (Q_Report q) e)"
    using quiet_put [of "Q_Report q"] by (auto simp: quiet_def split: option.splits)
qed

lemma attempts_empty: "attempts db i = [] \<longleftrightarrow> (\<forall>a \<in> set (attempts_of db i). ar_rowid a = 0)"
  by (auto simp: attempts_def attempts_after_def attempts_of_def filter_empty_conv)

lemma known_attempts: "known i e \<Longrightarrow> attempts (en_db e) i \<noteq> []"
  by (cases "attempts_of (en_db e) i") (auto simp: known_def run_db_ok_def attempts_ok_def attempts_empty attempts_of_def filter_eq_Cons_iff)

lemma quiet_report: "quiet (known (fr_id r)) (report f call r summary)"
proof (rule quiet_pointwise)
  fix e0 assume known: "known (fr_id r) e0"
  let ?step = "case fr_step r of Some s \<Rightarrow> s | None \<Rightarrow> at_step (last (attempts (en_db e0) (fr_id r)))"
  let ?q = "\<lparr>qr_run = fr_id r, qr_instance = ca_instance call, qr_command = \<lparr>src_step = Code_Step_Run (ca_call call) summary,
      src_origin = \<lparr>ro_factory = fr_factory r, ro_run = fr_id r, ro_step = ?step\<rparr>,
      src_attempt = None, src_hook = None, src_work_item = fr_work_item r,
      src_results = results f (attempts (en_db e0) (fr_id r)) None\<rparr>,
    qr_status = fr_status r, qr_generation = stop_generation (en_db e0) (fr_id r), qr_waited = 0\<rparr>"
  have "report f call r summary e0 = put_report ?q e0"
    using known_attempts [OF known]
    by (cases "attempts (en_db e0) (fr_id r)") (auto simp: report_def Let_def split: option.splits)
  moreover have "row_of (en_db e0) (qr_run ?q) \<noteq> None" using known by (simp add: known_def)
  ultimately show "quiet (\<lambda>e. e = e0) (report f call r summary)"
    using quiet_put_report [of ?q] by (simp add: quiet_def)
qed

lemma quiet_notify_stop: "quiet P (notify_stop r stop f)"
  by (auto simp: quiet_def notify_stop_def core_def queued_steps_def fun_eq_iff Let_def split: option.splits)

lemma run_stop_found:
  assumes "run_db_ok db" "row_of db i = Some r" "0 < g" "g \<le> rr_stop_generation r"
  shows "\<exists>s. Run_Tables.run_stop db i g = Inr s \<and> rs_run s = i"
proof -
  have "map so_generation (stops_of db i) = [1..<Suc (rr_stop_generation r)]"
    using row_ok [OF assms(1,2)] by (auto simp: run_ok_def)
  then have "g \<in> so_generation ` set (stops_of db i)"
    using assms(3,4) by (metis (no_types, lifting) atLeastLessThan_iff image_set less_Suc_eq_le less_eq_Suc_le One_nat_def set_upt)
  then have "\<exists>s \<in> set (stop_rows db). so_run s = i \<and> so_generation s = g"
    by (auto simp: stops_of_def)
  then obtain s where "find (\<lambda>s. so_run s = i \<and> so_generation s = g) (stop_rows db) = Some s"
    by (metis (mono_tags, lifting) find_None_iff option.exhaust)
  with assms(2) show ?thesis by (simp add: Run_Tables.run_stop_def)
qed

text \<open>What a move does after it wrote the row.\<close>

definition after_move :: "factory_file option \<Rightarrow> stop_call option \<Rightarrow> uuid \<Rightarrow> factory_run \<Rightarrow> factory_run act" where
  "after_move f ended i moved =
     and_then (publish moved) (\<lambda>_.
     and_then (if fr_status moved \<in> set STOPS
       then (\<lambda>e. let generation = stop_generation (en_db e) i
             in and_then (on_db (\<lambda>db. map_sum id (\<lambda>s. (db, s)) (run_stop db i generation))) (\<lambda>s.
                and_then (put_stop \<lparr>qp_stop = s, qp_waited = 0\<rparr>) (\<lambda>_.
                if fr_status moved = Needs_Human
                then notify_stop moved \<lparr>ref_run = i, ref_generation = generation\<rparr> f
                else ret ())) e)
       else ret ()) (\<lambda>_.
     and_then (case (f, ended) of
         (Some g, Some call) \<Rightarrow> report g call moved None
       | _ \<Rightarrow> ret ()) (\<lambda>_.
     ret moved)))"

lemma move_after: "move en now i status step_id =
     and_then (existing i) (\<lambda>found.
     let f = env_factory en (fr_factory found);
         ended = (if status \<in> set ENDS then Option.bind f ff_ended else None)
     in and_then (on_db (\<lambda>db. move_run now db i status step_id None (ended \<noteq> None)))
          (after_move f ended i))"
  unfolding move_def after_move_def by simp

text \<open>The run as a move left it: what tells of the move is all there.\<close>

definition told :: "uuid \<Rightarrow> factory_run \<Rightarrow> engine \<Rightarrow> bool" where
  "told i moved e \<longleftrightarrow> known i e \<and> fr_id moved = i \<and>
     (fr_status moved \<in> set STOPS \<longrightarrow> 0 < stop_generation (en_db e) i)"

lemma on_core_told: "on_core (told i moved)"
  unfolding told_def [abs_def] by (intro on_core_conj on_core_known on_core_simple)

lemma quiet_tell_stop:
  assumes "0 < generation"
  shows "quiet (\<lambda>e. known i e \<and> stop_generation (en_db e) i = generation)
     (and_then (on_db (\<lambda>db. map_sum id (\<lambda>s. (db, s)) (run_stop db i generation))) (\<lambda>s.
      and_then (put_stop \<lparr>qp_stop = s, qp_waited = 0\<rparr>) (\<lambda>_.
      if b then notify_stop moved stop f else ret ())))"
    (is "quiet ?P _")
proof (rule quiet_bind [where V = "\<lambda>s. rs_run s = i"])
  show core: "on_core ?P" by (intro on_core_conj on_core_known on_core_simple)
  have stop: "\<exists>s. run_stop (en_db e) i generation = Inr s \<and> rs_run s = i" if "?P e" for e
    using that assms run_stop_found [of "en_db e" i _ generation]
    by (auto simp: known_def stop_generation_def)
  show "quiet ?P (on_db (\<lambda>db. map_sum id (\<lambda>s. (db, s)) (run_stop db i generation)))"
    unfolding quiet_def using stop by (fastforce simp: on_db_def)
  show "rs_run s = i" if "?P e" "fst (on_db (\<lambda>db. map_sum id (\<lambda>s. (db, s)) (run_stop db i generation)) e) = Inr s" for e s
    using stop [OF that(1)] that(2) by (auto simp: on_db_def)
  show "quiet ?P (and_then (put_stop \<lparr>qp_stop = s, qp_waited = 0\<rparr>) (\<lambda>_. if b then notify_stop moved stop f else ret ()))"
    if "rs_run s = i" for s
    by (rule quiet_and_then [OF quiet_weaken [OF quiet_put_stop] _ core])
      (simp_all add: known_def that quiet_notify_stop quiet_ret)
qed

lemma quiet_after_move: "quiet (told i moved) (after_move f ended i moved)"
proof -
  have stops: "quiet (told i moved) (if fr_status moved \<in> set STOPS
       then (\<lambda>e. let generation = stop_generation (en_db e) i
             in and_then (on_db (\<lambda>db. map_sum id (\<lambda>s. (db, s)) (run_stop db i generation))) (\<lambda>s.
                and_then (put_stop \<lparr>qp_stop = s, qp_waited = 0\<rparr>) (\<lambda>_.
                if fr_status moved = Needs_Human
                then notify_stop moved \<lparr>ref_run = i, ref_generation = generation\<rparr> f
                else ret ())) e)
       else ret ())"
  proof (cases "fr_status moved \<in> set STOPS")
    case True
    show ?thesis
    proof (rule quiet_pointwise)
      fix e0 assume "told i moved e0"
      with True quiet_tell_stop [of "stop_generation (en_db e0) i" i "fr_status moved = Needs_Human" moved
          "\<lparr>ref_run = i, ref_generation = stop_generation (en_db e0) i\<rparr>" f]
      show "quiet (\<lambda>e. e = e0) (if fr_status moved \<in> set STOPS
       then (\<lambda>e. let generation = stop_generation (en_db e) i
             in and_then (on_db (\<lambda>db. map_sum id (\<lambda>s. (db, s)) (run_stop db i generation))) (\<lambda>s.
                and_then (put_stop \<lparr>qp_stop = s, qp_waited = 0\<rparr>) (\<lambda>_.
                if fr_status moved = Needs_Human
                then notify_stop moved \<lparr>ref_run = i, ref_generation = generation\<rparr> f
                else ret ())) e)
       else ret ())"
        by (simp add: quiet_def Let_def told_def del: act_simps)
    qed
  qed (simp add: quiet_ret)
  have reports: "quiet (told i moved) (case (f, ended) of (Some g, Some call) \<Rightarrow> report g call moved None | _ \<Rightarrow> ret ())"
    using quiet_report [of moved] by (auto simp: quiet_def told_def split: option.splits)
  show ?thesis unfolding after_move_def
    by (intro quiet_and_then quiet_publish quiet_ret stops reports on_core_told)
qed

lemma after_move_returns: "fst (after_move f ended i moved e) = Inr x \<Longrightarrow> x = moved"
  by (auto simp: after_move_def split: prod.splits sum.splits)

lemma leads_after_move:
  assumes "on_core P" "\<And>e. P e \<Longrightarrow> told i moved e"
  shows "leads P (after_move f ended i moved) (\<lambda>x e. P e \<and> x = moved)"
  unfolding leads_def
proof (intro allI impI)
  fix e assume P: "P e"
  obtain res e' where m: "after_move f ended i moved e = (res, e')" by (cases "after_move f ended i moved e")
  with quiet_after_move [of i moved f ended] assms(2) P obtain x where "core e' = core e" "res = Inr x"
    unfolding quiet_def by (metis fst_conv snd_conv)
  moreover from this m after_move_returns [of f ended i moved e x] have "x = moved" by simp
  ultimately show "\<exists>x e'. after_move f ended i moved e = (Inr x, e') \<and> P e' \<and> x = moved"
    using m P assms(1) unfolding on_core_def by blast
qed

end
