(* ===== verification/Run_Moves.thy ===== *)
theory Run_Moves
  imports Run_Protocol
begin

text \<open>
  The pieces of the engine's handlers that write: each write of the run tables, the timers and the
  queues keeps the protocol of Run_Protocol, and so do \<open>move\<close>, \<open>park_until\<close> and \<open>settle\<close>. A settled
  attempt that queues its run again has not raised what the run may still spend, and one that
  failed has lowered it.
\<close>

section \<open>What a write leaves alone\<close>

lemma engine_ok_db: "engine_ok en busy away e \<Longrightarrow> run_db_ok (en_db e)"
  by (simp add: engine_ok_def)

lemma queued_steps_db [simp]: "queued_steps (e\<lparr>en_db := db\<rparr>) j = queued_steps e j"
  by (simp add: queued_steps_def)

lemma engine_ok_run: "engine_ok en busy away e \<Longrightarrow> run_fine en busy away e j"
  by (simp add: engine_ok_def)

lemma run_fine_same:
  assumes "run_fine en busy away e j" "row_of (en_db e') j = row_of (en_db e) j"
    "attempts_of (en_db e') j = attempts_of (en_db e) j" "queued_steps e' j = queued_steps e j"
    "en_deadlines e' j = en_deadlines e j" "holding busy' j = holding busy j"
  shows "run_fine en busy' away e' j"
proof (cases "row_of (en_db e) j")
  case None
  with assms show ?thesis by (simp add: run_fine_def)
next
  case (Some r)
  then have "rr_id r = j" by (metis find_Some_key)
  with assms Some show ?thesis
    by (simp add: run_fine_def row_fine_def under_way_def no_open_def open_attempts_def cong: run_status.case_cong)
qed

lemma engine_ok_change:
  assumes "engine_ok en busy (insert i away) e" "run_db_ok db'" "idle busy e i"
    and "\<And>j. j \<noteq> i \<Longrightarrow> row_of db' j = row_of (en_db e) j \<and> attempts_of db' j = attempts_of (en_db e) j"
    and "\<And>r. row_of db' i = Some r \<Longrightarrow> row_fine en db' r"
  shows "engine_ok en busy (insert i away) (e\<lparr>en_db := db'\<rparr>)"
proof -
  have "run_fine en busy (insert i away) (e\<lparr>en_db := db'\<rparr>) j" for j
  proof (cases "j = i")
    case True
    with assms(3,5) show ?thesis
      by (auto simp: run_fine_def idle_def timer_ok_def split: option.splits)
  next
    case False
    with assms(4) show ?thesis
      by (intro run_fine_same [OF engine_ok_run [OF assms(1)]]) simp_all
  qed
  with assms(1,2) show ?thesis by (simp add: engine_ok_def)
qed

text \<open>A write to a run's own timer, waits or queue leaves the other runs alone.\<close>

lemma engine_ok_own:
  assumes "engine_ok en busy away e" "en_db e' = en_db e" "en_strays e' = strays busy'"
    and "\<And>j. j \<noteq> i \<Longrightarrow> queued_steps e' j = queued_steps e j \<and> en_deadlines e' j = en_deadlines e j \<and>
      holding busy' j = holding busy j \<and> (j \<in> away \<longrightarrow> j \<in> away')"
    and "run_fine en busy' away' e' i"
  shows "engine_ok en busy' away' e'"
proof -
  have "run_fine en busy' away' e' j" for j
  proof (cases "j = i")
    case False
    then have "run_fine en busy' away e' j"
      using assms(2,4) by (intro run_fine_same [OF engine_ok_run [OF assms(1)]]) simp_all
    with False assms(4) show ?thesis by (auto simp: run_fine_def split: option.splits)
  qed (simp add: assms(5))
  with assms(1-3) show ?thesis by (simp add: engine_ok_def)
qed

text \<open>The run is under way again.\<close>

lemma engine_ok_back:
  assumes "engine_ok en busy (insert i away) e" "\<And>r. row_of (en_db e) i = Some r \<Longrightarrow> under_way en busy e r"
  shows "engine_ok en busy (away - {i}) e"
proof (rule engine_ok_own [OF assms(1), where i = i])
  from engine_ok_run [OF assms(1), of i] assms(2) show "run_fine en busy (away - {i}) e i"
    by (auto simp: run_fine_def split: option.splits)
qed (use assms(1) in \<open>simp_all add: engine_ok_def\<close>)

lemma engine_row:
  assumes "engine_ok en busy away e" "row_of (en_db e) i = Some r"
  shows "rr_id r = i" "row_fine en (en_db e) r" "timer_ok en r (en_deadlines e i)"
  using engine_ok_run [OF assms(1), of i] assms find_Some_key [of rr_id i "run_rows (en_db e)" r]
  by (simp_all add: run_fine_def)

lemma counted_attempts_eq:
  "counted_attempts db i = map step_attempt_of (filter (\<lambda>a.
     (case row_of db i of None \<Rightarrow> 0 | Some r \<Rightarrow> rr_restarted_after r) < ar_rowid a) (attempts_of db i))"
  by (simp add: counted_attempts_def attempts_after_def attempts_of_def conj_commute)

lemma spend_same:
  assumes "row_of (en_db e) i = Some r" "row_of (en_db e') i = Some r'"
    "rr_factory r' = rr_factory r" "rr_restarted_after r' = rr_restarted_after r"
    "attempts_of (en_db e') i = attempts_of (en_db e) i" "en_woken e' i = en_woken e i"
  shows "spend en e' i = spend en e i"
  using assms by (simp add: spend_def run_row_of counted_attempts_eq cong: option.case_cong)

lemma rested_at_rest: "rested en busy away n i r e \<Longrightarrow> at_rest en busy away n i e"
  by (simp add: rested_def)

text \<open>A run that stopped needs nothing to move it on.\<close>

lemma rested_stopped:
  assumes "rested en busy away n i r e" "fr_status r \<in> set STOPS"
  shows "engine_ok en busy (away - {i}) e"
proof (rule engine_ok_back)
  from assms show "engine_ok en busy (insert i away) e" by (simp add: rested_def at_rest_def)
  fix rr assume "row_of (en_db e) i = Some rr"
  with assms have "rr_status rr \<in> set STOPS" by (auto simp: rested_def run_row_of)
  then show "under_way en busy e rr" by (auto simp: under_way_def STOPS_def)
qed

section \<open>Moves\<close>

definition tried :: "uuid \<Rightarrow> engine \<Rightarrow> bool" where
  "tried i e \<longleftrightarrow> attempts_of (en_db e) i \<noteq> []"

lemma moved_engine_ok:
  assumes "at_rest en busy away n i e" "row_of (en_db e) i = Some r"
    "tried i e" "step_id = None \<Longrightarrow> status = Done" "ended_call \<Longrightarrow> status \<in> set ENDS"
    "wakes_at \<noteq> None \<Longrightarrow> status = Parked \<and> \<not> approve_at en (rr_factory r) step_id"
  shows "rested en busy away n i (factory_run_of (moved_row now status step_id wakes_at ended_call r))
      (e\<lparr>en_db := moved_db now i status step_id wakes_at ended_call r (en_db e)\<rparr>)"
proof -
  let ?db = "moved_db now i status step_id wakes_at ended_call r (en_db e)"
  from assms(1) have rest: "engine_ok en busy (insert i away) e" "idle busy e i" "no_open (en_db e) i"
      "spend en e i < n"
    by (simp_all add: at_rest_def)
  note id = engine_row(1) [OF rest(1) assms(2)]
  have row: "row_of ?db i = Some (moved_row now status step_id wakes_at ended_call r)"
    using assms(2) by (simp add: moved_db_simps)
  have "open_attempts (en_db e) i = []" using rest(3) by (simp add: no_open_attempts)
  then have open': "open_attempts ?db i = []" by (simp add: open_attempts_def moved_db_simps)
  have "run_db_ok ?db"
    using move_run_keeps [OF engine_ok_db [OF rest(1)] _ move_run_ok_eq [OF engine_ok_db [OF rest(1)] assms(2)]]
      rest(3) by blast
  then have "engine_ok en busy (insert i away) (e\<lparr>en_db := ?db\<rparr>)"
  proof (rule engine_ok_change [OF rest(1) _ rest(2)])
    fix j assume "j \<noteq> i"
    then show "row_of ?db j = row_of (en_db e) j \<and> attempts_of ?db j = attempts_of (en_db e) j"
      by (simp add: moved_db_simps option.map_ident)
  next
    fix r' assume "row_of ?db i = Some r'"
    with row have r': "r' = moved_row now status step_id wakes_at ended_call r" by simp
    show "row_fine en ?db r'"
      using assms(3-6) id open' unfolding r' row_fine_def
      by (auto simp: no_open_attempts tried_def moved_db_simps moved_row_def)
  qed
  moreover have "spend en (e\<lparr>en_db := ?db\<rparr>) i = spend en e i"
    by (rule spend_same [where r = r and r' = "moved_row now status step_id wakes_at ended_call r"])
      (simp_all add: moved_db_simps assms(2))
  ultimately show ?thesis
    using assms(2) rest id row by (simp add: rested_def at_rest_def idle_def moved_db_simps run_row_of)
qed

text \<open>Where a move leaves the run.\<close>

definition moved_to ::
  "env \<Rightarrow> busy \<Rightarrow> uuid set \<Rightarrow> nat \<Rightarrow> uuid \<Rightarrow> run_status \<Rightarrow> string option \<Rightarrow> moment option \<Rightarrow> factory_run \<Rightarrow> engine \<Rightarrow> bool" where
  "moved_to en busy away n i status step_id wakes_at m e \<longleftrightarrow>
     rested en busy away n i m e \<and> tried i e \<and>
     (status \<in> set STOPS \<longrightarrow> 0 < stop_generation (en_db e) i) \<and>
     fr_status m = status \<and> fr_step m = step_id \<and> fr_wakes_at m = wakes_at"

lemma on_core_moved_to: "on_core (moved_to en busy away n i status step_id wakes_at m)"
  unfolding moved_to_def [abs_def] tried_def by (intro on_core_conj on_core_rested on_core_simple)

lemma leads_move_run:
  "leads (\<lambda>e. at_rest en busy away n i e \<and> tried i e \<and> (step_id = None \<longrightarrow> status = Done) \<and>
       (ended_call \<longrightarrow> status \<in> set ENDS) \<and> (wakes_at \<noteq> None \<longrightarrow> status = Parked \<and>
          (\<forall>r. row_of (en_db e) i = Some r \<longrightarrow> \<not> approve_at en (rr_factory r) step_id)))
     (on_db (\<lambda>db. move_run now db i status step_id wakes_at ended_call))
     (moved_to en busy away n i status step_id wakes_at)"
proof (rule leads_on_db)
  fix e
  assume P: "at_rest en busy away n i e \<and> tried i e \<and> (step_id = None \<longrightarrow> status = Done) \<and>
       (ended_call \<longrightarrow> status \<in> set ENDS) \<and> (wakes_at \<noteq> None \<longrightarrow> status = Parked \<and>
          (\<forall>r. row_of (en_db e) i = Some r \<longrightarrow> \<not> approve_at en (rr_factory r) step_id))"
  then obtain r where r: "row_of (en_db e) i = Some r" by (auto simp: at_rest_def)
  from P have ok: "run_db_ok (en_db e)" by (simp add: at_rest_def engine_ok_def)
  let ?m = "factory_run_of (moved_row now status step_id wakes_at ended_call r)"
  let ?e = "e\<lparr>en_db := moved_db now i status step_id wakes_at ended_call r (en_db e)\<rparr>"
  have "rested en busy away n i ?m ?e"
    using P r by (intro moved_engine_ok) auto
  moreover have "tried i ?e = tried i e" by (simp add: tried_def moved_db_simps)
  moreover have "status \<in> set STOPS \<Longrightarrow> 0 < stop_generation (en_db ?e) i"
    using r by (simp add: stop_generation_def moved_db_simps moved_row_def)
  ultimately have "moved_to en busy away n i status step_id wakes_at ?m ?e"
    using P by (simp add: moved_to_def)
  with move_run_ok_eq [OF ok r] show "\<exists>db m. move_run now (en_db e) i status step_id wakes_at ended_call = Inr (db, m) \<and>
      moved_to en busy away n i status step_id wakes_at m (e\<lparr>en_db := db\<rparr>)"
    by blast
qed

lemma moved_to_told:
  "moved_to en busy away n i status step_id None m e \<Longrightarrow> told i m e"
  by (auto simp: moved_to_def told_def known_def tried_def rested_def at_rest_def engine_ok_def)

lemma leads_move:
  assumes "step_id = None \<Longrightarrow> status = Done"
  shows "leads (\<lambda>e. at_rest en busy away n i e \<and> tried i e) (move en now i status step_id)
     (moved_to en busy away n i status step_id None)"
proof -
  let ?P = "\<lambda>e. at_rest en busy away n i e \<and> tried i e"
  let ?Q = "moved_to en busy away n i status step_id None"
  have core: "on_core ?P" "on_core (?Q m)" for m
    unfolding tried_def by (intro on_core_conj on_core_at_rest on_core_moved_to on_core_simple)+
  have existing: "leads ?P (existing i) (\<lambda>_. ?P)"
    by (rule quiet_leads [OF quiet_weaken [OF quiet_existing] core(1)]) (simp add: at_rest_def)
  have run: "leads ?P (on_db (\<lambda>db. move_run now db i status step_id None ended_call)) ?Q"
    if "ended_call \<Longrightarrow> status \<in> set ENDS" for ended_call
    by (rule leads_weaken [OF leads_move_run]) (use assms that in auto)
  have after: "leads (?Q m) (after_move f ended i m) ?Q" for m f ended
    by (rule leads_weaken [OF leads_after_move [OF core(2)]]) (auto dest: moved_to_told)
  show ?thesis
    unfolding move_after Let_def by (rule leads_and_then [OF existing leads_and_then [OF run after]]) (simp split: if_splits)
qed

section \<open>Timers\<close>

definition armed :: "uuid \<Rightarrow> timer option \<Rightarrow> engine \<Rightarrow> engine" where
  "armed i t e = e\<lparr>en_deadlines := (en_deadlines e)(i := t)\<rparr>"

lemma armed_simps [simp]:
  "en_db (armed i t e) = en_db e" "queued_steps (armed i t e) j = queued_steps e j"
  "en_deadlines (armed i t e) j = (if j = i then t else en_deadlines e j)" "en_strays (armed i t e) = en_strays e"
  "en_woken (armed i t e) = en_woken e" "spend en (armed i t e) j = spend en e j"
  by (simp_all add: armed_def queued_steps_def spend_def cong: option.case_cong)

lemma disarm_armed: "disarm i = change (armed i None)"
  by (simp add: disarm_def armed_def [abs_def])

lemma set_timer_armed: "en_deadlines e i = None \<Longrightarrow> set_timer i t e = (Inr (), armed i (Some t) e)"
  by (simp add: set_timer_def armed_def)

lemma armed_engine_ok:
  assumes "engine_ok en busy (insert i away) e" "row_of (en_db e) i = Some r" "timer_ok en r (Some t)"
    "rr_wakes_at r = None \<Longrightarrow> open_attempts (en_db e) i \<noteq> []"
  shows "engine_ok en busy (away - {i}) (armed i (Some t) e)"
proof (rule engine_ok_own [OF assms(1), where i = i])
  have "rr_status r = Parked" using assms(3) by (auto simp: timer_ok_def split: timer.splits)
  with engine_ok_run [OF assms(1), of i] engine_row(1) [OF assms(1,2)] assms(2-4)
  show "run_fine en busy (away - {i}) (armed i (Some t) e) i"
    by (simp add: run_fine_def under_way_def)
qed (use assms(1) in \<open>simp_all add: engine_ok_def\<close>)

lemma leads_set_timer:
  "(\<And>e. P e \<Longrightarrow> en_deadlines e i = None \<and> Q () (armed i (Some t) e)) \<Longrightarrow> leads P (set_timer i t) Q"
  by (auto simp: leads_def set_timer_armed)

lemma disarmed_engine_ok:
  assumes "engine_ok en busy away e"
  shows "engine_ok en busy (insert i away) (armed i None e)"
proof (rule engine_ok_own [OF assms, where i = i])
  from engine_ok_run [OF assms, of i] show "run_fine en busy (insert i away) (armed i None e) i"
    by (auto simp: run_fine_def timer_ok_def split: option.splits)
qed (use assms in \<open>simp_all add: engine_ok_def\<close>)

lemma leads_park_until:
  "leads (\<lambda>e. at_rest en busy away n i e \<and> tried i e \<and>
      (\<forall>r. row_of (en_db e) i = Some r \<longrightarrow> \<not> approve_at en (rr_factory r) (Some step_id)))
     (park_until now i step_id wakes_at)
     (\<lambda>m e. fr_id m = i \<and> fr_status m = Parked \<and> engine_ok en busy (away - {i}) e)"
proof -
  let ?Q = "moved_to en busy away n i Parked (Some step_id) (Some wakes_at)"
  have publish: "leads (?Q m) (publish m) (\<lambda>_. ?Q m)" for m
    by (rule quiet_leads [OF quiet_publish on_core_moved_to])
  have timer: "leads (?Q m) (set_timer i (Wake wakes_at (Some step_id)))
      (\<lambda>_ e. fr_id m = i \<and> fr_status m = Parked \<and> engine_ok en busy (away - {i}) e)" for m
  proof (rule leads_set_timer)
    fix e assume Q: "?Q m e"
    then obtain r where r: "row_of (en_db e) i = Some r" "factory_run_of r = m"
      by (auto simp: moved_to_def rested_def run_row_of)
    with Q have "timer_ok en r (Some (Wake wakes_at (Some step_id)))"
      by (auto simp: moved_to_def timer_ok_def)
    moreover have "rr_wakes_at r \<noteq> None" using Q r by (auto simp: moved_to_def)
    moreover have "en_deadlines e i = None" using Q by (simp add: moved_to_def rested_def at_rest_def idle_def)
    ultimately show "en_deadlines e i = None \<and> fr_id m = i \<and> fr_status m = Parked \<and>
        engine_ok en busy (away - {i}) (armed i (Some (Wake wakes_at (Some step_id))) e)"
      using Q r by (auto simp: moved_to_def rested_def at_rest_def intro!: armed_engine_ok)
  qed
  show ?thesis unfolding park_until_def
    by (rule leads_and_then [OF leads_weaken [OF leads_move_run] leads_and_then [OF publish leads_and_then [OF timer leads_ret]]])
      simp_all
qed

section \<open>Attempts\<close>

text \<open>An attempt that begins: the run has one open attempt, and may spend what it could before.\<close>

definition has_open :: "uuid \<Rightarrow> string \<Rightarrow> run_db \<Rightarrow> bool" where
  "has_open i step_id db \<longleftrightarrow> (\<exists>k < length (counted_attempts db i).
     at_step (counted_attempts db i ! k) = step_id \<and> at_ending (counted_attempts db i ! k) = None)"

definition begun ::
  "env \<Rightarrow> busy \<Rightarrow> uuid set \<Rightarrow> nat \<Rightarrow> uuid \<Rightarrow> string \<Rightarrow> run_status \<Rightarrow> factory_run \<Rightarrow> engine \<Rightarrow> bool" where
  "begun en busy away n i step_id status r e \<longleftrightarrow> engine_ok en busy (insert i away) e \<and> idle busy e i \<and> fr_id r = i \<and>
     run (en_db e) i = Some r \<and> fr_step r = Some step_id \<and> fr_status r = status \<and> fr_wakes_at r = None \<and>
     has_open i step_id (en_db e) \<and> open_attempts (en_db e) i \<noteq> [] \<and> spend en e i < n"

lemma on_core_begun: "on_core (begun en busy away n i step_id status r)"
  unfolding begun_def [abs_def] by (intro on_core_intros)

lemma tally_open: "at_ending a = None \<Longrightarrow> tally_of f (as @ [a]) = tally_of f as"
  by (simp add: tally_of_append tally_attempt_def failed_to_def split: option.splits)

lemma begun_counted:
  assumes "run_db_ok db" "row_of db i = Some r"
  shows "counted_attempts (begun_db now i step_id status db) i =
    counted_attempts db i @ [step_attempt_of (new_attempt now db i step_id)]"
proof -
  have "rr_restarted_after r \<le> closed_rowid db i"
    using row_ok [OF assms] by (auto simp: run_ok_def)
  also have "\<dots> \<le> max_rowid (attempt_rows db)"
    unfolding closed_rowid_def by (rule max_rowid_mono) (auto simp: attempts_of_def)
  finally show ?thesis by (simp add: counted_attempts_eq begun_db_simps assms(2))
qed

lemma begun_engine_ok:
  assumes "at_rest en busy away n i e" "row_of (en_db e) i = Some r" "rr_status r = Queued" "status \<in> {Running, Parked}"
  shows "begun en busy away n i step_id status (factory_run_of (begun_row now step_id status r))
    (e\<lparr>en_db := begun_db now i step_id status (en_db e)\<rparr>)"
proof -
  let ?db = "begun_db now i step_id status (en_db e)"
  from assms(1) have rest: "engine_ok en busy (insert i away) e" "idle busy e i" "no_open (en_db e) i" "spend en e i < n"
    by (simp_all add: at_rest_def)
  note ok = engine_ok_db [OF rest(1)] and row = engine_row [OF rest(1) assms(2)]
  have row': "row_of ?db i = Some (begun_row now step_id status r)"
    using assms(2) by (simp add: begun_db_simps)
  have wakes: "rr_wakes_at r = None"
    using row(2) assms(3) by (auto simp: row_fine_def)
  have ok': "run_db_ok ?db"
  proof (rule begun_db_keeps [OF ok])
    show "i \<in> rr_id ` set (run_rows (en_db e))" using assms(2) by (metis find_Some_key image_eqI)
  qed (use assms(4) in auto)
  have one: "length (open_attempts ?db i) = 1"
    using rest(3) by (simp add: no_open_attempts open_attempts_def begun_db_simps)
  have "engine_ok en busy (insert i away) (e\<lparr>en_db := ?db\<rparr>)"
  proof (rule engine_ok_change [OF rest(1) ok' rest(2)])
    fix j assume "j \<noteq> i"
    then show "row_of ?db j = row_of (en_db e) j \<and> attempts_of ?db j = attempts_of (en_db e) j"
      by (simp add: begun_db_simps option.map_ident)
  next
    fix r' assume "row_of ?db i = Some r'"
    with row' have r': "r' = begun_row now step_id status r" by simp
    show "row_fine en ?db r'"
      using one wakes row(1,2) assms(3,4) unfolding r' row_fine_def
      by (auto simp: begun_db_simps begun_row_def ENDS_def)
  qed
  moreover have "has_open i step_id ?db"
    unfolding has_open_def begun_counted [OF ok assms(2)]
    by (intro exI [of _ "length (counted_attempts (en_db e) i)"]) simp
  moreover have "spend en (e\<lparr>en_db := ?db\<rparr>) i = spend en e i"
    using assms(2) begun_counted [OF ok assms(2), of now step_id status]
    by (simp add: spend_def run_row_of begun_db_simps tally_open cong: option.case_cong)
  moreover have "open_attempts ?db i \<noteq> []" using one by auto
  ultimately show ?thesis
    using rest(2,4) row' row(1) wakes by (simp add: begun_def idle_def run_row_of)
qed

lemma leads_begin_attempt:
  assumes "status \<in> {Running, Parked}"
  shows "leads
     (\<lambda>e. at_rest en busy away n i e \<and> (\<exists>r. run (en_db e) i = Some r \<and> fr_status r = Queued \<and> F (fr_factory r)))
     (on_db (\<lambda>db. begin_attempt now db i step_id status))
     (\<lambda>r e. begun en busy away n i step_id status r e \<and> F (fr_factory r))"
proof (rule leads_on_db)
  fix e
  assume P: "at_rest en busy away n i e \<and> (\<exists>r. run (en_db e) i = Some r \<and> fr_status r = Queued \<and> F (fr_factory r))"
  then obtain r where r: "row_of (en_db e) i = Some r" "rr_status r = Queued" "F (rr_factory r)"
    by (auto simp: run_row_of)
  from P have "run_db_ok (en_db e)" by (simp add: at_rest_def engine_ok_def)
  from begin_attempt_eq [OF this r(1)] begun_engine_ok [OF _ r(1,2) assms] P r(3)
  show "\<exists>db m. begin_attempt now (en_db e) i step_id status = Inr (db, m) \<and>
      begun en busy away n i step_id status m (e\<lparr>en_db := db\<rparr>) \<and> F (fr_factory m)" by simp
qed

text \<open>An attempt that ends: no attempt of the run is open, and the run may spend no more than before.\<close>

lemma ended_engine_ok:
  assumes "engine_ok en busy (insert i away) e" "idle busy e i"
  shows "engine_ok en busy (insert i away) (e\<lparr>en_db := end_attempt now (en_db e) i result\<rparr>)"
    "no_open (end_attempt now (en_db e) i result) i"
    "spend en (e\<lparr>en_db := end_attempt now (en_db e) i result\<rparr>) i \<le> spend en e i"
proof -
  let ?db = "end_attempt now (en_db e) i result"
  note ok = engine_ok_db [OF assms(1)]
  show none: "no_open ?db i" by (rule end_attempt_no_open)
  show "engine_ok en busy (insert i away) (e\<lparr>en_db := ?db\<rparr>)"
  proof (rule engine_ok_change [OF assms(1) end_attempt_keeps [OF ok] assms(2)])
    fix j assume "j \<noteq> i"
    then have "map (\<lambda>a. if open_attempt i a then ended_row now result a else a) (attempts_of (en_db e) j) =
        attempts_of (en_db e) j"
      by (intro map_idI) (auto simp: open_attempt_def attempts_of_def)
    then show "row_of ?db j = row_of (en_db e) j \<and> attempts_of ?db j = attempts_of (en_db e) j"
      by (simp add: end_attempt_rows(2) end_attempt_attempts_of)
  next
    fix r assume "row_of ?db i = Some r"
    then have r: "row_of (en_db e) i = Some r" by (simp add: end_attempt_rows(2))
    have "open_attempts ?db i = []" using none by (simp add: no_open_attempts)
    with engine_row(1,2) [OF assms(1) r] show "row_fine en ?db r"
      by (simp add: row_fine_def no_open_attempts end_attempt_attempts_of)
  qed
  have "run ?db i = run (en_db e) i" by (simp add: run_def end_attempt_rows(2))
  then show "spend en (e\<lparr>en_db := ?db\<rparr>) i \<le> spend en e i"
    using budget_closes [OF end_attempt_closes [OF ok]] by (simp add: spend_def split: option.splits)
qed

lemma end_attempt_closes_open:
  assumes "run_db_ok db"
  shows "list_all2 (\<lambda>a a'. at_ending a = None \<longrightarrow> at_ending a' = Some (sr_ending result))
    (counted_attempts db i) (counted_attempts (end_attempt now db i result) i)"
proof -
  let ?g = "\<lambda>a. if open_attempt i a then ended_row now result a else a"
  define k where "k = (case row_of db i of None \<Rightarrow> 0 | Some r \<Rightarrow> rr_restarted_after r)"
  have counted: "counted_attempts d i = map step_attempt_of (filter (\<lambda>a. ar_run a = i \<and> k < ar_rowid a) (attempt_rows d))"
    if "run_rows d = run_rows db" for d
    by (simp add: counted_attempts_def attempts_after_def k_def that)
  have "\<forall>a \<in> set (attempt_rows db). closed a \<longleftrightarrow> ar_ending a \<noteq> None"
    using assms by (simp add: run_db_ok_def attempts_ok_def)
  then have "list_all2 (\<lambda>a a'. at_ending a = None \<longrightarrow> at_ending a' = Some (sr_ending result))
      (map step_attempt_of (filter (\<lambda>a. ar_run a = i \<and> k < ar_rowid a) rows))
      (map step_attempt_of (filter (\<lambda>a. ar_run a = i \<and> k < ar_rowid a) (map ?g rows)))"
    if "set rows \<subseteq> set (attempt_rows db)" for rows
    using that by (induction rows) (auto simp: open_attempt_def)
  then show ?thesis
    by (simp only: counted counted [OF end_attempt_rows(2)] end_attempt_rows)
qed

text \<open>A failed attempt that queues the run again lowers what the run may spend.\<close>

lemma failed_attempt_costs:
  assumes "engine_ok en busy away e" "run (en_db e) i = Some r" "fr_step r = Some j" "has_open i j (en_db e)"
    and "env_factory en (fr_factory r) = Some f" "step_of f j = Some s" "sr_ending result = Failed"
    and "settled f s result held (tally_of f (counted_attempts (en_db e) i)) = (result', Queued, dest)"
  shows "spend en (e\<lparr>en_db := end_attempt now (en_db e) i result'\<rparr>) i < spend en e i"
proof -
  let ?db = "end_attempt now (en_db e) i result'"
  note ok = engine_ok_db [OF assms(1)]
  obtain k where k: "k < length (counted_attempts (en_db e) i)"
      "at_step (counted_attempts (en_db e) i ! k) = j" "at_ending (counted_attempts (en_db e) i ! k) = None"
    using assms(4) by (auto simp: has_open_def)
  then have "at_ending (counted_attempts ?db i ! k) = Some (sr_ending result')"
    using list_all2_nthD [OF end_attempt_closes_open [OF ok]] by blast
  with failed_round_costs [OF assms(6,8,7) end_attempt_closes [OF ok] k]
  have "budget_of f (tally_of f (counted_attempts ?db i)) < budget_of f (tally_of f (counted_attempts (en_db e) i))"
    by blast
  moreover have "run ?db i = run (en_db e) i" by (simp add: run_def end_attempt_rows(2))
  ultimately show ?thesis using assms(2,5) by (simp add: spend_def)
qed

end
