(* ===== verification/Run_Settle.thy ===== *)
theory Run_Settle
  imports Run_Moves
begin

text \<open>
  Settling an attempt (\<open>settle\<close>): it ends the run's open attempt and moves the run where the result
  sends it, from every state the engine's handlers call it in.
\<close>

section \<open>Where a result may send a run\<close>

lemma settled_goes:
  assumes "settled f s r held t = (r', status, dest)"
  shows "status \<in> {Queued, Done, Cancelled, Needs_Human}" "dest = None \<Longrightarrow> status = Done"
  using assms
  by (auto simp: settled_def settled_failure_def Let_def
      split: option.splits outcome.splits send_back.splits if_splits bool.splits)

text \<open>
  When the handler of an attempt's end starts: nothing else of the run is under way, an approval
  never ends at its plan window's end, and an attempt that fails a step that could not start has
  one more to spend.
\<close>

definition may_settle :: "env \<Rightarrow> busy \<Rightarrow> uuid set \<Rightarrow> nat \<Rightarrow> uuid \<Rightarrow> step_result \<Rightarrow> engine \<Rightarrow> bool" where
  "may_settle en busy away n i result e \<longleftrightarrow> engine_ok en busy (insert i away) e \<and> idle busy e i \<and>
     (\<exists>r. run (en_db e) i = Some r \<and> fr_status r \<in> {Running, Parked} \<and>
        (sr_resets_at result \<noteq> None \<longrightarrow> \<not> approve_at en (fr_factory r) (fr_step r)) \<and>
        (spend en e i < n \<or>
         spend en e i < Suc n \<and> sr_ending result = Failed \<and> sr_resets_at result = None \<and>
         (\<exists>j. fr_step r = Some j \<and> has_open i j (en_db e))))"

definition after_settle :: "env \<Rightarrow> busy \<Rightarrow> uuid set \<Rightarrow> nat \<Rightarrow> uuid \<Rightarrow> factory_run \<Rightarrow> engine \<Rightarrow> bool" where
  "after_settle en busy away n i moved e \<longleftrightarrow>
     (if fr_status moved = Queued then rested en busy away n i moved e
      else fr_id moved = i \<and> engine_ok en busy (away - {i}) e)"

lemma on_core_after_settle: "on_core (after_settle en busy away n i moved)"
  unfolding after_settle_def [abs_def]
  by (cases "fr_status moved = Queued") (simp_all add: on_core_rested on_core_conj on_core_simple)

lemma may_settle_row:
  assumes "may_settle en busy away n i result e"
  obtains r j where "run (en_db e) i = Some r" "fr_step r = Some j" "fr_status r \<in> {Running, Parked}" "tried i e"
proof -
  from assms obtain r where r: "engine_ok en busy (insert i away) e" "run (en_db e) i = Some r"
      "fr_status r \<in> {Running, Parked}"
    by (auto simp: may_settle_def)
  then obtain rr where rr: "row_of (en_db e) i = Some rr" "r = factory_run_of rr" by (auto simp: run_row_of)
  from engine_row(1,2) [OF r(1) rr(1)] r(3) rr(2) have "tried i e" "fr_step r \<noteq> None"
    by (auto simp: row_fine_def tried_def)
  with r that show thesis by blast
qed

lemma ended_at_rest:
  assumes "engine_ok en busy (insert i away) e" "idle busy e i" "row_of (en_db e) i \<noteq> None" "tried i e"
    "spend en (e\<lparr>en_db := end_attempt now (en_db e) i result\<rparr>) i < n"
  shows "at_rest en busy away n i (e\<lparr>en_db := end_attempt now (en_db e) i result\<rparr>)"
    "tried i (e\<lparr>en_db := end_attempt now (en_db e) i result\<rparr>)"
  using ended_engine_ok [OF assms(1,2)] assms(2-5)
  by (simp_all add: at_rest_def idle_def tried_def end_attempt_rows(2) end_attempt_attempts_of)

text \<open>The attempt ends, and the run moves. What tells of the move comes last and is quiet.\<close>

lemma leads_settle_move:
  assumes "may_settle en busy away m i result0 e0" "status \<in> {Queued, Done, Cancelled, Needs_Human}"
    and "step_id = None \<Longrightarrow> status = Done"
    and "status = Queued \<Longrightarrow> spend en (e0\<lparr>en_db := end_attempt now (en_db e0) i result\<rparr>) i < n"
    and "\<And>moved. quiet (known (fr_id moved)) (tail_of moved)"
  shows "leads (\<lambda>e. e = e0)
     (and_then (set_db (\<lambda>db. end_attempt now db i result)) (\<lambda>_.
      and_then (move en now i status step_id) (\<lambda>moved.
      and_then (tail_of moved) (\<lambda>_. ret moved))))
     (after_settle en busy away n i)"
proof -
  define n' where "n' = (if status = Queued then n else Suc (spend en (e0\<lparr>en_db := end_attempt now (en_db e0) i result\<rparr>) i))"
  from assms(1) have ok: "engine_ok en busy (insert i away) e0" "idle busy e0 i" "row_of (en_db e0) i \<noteq> None"
    by (auto simp: may_settle_def run_row_of)
  have tried: "tried i e0" by (rule may_settle_row [OF assms(1)])
  have ended: "leads (\<lambda>e. e = e0) (set_db (\<lambda>db. end_attempt now db i result))
      (\<lambda>_ e. at_rest en busy away n' i e \<and> tried i e)"
    unfolding set_db_def
  proof (rule leads_change)
    fix e assume e: "e = e0"
    have "spend en (e0\<lparr>en_db := end_attempt now (en_db e0) i result\<rparr>) i < n'"
      using assms(4) by (simp add: n'_def)
    from ended_at_rest [OF ok tried this] show "at_rest en busy away n' i (e\<lparr>en_db := end_attempt now (en_db e) i result\<rparr>) \<and>
        tried i (e\<lparr>en_db := end_attempt now (en_db e) i result\<rparr>)"
      by (simp add: e)
  qed
  have rest: "leads (moved_to en busy away n' i status step_id None m) (tail_of m)
      (\<lambda>_. moved_to en busy away n' i status step_id None m)" for m
    by (rule quiet_leads [OF quiet_weaken [OF assms(5)] on_core_moved_to])
      (auto simp: moved_to_def rested_def at_rest_def known_def tried_def engine_ok_def)
  have finish: "leads (moved_to en busy away n' i status step_id None m) (ret m) (after_settle en busy away n i)" for m
  proof (rule leads_ret)
    fix e assume "moved_to en busy away n' i status step_id None m e"
    then have m: "rested en busy away n' i m e" "fr_status m = status" by (simp_all add: moved_to_def)
    show "after_settle en busy away n i m e"
    proof (cases "status = Queued")
      case False
      with m assms(2) rested_stopped [OF m(1)] show ?thesis by (auto simp: after_settle_def rested_def)
    qed (use m in \<open>simp add: after_settle_def n'_def\<close>)
  qed
  show ?thesis
    by (rule leads_and_then [OF ended leads_and_then [OF leads_move [OF assms(3)] leads_and_then [OF rest finish]]])
qed

lemma leads_settle_park:
  assumes "may_settle en busy away m i result0 e0"
    and "\<forall>r. run (en_db e0) i = Some r \<longrightarrow> \<not> approve_at en (fr_factory r) (Some step_id)"
  shows "leads (\<lambda>e. e = e0)
     (and_then (set_db (\<lambda>db. end_attempt now db i result)) (\<lambda>_. park_until now i step_id wakes_at))
     (after_settle en busy away n i)"
proof -
  let ?n = "Suc (spend en (e0\<lparr>en_db := end_attempt now (en_db e0) i result\<rparr>) i)"
  let ?P = "\<lambda>e. at_rest en busy away ?n i e \<and> tried i e \<and>
      (\<forall>r. row_of (en_db e) i = Some r \<longrightarrow> \<not> approve_at en (rr_factory r) (Some step_id))"
  from assms(1) have ok: "engine_ok en busy (insert i away) e0" "idle busy e0 i" "row_of (en_db e0) i \<noteq> None"
    by (auto simp: may_settle_def run_row_of)
  have tried: "tried i e0" by (rule may_settle_row [OF assms(1)])
  have "leads (\<lambda>e. e = e0) (set_db (\<lambda>db. end_attempt now db i result)) (\<lambda>_. ?P)"
    unfolding set_db_def
  proof (rule leads_change)
    fix e assume "e = e0"
    with ended_at_rest [OF ok tried lessI] assms(2)
    show "?P (e\<lparr>en_db := end_attempt now (en_db e) i result\<rparr>)"
      by (auto simp: run_row_of end_attempt_rows(2))
  qed
  then show ?thesis
    by (rule leads_and_then [OF _ leads_weaken [OF leads_park_until]]) (auto simp: after_settle_def)
qed

lemma quiet_factory_reports:
  "quiet (known (fr_id moved)) (case x of (True, Some call, Some g) \<Rightarrow> report g call moved (summary call) | _ \<Rightarrow> ret ())"
  by (auto simp: quiet_report quiet_ret split: prod.splits bool.splits option.splits)

text \<open>The attempt ended by a step's result: the run goes where \<open>settled\<close> sends it.\<close>

lemma leads_settle_result:
  assumes "may_settle en busy away n i result e0" "run (en_db e0) i = Some r" "fr_step r = Some j"
    and "env_factory en (fr_factory r) = Some f" "step_of f j = Some s" "sr_resets_at result = None"
    and "settled f s (if sr_ending result = Clean then checked_types s result else result) held
      (tally_of f (counted_attempts (en_db e0) i)) = (result', status, dest)"
    and "\<And>moved. quiet (known (fr_id moved)) (tail_of moved)"
  shows "leads (\<lambda>e. e = e0)
     (and_then (set_db (\<lambda>db. end_attempt now db i result')) (\<lambda>_.
      and_then (move en now i status dest) (\<lambda>moved.
      and_then (tail_of moved) (\<lambda>_. ret moved))))
     (after_settle en busy away n i)"
proof (rule leads_settle_move [OF assms(1) settled_goes [OF assms(7)] _ assms(8)])
  assume queued: "status = Queued"
  from assms(1) have ok: "engine_ok en busy (insert i away) e0" "idle busy e0 i" by (auto simp: may_settle_def)
  note le = ended_engine_ok(3) [OF ok, of now result']
  from assms(1) consider "spend en e0 i < n"
    | "spend en e0 i < Suc n" "sr_ending result = Failed" "has_open i j (en_db e0)"
    unfolding may_settle_def using assms(2,3) by force
  then show "spend en (e0\<lparr>en_db := end_attempt now (en_db e0) i result'\<rparr>) i < n"
  proof cases
    case 2
    with assms(7) queued have "settled f s result held (tally_of f (counted_attempts (en_db e0) i)) = (result', Queued, dest)"
      by simp
    from failed_attempt_costs [OF ok(1) assms(2,3) 2(3) assms(4,5) 2(2) this, of now] 2(1) show ?thesis by simp
  qed (use le in simp)
qed

text \<open>What \<open>settle\<close> does, by what it finds of the run, its factory and its step.\<close>

lemma settle_cases [case_names lost parks gone moves]:
  obtains "run (en_db e) i = None \<or> (\<exists>r. run (en_db e) i = Some r \<and> fr_step r = None)"
    "settle en now i result e = throw (Factory_Run_Not_Found i) e"
  | r j wakes_at where "run (en_db e) i = Some r" "fr_step r = Some j" "sr_resets_at result = Some wakes_at"
    "settle en now i result e = and_then (set_db (\<lambda>db. end_attempt now db i result)) (\<lambda>_.
       park_until now i j wakes_at) e"
  | r j where "run (en_db e) i = Some r" "fr_step r = Some j"
    "settle en now i result e = and_then (set_db (\<lambda>db. end_attempt now db i result)) (\<lambda>_.
       and_then (move en now i Needs_Human (Some j)) (\<lambda>moved.
       and_then (case (fr_status moved = Needs_Human,
           Option.bind (env_factory en (fr_factory r)) ff_needs_human, env_factory en (fr_factory r)) of
           (True, Some call, Some g) \<Rightarrow> report g call moved (Some (sr_summary result))
         | _ \<Rightarrow> ret ()) (\<lambda>_.
       ret moved))) e"
  | r j f s held result' status dest where "run (en_db e) i = Some r" "fr_step r = Some j"
    "env_factory en (fr_factory r) = Some f" "step_of f j = Some s" "sr_resets_at result = None"
    "settled f s (if sr_ending result = Clean then checked_types s result else result) held
       (tally_of f (counted_attempts (en_db e) i)) = (result', status, dest)"
    "settle en now i result e = and_then (set_db (\<lambda>db. end_attempt now db i result')) (\<lambda>_.
       and_then (move en now i status dest) (\<lambda>moved.
       and_then (case (fr_status moved = Needs_Human, ff_needs_human f) of
           (True, Some call) \<Rightarrow> report f call moved (Some (sr_summary result'))
         | _ \<Rightarrow> ret ()) (\<lambda>_.
       ret moved))) e"
proof (cases "Option.bind (run (en_db e) i) (\<lambda>r. map_option (Pair r) (fr_step r))")
  case None
  then show thesis
    by (intro that(1); cases "run (en_db e) i") (auto simp: settle_def bind_eq_None_conv split: option.splits)
next
  case (Some p)
  then obtain r j where rj: "run (en_db e) i = Some r" "fr_step r = Some j"
    by (auto simp: bind_eq_Some_conv)
  show thesis
  proof (cases "sr_resets_at result")
    case (Some wakes_at)
    with rj show thesis by (intro that(2)) (simp_all add: settle_def)
  next
    case now_on: None
    show thesis
    proof (cases "Option.bind (env_factory en (fr_factory r)) (\<lambda>g. step_of g j)")
      case None
      with rj now_on show thesis
        by (intro that(3) [OF rj]) (cases "env_factory en (fr_factory r)",
          simp_all add: settle_def Let_def del: act_simps cong del: option.case_cong_weak bool.case_cong_weak)
    next
      case (Some s)
      then obtain f where f: "env_factory en (fr_factory r) = Some f" "step_of f j = Some s"
        by (auto simp: bind_eq_Some_conv)
      obtain result' status dest where st: "settled f s
          (if sr_ending result = Clean then checked_types s result else result)
          (dict_union (fr_work_item r) (results f (attempts (en_db e) i) None))
          (tally_of f (counted_attempts (en_db e) i)) = (result', status, dest)"
        by (metis surj_pair)
      show thesis
        by (rule that(4) [OF rj f now_on st]) (simp add: settle_def rj now_on Let_def f st del: act_simps)
    qed
  qed
qed

lemma leads_settle: "leads (may_settle en busy away n i result) (settle en now i result) (after_settle en busy away n i)"
proof (rule leads_pointwise)
  fix e0 assume P: "may_settle en busy away n i result e0"
  from may_settle_row [OF P] obtain r j where rj: "run (en_db e0) i = Some r" "fr_step r = Some j" by blast
  show "leads (\<lambda>e. e = e0) (settle en now i result) (after_settle en busy away n i)"
  proof (cases rule: settle_cases [where en = en and now = now and i = i and result = result and e = e0])
    case lost
    with rj show ?thesis by simp
  next
    case (parks r j wakes_at)
    with P have "\<forall>r. run (en_db e0) i = Some r \<longrightarrow> \<not> approve_at en (fr_factory r) (Some j)"
      by (auto simp: may_settle_def)
    from leads_settle_park [OF P this] show ?thesis by (rule leads_same) (rule parks(4))
  next
    case (gone r j)
    have "leads (\<lambda>e. e = e0)
       (and_then (set_db (\<lambda>db. end_attempt now db i result)) (\<lambda>_.
        and_then (move en now i Needs_Human (Some j)) (\<lambda>moved.
        and_then (case (fr_status moved = Needs_Human,
            Option.bind (env_factory en (fr_factory r)) ff_needs_human, env_factory en (fr_factory r)) of
            (True, Some call, Some g) \<Rightarrow> report g call moved (Some (sr_summary result))
          | _ \<Rightarrow> ret ()) (\<lambda>_. ret moved)))) (after_settle en busy away n i)"
      by (rule leads_settle_move [OF P _ _ _ quiet_factory_reports]) simp_all
    then show ?thesis by (rule leads_same) (rule gone(3))
  next
    case (moves r j f s held result' status dest)
    have "quiet (known (fr_id moved)) (case (fr_status moved = Needs_Human, ff_needs_human f) of
        (True, Some call) \<Rightarrow> report f call moved (Some (sr_summary result')) | _ \<Rightarrow> ret ())" for moved
      by (auto simp: quiet_report quiet_ret split: option.splits bool.splits)
    from leads_settle_result [OF P moves(1-6) this] show ?thesis by (rule leads_same) (rule moves(7))
  qed
qed

end
