(* ===== verification/Run_Enqueue.thy ===== *)
theory Run_Enqueue
  imports Run_Settle Factory_Check
begin

text \<open>
  Queueing a step. Placing one never raises in a factory that passed its check. What \<open>advance\<close> and
  \<open>park\<close> need of the queueing they are given is a contract (\<open>step_queue\<close>): from a run at rest that
  may still spend less than a bound it returns with the run under way again. \<open>enqueue\<close> meets it for
  every bound, by induction on its fuel.
\<close>

section \<open>Where a step goes\<close>

text \<open>Every factory on disk has a step, as its schema asks, and passed its check.\<close>

definition served :: "env \<Rightarrow> bool" where
  "served en \<longleftrightarrow> (\<forall>factory f. env_factory en factory = Some f \<longrightarrow>
     ff_steps f \<noteq> [] \<and> check_order f = [] \<and> check_resumes f = [])"

lemma step_of_id: "step_of f i = Some s \<Longrightarrow> st_id s = i"
  using find_Some_key [of st_id i "ff_steps f" s] by (simp add: step_of_def)

lemma unmet_held:
  assumes "unmet f s held = None"
  shows "set (run_value_names s) \<subseteq> fst ` set held"
proof
  fix n assume "n \<in> set (run_value_names s)"
  moreover have "lacking held (st_requires s @ run_value_names s) = None"
    using assms by (auto simp: unmet_def split: option.splits)
  ultimately have "dict_get held n (VBool False) \<noteq> VBool False"
    by (auto simp: lacking_def find_None_iff)
  then have "map_of held n \<noteq> None" by (auto simp: dict_get_def split: option.splits)
  then show "n \<in> fst ` set held" by (simp add: map_of_eq_None_iff)
qed

lemma run_value_name_found: "run_value_name (VStr b) = Some n \<Longrightarrow> find_run_values b = [n]"
  by (auto split: option.splits list.splits)

lemma branch_of_total:
  assumes "\<And>b. branch = Some b \<Longrightarrow> set (find_run_values b) \<subseteq> fst ` set held"
  shows "branch_of branch held \<noteq> None"
proof (cases "Option.bind branch (\<lambda>b. run_value_name (VStr b))")
  case (Some n)
  then obtain b where "branch = Some b" "run_value_name (VStr b) = Some n" by (auto simp: bind_eq_Some_conv)
  with assms [of b] have "n \<in> fst ` set held" by (simp add: run_value_name_found del: run_value_name.simps)
  then have "map_of held n \<noteq> None" by (simp add: map_of_eq_None_iff)
  with Some show ?thesis by (auto simp: branch_of_def)
qed (simp add: branch_of_def)

lemma filled_entries_total:
  "(\<And>c. Command c \<in> set es \<Longrightarrow> set (find_run_values c) \<subseteq> fst ` set held) \<Longrightarrow> filled_entries es held \<noteq> None"
proof (induction es held rule: filled_entries.induct)
  case (2 c es held)
  then obtain t where "with_run_values c held = Some t" using with_run_values_total by fastforce
  with 2 show ?case by auto
qed auto

lemma client_run_returns:
  assumes "check_order f = []" "check_resumes f = []" "unmet f s held = None" "is_client (st_kind s)"
  shows "\<exists>x. client_run en r f as s held = Inr x"
proof (cases "st_kind s")
  case (Client_Step inst client prompt hook resume model effort branch)
  have "branch_of branch held \<noteq> None"
    using unmet_held [OF assms(3)] Client_Step by (intro branch_of_total) (auto simp: run_value_names_def)
  then obtain b where b: "branch_of branch held = Some b" by blast
  show ?thesis
  proof (cases "prompt_of en r (st_id s) prompt")
    case (Inr wording)
    show ?thesis
    proof (cases resume)
      case (Some j)
      obtain session where "session_of f as j = Some session"
        using chase_ends_anywhere [OF assms(1,2)] by (auto simp: session_of_def Let_def)
      with Some Inr Client_Step b show ?thesis by (cases session) (simp_all add: client_run_def)
    qed (use Inr Client_Step b in \<open>simp add: client_run_def\<close>)
  qed (use Client_Step in \<open>simp add: client_run_def\<close>)
qed (use assms(4) in simp_all)

lemma asked_of_returns:
  assumes "check_order f = []" "check_resumes f = []" "unmet f s held = None" "kind_instance (st_kind s) \<noteq> None"
  shows "\<exists>x. asked_of en r f as s held = Inr x"
proof (cases "st_kind s")
  case Client_Step
  with client_run_returns [OF assms(1-3), of en r as] show ?thesis by (auto simp: asked_of_def)
next
  case (Command_Step inst es hook branch)
  have "filled_entries es held \<noteq> None" "branch_of branch held \<noteq> None"
    using unmet_held [OF assms(3)] Command_Step
    by (intro filled_entries_total branch_of_total; force simp: run_value_names_def)+
  with Command_Step show ?thesis by (auto simp: asked_of_def)
qed (use assms(4) in \<open>simp_all add: asked_of_def\<close>)

lemma place_returns:
  assumes "\<And>f. env_factory en (fr_factory r) = Some f \<Longrightarrow> check_order f = [] \<and> check_resumes f = []"
  shows "\<exists>p. place en hub as r i = Inr p"
proof (cases "Option.bind (env_factory en (fr_factory r)) (\<lambda>f. map_option (Pair f) (step_of f i))")
  case (Some fs)
  then obtain f s where f: "env_factory en (fr_factory r) = Some f" "step_of f i = Some s" "fs = (f, s)"
    by (auto simp: bind_eq_Some_conv)
  let ?held = "dict_union (fr_work_item r) (results f as (Some (st_id s)))"
  show ?thesis
  proof (cases "unmet f s ?held")
    case None
    show ?thesis
    proof (cases "kind_instance (st_kind s)")
      case (Some role)
      with asked_of_returns [OF _ _ None, of en r as] assms f obtain x where "asked_of en r f as s ?held = Inr x"
        by auto
      with None Some f \<open>Option.bind _ _ = _\<close> show ?thesis
        by (cases x) (auto simp: place_def Let_def split: prod.splits option.splits)
    qed (use None Some f in \<open>simp add: place_def Let_def\<close>)
  qed (use Some f in \<open>simp add: place_def Let_def\<close>)
qed (simp add: place_def)

lemma place_park:
  assumes "place en hub as r i = Inr (Into_Park s)"
  shows "\<exists>f. env_factory en (fr_factory r) = Some f \<and> step_of f (st_id s) = Some s \<and> kind_instance (st_kind s) = None"
  using assms step_of_id
  by (fastforce simp: place_def Let_def bind_eq_Some_conv split: option.splits sum.splits prod.splits)

lemma place_instance:
  assumes "place en hub as r i = Inr (To_Instance inst q)"
  shows "qs_run q = fr_id r" "qs_step q = i" "\<not> approve_at en (fr_factory r) (Some i)"
proof -
  obtain f s where f: "env_factory en (fr_factory r) = Some f" "step_of f i = Some s"
      "kind_instance (st_kind s) \<noteq> None" "qs_run q = fr_id r" "qs_step q = st_id s"
    using assms
    by (auto simp: place_def Let_def bind_eq_Some_conv split: option.splits sum.splits prod.splits)
  with step_of_id show "qs_run q = fr_id r" "qs_step q = i" by simp_all
  from f show "\<not> approve_at en (fr_factory r) (Some i)"
    by (cases "st_kind s") (simp_all add: approve_at_def step_at_def)
qed

text \<open>A step handed to an instance waits in its queue.\<close>

lemma put_step_keeps:
  assumes "rested en busy away n i r e" "fr_status r = Queued" "qs_run q = i" "fr_step r = Some (qs_step q)"
    "\<not> approve_at en (fr_factory r) (Some (qs_step q))"
  shows "engine_ok en busy (away - {i}) (snd (put inst (Q_Step q) e))"
proof -
  let ?e = "snd (put inst (Q_Step q) e)"
  from assms(1) have e: "engine_ok en busy (insert i away) e" "idle busy e i" "run (en_db e) i = Some r"
    by (auto simp: rested_def at_rest_def)
  then obtain rr where rr: "row_of (en_db e) i = Some rr" "r = factory_run_of rr" by (auto simp: run_row_of)
  have put: "en_db ?e = en_db e" "en_deadlines ?e = en_deadlines e"
    "queued_steps ?e j = queued_steps e j + (if j = i then {#q#} else {#})" for j
    using assms(3) by (auto simp: put_def queued_steps_def steps_queued_put)
  show ?thesis
  proof (rule engine_ok_own [OF e(1) put(1)])
    from engine_ok_run [OF e(1), of i] engine_row(1) [OF e(1) rr(1)] e(2) rr assms(2,4,5)
    show "run_fine en busy (away - {i}) ?e i"
      by (simp add: run_fine_def put idle_def under_way_def)
  next
    show "en_strays ?e = strays busy" using e(1) by (simp add: put_def engine_ok_def)
  qed (simp_all add: put)
qed

text \<open>The timer of a wait that the run parked at.\<close>

lemma first_end_member: "first_end xs = Some x \<Longrightarrow> x \<in> set xs"
  by (induction xs arbitrary: x) (auto split: option.splits if_splits)

lemma wait_ends_resets: "(after, result) \<in> set (wait_ends s) \<Longrightarrow> sr_resets_at result = None"
  by (auto simp: wait_ends_def plain_result_def split: step_kind.splits option.splits)

text \<open>A run whose open attempt is at a wait, with its step in its factory.\<close>

definition waits :: "env \<Rightarrow> uuid \<Rightarrow> step \<Rightarrow> engine \<Rightarrow> bool" where
  "waits en i s e \<longleftrightarrow> en_deadlines e i = None \<and> open_attempts (en_db e) i \<noteq> [] \<and>
     (\<exists>r f. run (en_db e) i = Some r \<and> fr_status r = Parked \<and> fr_wakes_at r = None \<and> fr_step r = Some (st_id s) \<and>
        env_factory en (fr_factory r) = Some f \<and> step_of f (st_id s) = Some s)"

lemma parked_under_way:
  assumes "engine_ok en busy (insert i away) e" "waits en i s e" "first_end (wait_ends s) = None"
  shows "engine_ok en busy (away - {i}) e"
proof (rule engine_ok_back [OF assms(1)])
  fix r assume "row_of (en_db e) i = Some r"
  with assms(2,3) engine_row(1) [OF assms(1) this] show "under_way en busy e r"
    by (auto simp: waits_def run_row_of under_way_def untimed_at_def step_at_def)
qed

lemma leads_arm:
  "leads (\<lambda>e. engine_ok en busy (insert i away) e \<and> waits en i s e \<and> is_wait (st_kind s))
     (arm i s t) (\<lambda>_. engine_ok en busy (away - {i}))"
proof (cases "first_end (wait_ends s)")
  case None
  then show ?thesis unfolding arm_def by simp (rule leads_ret, blast intro: parked_under_way)
next
  case (Some p)
  obtain after result where p: "p = (after, result)" by (cases p)
  then have resets: "sr_resets_at result = None"
    using wait_ends_resets first_end_member [OF Some] by simp
  show ?thesis
    unfolding arm_def Some p option.case prod.case
  proof (rule leads_set_timer, elim conjE)
    fix e assume e: "engine_ok en busy (insert i away) e" "waits en i s e" "is_wait (st_kind s)"
    then obtain rr where rr: "row_of (en_db e) i = Some rr" by (auto simp: waits_def run_row_of)
    have "\<not> is_approve (st_kind s)" using e(3) by (cases "st_kind s") simp_all
    with e(2) rr resets show "en_deadlines e i = None \<and>
        engine_ok en busy (away - {i}) (armed i (Some (Expire (t + int after * SECOND) result)) e)"
      by (intro conjI armed_engine_ok [OF e(1) rr]) (auto simp: waits_def run_row_of timer_ok_def approve_at_def step_at_def)
  qed
qed

lemma leads_split:
  "leads (\<lambda>e. P e \<and> c e) m Q \<Longrightarrow> leads (\<lambda>e. P e \<and> \<not> c e) m' Q \<Longrightarrow> leads P (\<lambda>e. if c e then m e else m' e) Q"
  by (auto simp: leads_def)

section \<open>The contract of queueing\<close>

locale step_queue =
  fixes en :: env and busy :: busy and away :: "uuid set" and n :: nat and queue_step :: "factory_run \<Rightarrow> unit act"
  assumes queues: "served en \<Longrightarrow> leads (\<lambda>e. rested en busy away n i r e \<and> fr_status r = Queued)
    (queue_step r) (\<lambda>_. engine_ok en busy (away - {i}))"
begin

lemma advance_keeps:
  assumes "served en"
  shows "leads (may_settle en busy away n i result) (advance_by queue_step en now i result)
     (\<lambda>_. engine_ok en busy (away - {i}))"
proof -
  have "leads (after_settle en busy away n i moved)
      (if fr_status moved = Queued then queue_step moved else ret ()) (\<lambda>_. engine_ok en busy (away - {i}))" for moved
    by (rule leads_if; (rule leads_weaken [OF queues [OF assms]] | rule leads_ret)) (auto simp: after_settle_def)
  then show ?thesis
    unfolding advance_by_def by (rule leads_and_then [OF leads_settle leads_and_then [OF _ leads_ret]])
qed

text \<open>A step that cannot start fails an attempt, and the run goes where that sends it.\<close>

lemma refused_keeps:
  assumes "served en"
  shows "leads (\<lambda>e. rested en busy away (Suc n) i r e \<and> fr_status r = Queued)
     (and_then (on_db (\<lambda>db. begin_attempt now db i j Running)) (\<lambda>running.
      and_then (publish running) (\<lambda>_.
      and_then (advance_by queue_step en now i (plain_result Failed why)) (\<lambda>_.
      ret ()))))
     (\<lambda>_. engine_ok en busy (away - {i}))"
proof -
  have publish: "leads (begun en busy away (Suc n) i j Running m) (publish m)
      (\<lambda>_. begun en busy away (Suc n) i j Running m)" for m
    by (rule quiet_leads [OF quiet_publish on_core_begun])
  have advance: "leads (begun en busy away (Suc n) i j Running m)
      (advance_by queue_step en now i (plain_result Failed why)) (\<lambda>_. engine_ok en busy (away - {i}))" for m
    by (rule leads_weaken [OF advance_keeps [OF assms]]) (auto simp: begun_def may_settle_def plain_result_def)
  show ?thesis
    by (rule leads_and_then [OF leads_weaken [OF leads_begin_attempt [where F = "\<lambda>_. True"]]
          leads_and_then [OF leads_weaken [OF publish] leads_and_then [OF advance leads_ret]]])
      (auto simp: rested_def)
qed

text \<open>A run that comes to a wait or an approve step parks there.\<close>

lemma woken_keeps:
  assumes "served en"
  shows "leads (\<lambda>e. begun en busy away (Suc n) i (st_id s) Parked m e \<and> env_factory en (fr_factory m) \<noteq> None \<and>
       st_id s \<in> set (en_woken e i))
     (and_then (change (\<lambda>e. e\<lparr>en_woken := (en_woken e)(i := removeAll (st_id s) (en_woken e i))\<rparr>)) (\<lambda>_.
      and_then (advance_by queue_step en now i (plain_result Clean why)) (\<lambda>_. ret ())))
     (\<lambda>_. engine_ok en busy (away - {i}))"
proof (rule leads_and_then [OF leads_change leads_and_then [OF advance_keeps [OF assms] leads_ret]])
  fix e assume B: "begun en busy away (Suc n) i (st_id s) Parked m e \<and> env_factory en (fr_factory m) \<noteq> None \<and>
      st_id s \<in> set (en_woken e i)"
  let ?e = "e\<lparr>en_woken := (en_woken e)(i := removeAll (st_id s) (en_woken e i))\<rparr>"
  have "length (removeAll (st_id s) (en_woken e i)) < length (en_woken e i)"
    using B by (intro length_removeAll_less) simp
  moreover have "engine_ok en busy (insert i away) ?e"
    using B by (simp add: begun_def engine_ok_def run_fine_def under_way_def queued_steps_def
        cong: option.case_cong run_status.case_cong)
  moreover have "idle busy ?e i" using B by (simp add: begun_def idle_def queued_steps_def)
  ultimately show "may_settle en busy away n i (plain_result Clean why) ?e"
    using B by (auto simp: may_settle_def begun_def plain_result_def spend_def split: option.splits)
qed

lemma park_keeps:
  assumes "served en"
  shows "leads (\<lambda>e. rested en busy away (Suc n) i r e \<and> fr_status r = Queued \<and> kind_instance (st_kind s) = None \<and>
       (\<exists>f. env_factory en (fr_factory r) = Some f \<and> step_of f (st_id s) = Some s))
     (park_by (advance_by queue_step en now) now i s)
     (\<lambda>_. engine_ok en busy (away - {i}))"
proof -
  let ?F = "\<lambda>factory. \<exists>f. env_factory en factory = Some f \<and> step_of f (st_id s) = Some s"
  let ?B = "\<lambda>m e. begun en busy away (Suc n) i (st_id s) Parked m e \<and> ?F (fr_factory m)"
  have publish: "leads (?B m) (publish m) (\<lambda>_. ?B m)" for m
    by (rule quiet_leads [OF quiet_publish on_core_conj [OF on_core_begun on_core_simple(5)]])
  have waits: "engine_ok en busy (insert i away) e \<and> waits en i s e" if "?B m e" for m e
    using that by (auto simp: begun_def waits_def idle_def)
  have approval: "leads (?B m) (ret ()) (\<lambda>_. engine_ok en busy (away - {i}))" if "\<not> is_wait (st_kind s)" for m
  proof (rule leads_ret)
    fix e assume "?B m e"
    moreover have "wait_ends s = []" using that by (cases "st_kind s") (simp_all add: wait_ends_def)
    ultimately show "engine_ok en busy (away - {i}) e"
      using waits parked_under_way [of en busy i away e s] by simp
  qed
  have wait: "leads (?B m)
      (\<lambda>e. if st_id s \<in> set (en_woken e i)
           then and_then (change (\<lambda>e. e\<lparr>en_woken := (en_woken e)(i := removeAll (st_id s) (en_woken e i))\<rparr>)) (\<lambda>_.
                and_then (advance_by queue_step en now i (plain_result Clean why)) (\<lambda>_. ret ())) e
           else arm i s t e) (\<lambda>_. engine_ok en busy (away - {i}))" if "is_wait (st_kind s)" for m why t
    using that by (intro leads_split leads_weaken [OF woken_keeps [OF assms]] leads_weaken [OF leads_arm])
      (auto simp: begun_def waits_def idle_def)
  show ?thesis
    unfolding park_by_def
    by (rule leads_and_then [OF leads_weaken [OF leads_begin_attempt [where F = ?F]] leads_and_then [OF publish leads_if]])
      (auto simp: rested_def intro: approval wait)
qed

end

section \<open>Queueing a step\<close>

lemma enqueue_rounds_queues: "step_queue en busy away n (enqueue_rounds n en now)"
proof (induction n)
  case 0
  show ?case by standard (simp add: leads_def rested_def at_rest_def)
next
  case (Suc n)
  show ?case
  proof
    fix i r assume served: "served en"
    show "leads (\<lambda>e. rested en busy away (Suc n) i r e \<and> fr_status r = Queued)
      (enqueue_rounds (Suc n) en now r) (\<lambda>_. engine_ok en busy (away - {i}))"
    proof (rule leads_pointwise)
      fix e0 assume P: "rested en busy away (Suc n) i r e0 \<and> fr_status r = Queued"
      then have ok: "engine_ok en busy (insert i away) e0" and i: "i = fr_id r" and run: "run (en_db e0) i = Some r"
        by (simp_all add: rested_def at_rest_def)
      then obtain j where j: "fr_step r = Some j"
        using P engine_row(2) [OF ok] by (fastforce simp: run_row_of row_fine_def)
      obtain p where p: "place en (en_hub e0) (attempts (en_db e0) (fr_id r)) r j = Inr p"
        using place_returns [of en r] served unfolding served_def by blast
      show "leads (\<lambda>e. e = e0) (enqueue_rounds (Suc n) en now r) (\<lambda>_. engine_ok en busy (away - {i}))"
      proof (cases p)
        case (To_Instance inst q)
        with p have q: "qs_run q = i" "fr_step r = Some (qs_step q)" "\<not> approve_at en (fr_factory r) (Some (qs_step q))"
          using place_instance [of en "en_hub e0" "attempts (en_db e0) (fr_id r)" r j inst q] i j by auto
        with put_step_keeps [of en busy away "Suc n" i r e0 q inst] P j p To_Instance show ?thesis
          by (simp add: leads_def put_def)
      next
        case (Into_Park s)
        with p place_park P have "rested en busy away (Suc n) i r e0 \<and> fr_status r = Queued \<and> kind_instance (st_kind s) = None \<and>
            (\<exists>f. env_factory en (fr_factory r) = Some f \<and> step_of f (st_id s) = Some s)"
          by blast
        from leads_start [OF step_queue.park_keeps [OF Suc served], OF this, of now] show ?thesis
          unfolding i by (rule leads_same) (simp add: j p Into_Park del: act_simps)
      next
        case (Refused_Step refusal)
        from leads_start [OF step_queue.refused_keeps [OF Suc served], OF P, of now "rf_step refusal" "rf_reason refusal"]
        show ?thesis unfolding i by (rule leads_same) (simp add: j p Refused_Step del: act_simps)
      qed
    qed
  qed
qed

text \<open>\<open>engine_fuel\<close> is enough for every run at rest, whatever bound it comes with.\<close>

interpretation enqueueing: step_queue en busy away n "enqueue en now" for en busy away n now
proof
  fix i r assume served: "served en"
  show "leads (\<lambda>e. rested en busy away n i r e \<and> fr_status r = Queued)
      (enqueue en now r) (\<lambda>_. engine_ok en busy (away - {i}))"
  proof (rule leads_pointwise)
    fix e0 assume "rested en busy away n i r e0 \<and> fr_status r = Queued"
    then have "rested en busy away (engine_fuel en e0 (fr_id r)) i r e0 \<and> fr_status r = Queued"
      by (auto simp: rested_def at_rest_def spend_fuel)
    from leads_start [OF step_queue.queues [OF enqueue_rounds_queues served] this]
    show "leads (\<lambda>e. e = e0) (enqueue en now r) (\<lambda>_. engine_ok en busy (away - {i}))"
      by (rule leads_same) (simp add: enqueue_def)
  qed
qed

end
