(* ===== verification/Run_Frames.thy ===== *)
theory Run_Frames
  imports Run_Enqueue
begin

text \<open>
  What the engine does for one run leaves every other run's row, attempts, timer and queued steps
  alone, and no run's row appears or goes (\<open>only\<close>), whatever state it starts in and whether it
  returns or raises.
\<close>

definition same_for :: "uuid \<Rightarrow> engine \<Rightarrow> engine \<Rightarrow> bool" where
  "same_for j e e' \<longleftrightarrow> row_of (en_db e') j = row_of (en_db e) j \<and>
     attempts_of (en_db e') j = attempts_of (en_db e) j \<and>
     queued_steps e' j = queued_steps e j \<and> en_deadlines e' j = en_deadlines e j"

definition apart :: "uuid \<Rightarrow> engine \<Rightarrow> engine \<Rightarrow> bool" where
  "apart i e e' \<longleftrightarrow> (\<forall>j. if j = i then (row_of (en_db e') j = None) = (row_of (en_db e) j = None) else same_for j e e')"

definition only :: "uuid \<Rightarrow> 'a act \<Rightarrow> bool" where
  "only i m \<longleftrightarrow> (\<forall>e. apart i e (snd (m e)))"

lemma same_for_refl [simp]: "same_for j e e"
  by (simp add: same_for_def)

lemma same_for_trans: "same_for j e e' \<Longrightarrow> same_for j e' e'' \<Longrightarrow> same_for j e e''"
  by (simp add: same_for_def)

lemma apart_refl [simp]: "apart i e e"
  by (simp add: apart_def)

lemma apart_trans: "apart i e e' \<Longrightarrow> apart i e' e'' \<Longrightarrow> apart i e e''"
  unfolding apart_def by (metis same_for_trans)

lemma apart_same: "(\<And>j. same_for j e e') \<Longrightarrow> apart i e e'"
  by (simp add: apart_def same_for_def)

lemma onlyA: "only i m \<Longrightarrow> apart i e (snd (m e))"
  by (simp add: only_def)

lemma onlyD: "only i m \<Longrightarrow> j \<noteq> i \<Longrightarrow> same_for j e (snd (m e))"
  by (simp add: only_def apart_def)

lemma only_rows: "only i m \<Longrightarrow> (row_of (en_db (snd (m e))) j = None) = (row_of (en_db e) j = None)"
  using onlyA [of i m e] onlyD [of i m j e] by (cases "j = i") (simp_all add: apart_def same_for_def)

lemma only_ret: "only i (ret x)" and only_throw: "only i (throw err)"
  by (simp_all add: only_def)

lemma only_change: "(\<And>e. apart i e (f e)) \<Longrightarrow> only i (change f)"
  by (simp add: only_def)

text \<open>A piece whose continuation needs to know what it yields.\<close>

definition yields :: "('a \<Rightarrow> bool) \<Rightarrow> 'a act \<Rightarrow> bool" where
  "yields P m \<longleftrightarrow> (\<forall>e x e'. m e = (Inr x, e') \<longrightarrow> P x)"

lemma yields_any: "yields (\<lambda>_. True) m"
  by (simp add: yields_def)

lemma only_bind:
  assumes "only i m" "yields R m" "\<And>x. R x \<Longrightarrow> only i (k x)"
  shows "only i (and_then m k)"
  unfolding only_def
proof
  fix e
  obtain res e' where m: "m e = (res, e')" by (cases "m e")
  with onlyA [OF assms(1), of e] have "apart i e e'" by simp
  moreover have "R x" if "res = Inr x" for x using assms(2) m that unfolding yields_def by blast
  ultimately show "apart i e (snd (and_then m k e))"
    using m onlyA [OF assms(3)] by (cases res) (auto intro: apart_trans)
qed

lemma only_and_then: "only i m \<Longrightarrow> (\<And>x. only i (k x)) \<Longrightarrow> only i (and_then m k)"
  by (rule only_bind [OF _ yields_any])

text \<open>A piece that reads the state it starts in: some piece that keeps to the run, in each state.\<close>

lemma only_at: "(\<And>e. only i (m e)) \<Longrightarrow> only i (\<lambda>e. m e e)"
  by (simp add: only_def)

lemma only_if: "only i m \<Longrightarrow> only i n \<Longrightarrow> only i (if b then m else n)"
  by simp

definition apart_db :: "uuid \<Rightarrow> run_db \<Rightarrow> run_db \<Rightarrow> bool" where
  "apart_db i db db' \<longleftrightarrow> (\<forall>j. if j = i then (row_of db' j = None) = (row_of db j = None)
     else row_of db' j = row_of db j \<and> attempts_of db' j = attempts_of db j)"

lemma only_on_db: "(\<And>db db' x. f db = Inr (db', x) \<Longrightarrow> apart_db i db db') \<Longrightarrow> only i (on_db f)"
  by (fastforce simp: only_def on_db_def apart_def same_for_def apart_db_def split: sum.splits)

lemma only_set_db: "(\<And>db. apart_db i db (f db)) \<Longrightarrow> only i (set_db f)"
  by (fastforce simp: only_def set_db_def apart_def same_for_def apart_db_def)

lemma only_existing: "only i (existing k)"
  by (simp add: only_def existing_def split: option.splits)

lemma only_publish: "only i (publish r)"
  unfolding publish_def by (rule only_change) (simp add: apart_same same_for_def queued_steps_def)

lemma only_set_timer: "only i (set_timer i t)" and only_disarm: "only i (disarm i)"
  unfolding set_timer_def disarm_def
  by (rule only_change, simp add: apart_def same_for_def queued_steps_def)+

lemma only_put: "(\<And>j. j \<noteq> i \<Longrightarrow> steps_in j [q] = {#}) \<Longrightarrow> only i (put inst q)"
  unfolding put_def by (rule only_change) (simp add: apart_def same_for_def queued_steps_def steps_queued_put)

lemmas only_intros = only_ret only_throw only_and_then only_if only_existing only_publish
  only_set_timer only_disarm

section \<open>Writes of the run tables\<close>

lemma apart_db_set: "(\<And>r. rr_id (f r) = rr_id r) \<Longrightarrow> apart_db i db0 db \<Longrightarrow> apart_db i db0 (set_run i f db)"
  by (simp add: apart_db_def row_of_set_run of_set_run option.map_ident cong: if_cong)

lemma apart_db_refl: "apart_db i db db"
  by (simp add: apart_db_def)

lemma row_of_set_run_other: "(\<And>r. rr_id (f r) = rr_id r) \<Longrightarrow> j \<noteq> i \<Longrightarrow> row_of (set_run i f db) j = row_of db j"
  by (simp add: row_of_set_run option.map_ident cong: if_cong)

lemma only_move_run: "only i (on_db (\<lambda>db. move_run now db i status step_id wakes_at ended_call))"
proof (rule only_on_db)
  fix db db' x assume moved: "move_run now db i status step_id wakes_at ended_call = Inr (db', x)"
  have stop: "apart_db i db db2" if "record_stop i db1 = Inr db2" "apart_db i db db1" for db1 db2
    using that by (auto simp: record_stop_def apart_db_def attempts_of_def split: option.splits if_splits)
  from moved show "apart_db i db db'"
    by (auto simp: move_run_def Let_def split: if_splits sum.splits intro!: apart_db_set apart_db_refl dest!: stop)
qed

lemma only_begin: "only i (on_db (\<lambda>db. begin_attempt now db i step_id status))"
proof (rule only_on_db)
  fix db db' x assume begun: "begin_attempt now db i step_id status = Inr (db', x)"
  have "apart_db i db (db\<lparr>attempt_rows := attempt_rows db @ [a]\<rparr>)" if "ar_run a = i" for a
    using that by (simp add: apart_db_def attempts_of_def)
  with begun show "apart_db i db db'"
    by (auto simp: begin_attempt_def Let_def split: if_splits sum.splits intro!: apart_db_set)
qed

lemma only_drop: "only i (on_db (\<lambda>db. drop_attempt now db i))"
proof (rule only_on_db)
  fix db db' x assume dropped: "drop_attempt now db i = Inr (db', x)"
  have "row_delete (open_attempt i) (attempts_of db j) = attempts_of db j" if "j \<noteq> i" for j
    using that unfolding row_delete_def by (intro filter_True) (auto simp: open_attempt_def attempts_of_def)
  with dropped show "apart_db i db db'"
    by (auto simp: drop_attempt_eq apart_db_def dropped_db_simps option.map_ident split: option.splits)
qed

lemma only_restart: "only i (on_db (\<lambda>db. restart_run now db i step_id))"
  by (rule only_on_db) (auto simp: restart_run_def Let_def split: sum.splits intro!: apart_db_set apart_db_refl)

lemma only_end: "only i (set_db (\<lambda>db. end_attempt now db i result))"
proof (rule only_set_db)
  fix db
  have "map (\<lambda>a. if open_attempt i a then ended_row now result a else a) (attempts_of db j) = attempts_of db j"
    if "j \<noteq> i" for j
    using that by (intro map_idI) (auto simp: open_attempt_def attempts_of_def)
  then show "apart_db i db (end_attempt now db i result)"
    by (simp add: apart_db_def end_attempt_rows(2) end_attempt_attempts_of)
qed

section \<open>What tells of a move\<close>

lemma only_put_stop: "only i (put_stop q)"
  unfolding put_stop_def
proof (intro only_intros)
  fix r
  show "only i (\<lambda>e. case instance_record (en_hub e) (fr_instance r) of None \<Rightarrow> (Inr (), e)
      | Some owner \<Rightarrow> if active owner then put (mi_id owner) (Q_Stop q) e else (Inr (), e))"
    using onlyA [OF only_put [of i "Q_Stop q"]] by (auto simp: only_def split: option.splits)
qed

lemma only_put_report: "only i (put_report q)"
  unfolding put_report_def
proof (intro only_intros)
  fix r
  show "only i (\<lambda>e. case holder (en_hub e) r (qr_instance q) of None \<Rightarrow> (Inr (), e) | Some inst \<Rightarrow> put inst (Q_Report q) e)"
    using onlyA [OF only_put [of i "Q_Report q"]] by (auto simp: only_def split: option.splits)
qed

lemma only_report: "only i (report f call r summary)"
  unfolding only_def report_def Let_def using onlyA [OF only_put_report]
  by (auto split: option.splits list.splits)

lemma only_notify_stop: "only i (notify_stop r stop f)"
  by (auto simp: only_def notify_stop_def Let_def same_for_def queued_steps_def intro!: apart_same split: option.splits)

lemma only_read: "only i (on_db (\<lambda>db. map_sum id (\<lambda>s. (db, s)) (g db)))"
proof (rule only_on_db)
  fix db db' x assume "map_sum id (\<lambda>s. (db, s)) (g db) = Inr (db', x)"
  then show "apart_db i db db'" by (cases "g db") (auto simp: apart_db_refl)
qed

lemma only_after_move: "only i (after_move f ended k moved)"
proof -
  have "only i (\<lambda>e. let generation = stop_generation (en_db e) k
         in and_then (on_db (\<lambda>db. map_sum id (\<lambda>s. (db, s)) (run_stop db k generation))) (\<lambda>s.
            and_then (put_stop \<lparr>qp_stop = s, qp_waited = 0\<rparr>) (\<lambda>_.
            if fr_status moved = Needs_Human
            then notify_stop moved \<lparr>ref_run = k, ref_generation = generation\<rparr> f
            else ret ())) e)"
    unfolding Let_def by (rule only_at) (intro only_intros only_read only_put_stop only_notify_stop)
  then show ?thesis
    unfolding after_move_def
    by (intro only_intros) (auto intro: only_report only_ret split: option.splits)
qed

section \<open>Moves, settled attempts and queued steps\<close>

lemma only_move: "only i (move en now i status step_id)"
  unfolding move_after Let_def by (intro only_intros only_move_run only_after_move)

lemma only_park_until: "only i (park_until now i step_id wakes_at)"
  unfolding park_until_def by (intro only_intros only_move_run)

lemma only_reports: "only i (case x of (True, Some call) \<Rightarrow> report g call moved (summary call) | _ \<Rightarrow> ret ())"
  "only i (case y of (True, Some call, Some g) \<Rightarrow> report g call moved (summary call) | _ \<Rightarrow> ret ())"
  by (auto intro: only_report only_ret split: prod.splits bool.splits option.splits)

lemma only_settle: "only i (settle en now i result)"
  unfolding only_def
proof
  fix e
  show "apart i e (snd (settle en now i result e))"
  proof (cases rule: settle_cases [where en = en and now = now and i = i and result = result and e = e])
    case (parks r k wakes_at)
    show ?thesis unfolding parks(4) by (rule onlyA) (intro only_intros only_end only_park_until)
  next
    case (gone r k)
    show ?thesis unfolding gone(3) by (rule onlyA) (intro only_intros only_end only_move only_reports)
  next
    case (moves r k f s held result' status dest)
    show ?thesis unfolding moves(7) by (rule onlyA) (intro only_intros only_end only_move only_reports)
  qed simp
qed

text \<open>A run that is moved stays the run it is.\<close>

lemma only_arm: "only i (arm i s t)"
  by (auto simp: arm_def only_ret only_set_timer split: option.splits)

lemma existing_id: "existing i e = (Inr r, e') \<Longrightarrow> fr_id r = i \<and> run (en_db e) i = Some r \<and> e' = e"
  using find_Some_key [of rr_id i "run_rows (en_db e)"]
  by (auto simp: existing_def run_row_of split: option.splits)

lemma yields_ret: "P x \<Longrightarrow> yields P (ret x)"
  by (simp add: yields_def)

lemma yields_and_then: "yields R m \<Longrightarrow> (\<And>x. R x \<Longrightarrow> yields P (k x)) \<Longrightarrow> yields P (and_then m k)"
  by (fastforce simp: yields_def split: prod.splits sum.splits)

lemma existing_run_id: "existing_run db i = Inr r \<Longrightarrow> fr_id r = i"
  using find_Some_key [of rr_id i "run_rows db"] by (auto simp: existing_run_def run_row_of split: option.splits)

lemma yields_move_run: "yields (\<lambda>r. fr_id r = i) (on_db (\<lambda>db. move_run now db i status step_id wakes_at ended_call))"
  by (auto simp: yields_def on_db_def move_run_def Let_def dest: existing_run_id split: sum.splits)

lemma yields_move: "yields (\<lambda>r. fr_id r = i) (move en now i status step_id)"
proof -
  have "yields (\<lambda>r. fr_id r = i) (after_move f ended i m)" if "fr_id m = i" for f ended m
    using that after_move_returns [of f ended i m] unfolding yields_def by (metis fst_conv)
  then show ?thesis
    unfolding move_after Let_def
    by (intro yields_and_then [OF yields_any] yields_and_then [OF yields_move_run])
qed

lemma yields_park_until: "yields (\<lambda>r. fr_id r = i) (park_until now i step_id wakes_at)"
  unfolding park_until_def
  by (rule yields_and_then [OF yields_move_run]) (intro yields_and_then [OF yields_any] yields_ret)

lemma yields_settle: "yields (\<lambda>r. fr_id r = i) (settle en now i result)"
  unfolding yields_def
proof (intro allI impI)
  fix e m e' assume m: "settle en now i result e = (Inr m, e')"
  have by_piece: "fr_id m = i" if "settle en now i result e = piece e" "yields (\<lambda>r. fr_id r = i) piece" for piece
    using that m unfolding yields_def by metis
  show "fr_id m = i"
  proof (cases rule: settle_cases [where en = en and now = now and i = i and result = result and e = e])
    case (parks r k wakes_at)
    show ?thesis by (rule by_piece, rule parks(4)) (intro yields_and_then [OF yields_any] yields_park_until)
  next
    case (gone r k)
    show ?thesis
      by (rule by_piece, rule gone(3))
        (rule yields_and_then [OF yields_any], rule yields_and_then [OF yields_move],
          rule yields_and_then [OF yields_any], rule yields_ret)
  next
    case (moves r k f s held result' status dest)
    show ?thesis
      by (rule by_piece, rule moves(7))
        (rule yields_and_then [OF yields_any], rule yields_and_then [OF yields_move],
          rule yields_and_then [OF yields_any], rule yields_ret)
  qed (use m in simp)
qed

text \<open>Queueing keeps to the run it is given.\<close>

lemma only_advance_by:
  assumes "\<And>r. fr_id r = i \<Longrightarrow> only i (queue_step r)"
  shows "only i (advance_by queue_step en now i result)"
  unfolding advance_by_def
  by (rule only_bind [OF only_settle yields_settle]) (intro only_intros assms)

lemma only_park_by:
  assumes "\<And>r. only i (advance_run i r)"
  shows "only i (park_by advance_run now i s)"
proof -
  have "only i (\<lambda>e. if st_id s \<in> set (en_woken e i)
       then and_then (change (\<lambda>e. e\<lparr>en_woken := (en_woken e)(i := removeAll (st_id s) (en_woken e i))\<rparr>)) (\<lambda>_.
            and_then (advance_run i result) (\<lambda>_. ret ())) e
       else arm i s t e)" for result t
  proof -
    have "only i (and_then (change (\<lambda>e. e\<lparr>en_woken := (en_woken e)(i := removeAll (st_id s) (en_woken e i))\<rparr>)) (\<lambda>_.
            and_then (advance_run i result) (\<lambda>_. ret ())))"
      by (intro only_intros assms only_change apart_same) (simp add: same_for_def queued_steps_def)
    then show ?thesis using only_arm [of i s t] by (simp add: only_def del: act_simps)
  qed
  then show ?thesis
    unfolding park_by_def by (intro only_intros only_begin)
qed

lemma only_enqueue_rounds: "only (fr_id r) (enqueue_rounds n en now r)"
proof (induction n arbitrary: r)
  case (Suc n)
  have advance: "only (fr_id r) (advance_by (enqueue_rounds n en now) en now (fr_id r) result)" for result
    by (rule only_advance_by) (metis Suc)
  have park: "only (fr_id r) (park_by (advance_by (enqueue_rounds n en now) en now) now (fr_id r) s)" for s
    by (intro only_park_by advance)
  have refused: "only (fr_id r) (and_then (on_db (\<lambda>db. begin_attempt now db (fr_id r) j Running)) (\<lambda>running.
      and_then (publish running) (\<lambda>_.
      and_then (advance_by (enqueue_rounds n en now) en now (fr_id r) result) (\<lambda>_. ret ()))))" for j result
    by (intro only_intros only_begin advance)
  have puts: "only (fr_id r) (put inst (Q_Step q))" if "qs_run q = fr_id r" for inst q
    using that by (intro only_put) simp
  show ?case
  proof (cases "fr_step r")
    case (Some j)
    show ?thesis
      unfolding only_def enqueue_rounds.simps Some option.case
      using onlyA [OF park] onlyA [OF refused] onlyA [OF puts] place_instance(1) [of en _ _ r j]
      by (auto simp del: act_simps split: sum.splits placed.splits)
  qed (simp add: only_def)
qed (simp add: only_def)

lemma only_enqueue: "only (fr_id r) (enqueue en now r)"
  using onlyA [OF only_enqueue_rounds] by (simp add: only_def enqueue_def)

lemma only_advance: "only i (advance en now i result)"
  unfolding advance_def by (rule only_advance_by) (metis only_enqueue)

end
