(* ===== verification/Run_Keeps.thy ===== *)
theory Run_Keeps
  imports Run_Frames
begin

text \<open>
  The engine's handlers keep the protocol: from a state where every run is under way, a request
  either is refused and changes nothing, or returns with every run under way again.
\<close>

section \<open>Queueing and settling, without a bound\<close>

definition ready :: "env \<Rightarrow> busy \<Rightarrow> uuid set \<Rightarrow> factory_run \<Rightarrow> engine \<Rightarrow> bool" where
  "ready en busy away r e \<longleftrightarrow> rested en busy away (Suc (spend en e (fr_id r))) (fr_id r) r e \<and> fr_status r = Queued"

definition settling :: "env \<Rightarrow> busy \<Rightarrow> uuid set \<Rightarrow> uuid \<Rightarrow> step_result \<Rightarrow> engine \<Rightarrow> bool" where
  "settling en busy away i result e \<longleftrightarrow> may_settle en busy away (Suc (spend en e i)) i result e"

definition resting :: "env \<Rightarrow> busy \<Rightarrow> uuid set \<Rightarrow> uuid \<Rightarrow> engine \<Rightarrow> bool" where
  "resting en busy away i e \<longleftrightarrow> at_rest en busy away (Suc (spend en e i)) i e"

lemma leads_each_bound:
  assumes "\<And>n. leads (P n) m Q" "\<And>e. P' e \<Longrightarrow> \<exists>n. P n e"
  shows "leads P' m Q"
  using assms unfolding leads_def by blast

lemma rested_ready: "rested en busy away n i r e \<Longrightarrow> fr_status r = Queued \<Longrightarrow> ready en busy away r e"
  by (auto simp: ready_def rested_def at_rest_def)

lemma at_rest_resting: "at_rest en busy away n i e \<Longrightarrow> resting en busy away i e"
  by (auto simp: resting_def at_rest_def)

lemma leads_enqueue:
  assumes "served en"
  shows "leads (ready en busy away r) (enqueue en now r) (\<lambda>_. engine_ok en busy (away - {fr_id r}))"
  by (rule leads_each_bound [OF enqueueing.queues [OF assms]]) (auto simp: ready_def)

lemma leads_advance:
  assumes "served en"
  shows "leads (settling en busy away i result) (advance en now i result) (\<lambda>_. engine_ok en busy (away - {i}))"
  unfolding advance_def
  by (rule leads_each_bound [OF enqueueing.advance_keeps [OF assms]]) (auto simp: settling_def)

lemma on_core_ready: "on_core (ready en busy away r)"
  unfolding on_core_def ready_def
  by (metis core_spend on_core_def on_core_rested)

lemma leads_publish: "on_core P \<Longrightarrow> leads P (publish r) (\<lambda>_. P)"
  by (rule quiet_leads [OF quiet_publish])

lemma settlingI:
  assumes "engine_ok en busy (insert i away) e" "idle busy e i" "row_of (en_db e) i = Some r"
    "rr_status r \<in> {Running, Parked}"
    "sr_resets_at result \<noteq> None \<Longrightarrow> \<not> approve_at en (rr_factory r) (rr_step r)"
  shows "settling en busy away i result e"
  using assms by (auto simp: settling_def may_settle_def run_row_of)

section \<open>Where a request finds its run\<close>

text \<open>A run with none of its steps under way: parked, or stopped.\<close>

lemma parked_or_stopped:
  assumes "engine_ok en busy away e" "row_of (en_db e) i = Some r" "rr_status r \<notin> {Queued, Running}"
  shows "queued_steps e i = {#}" "holding busy i = None"
  using engine_ok_run [OF assms(1), of i] assms(2,3)
  by (cases "holding busy i"; auto simp: run_fine_def split: if_splits)+

lemma stopped_resting:
  assumes "engine_ok en busy away e" "row_of (en_db e) i = Some r" "rr_status r \<in> set STOPS"
  shows "resting en busy away i e" "tried i e" "rr_wakes_at r = None"
proof -
  have status: "rr_status r \<notin> {Queued, Running, Parked}" using assms(3) by (auto simp: STOPS_def)
  note row = engine_row [OF assms(1,2)]
  have "no_open (en_db e) i"
    using row_ok [OF engine_ok_db [OF assms(1)] assms(2)] assms(3) by (auto simp: run_ok_def)
  moreover have "en_deadlines e i = None"
    using row(3) status by (auto simp: timer_ok_def split: option.splits timer.splits)
  ultimately show "resting en busy away i e"
    using parked_or_stopped [OF assms(1,2)] status engine_ok_away [OF assms(1), of "insert i away"] assms(2)
    by (auto simp: resting_def at_rest_def idle_def)
  from row(1,2) status show "tried i e" "rr_wakes_at r = None"
    by (auto simp: row_fine_def tried_def)
qed

lemma parked_disarmed:
  assumes "engine_ok en busy away e" "row_of (en_db e) i = Some r" "rr_status r = Parked"
  shows "engine_ok en busy (insert i away) (armed i None e)" "idle busy (armed i None e) i" "tried i e"
  using disarmed_engine_ok [OF assms(1)] parked_or_stopped [OF assms(1,2)] engine_row(1,2) [OF assms(1,2)] assms(3)
  by (auto simp: idle_def row_fine_def tried_def)

lemma approve_untimed:
  assumes "engine_ok en busy away e" "row_of (en_db e) i = Some r" "approve_at en (rr_factory r) (rr_step r)"
  shows "en_deadlines e i = None" "rr_wakes_at r = None"
  using engine_row(2,3) [OF assms(1,2)] assms(3)
  by (auto simp: row_fine_def timer_ok_def split: option.splits timer.splits)

section \<open>Restarts\<close>

lemma leads_restart_run:
  assumes "resting en busy away i e0" "row_of (en_db e0) i = Some r" "rr_wakes_at r = None" "step_id \<noteq> None"
    "rr_status r \<in> {Parked, Needs_Human}"
  shows "leads (\<lambda>e. e = e0) (on_db (\<lambda>db. restart_run now db i step_id))
     (\<lambda>m e. ready en busy away m e \<and> fr_id m = i)"
proof (rule leads_on_db)
  fix e assume e: "e = e0"
  let ?row = "restarted_row now step_id (max_rowid (attempts_of (en_db e0) i)) r"
  let ?db = "set_run i (restarted_row now step_id (max_rowid (attempts_of (en_db e0) i))) (en_db e0)"
  let ?e = "e0\<lparr>en_db := ?db\<rparr>"
  from assms(1) have rest: "engine_ok en busy (insert i away) e0" "idle busy e0 i" "no_open (en_db e0) i"
    by (simp_all add: resting_def at_rest_def)
  note id = engine_row(1) [OF rest(1) assms(2)]
  have restart: "restart_run now (en_db e0) i step_id = Inr (?db, factory_run_of ?row)"
    using assms(2) by (simp add: restart_run_eq)
  have row: "row_of ?db i = Some ?row" using assms(2) by (simp add: row_of_set_run)
  have "run_db_ok ?db" by (rule restart_run_keeps [OF engine_ok_db [OF rest(1)] rest(3) restart])
  then have "engine_ok en busy (insert i away) ?e"
  proof (rule engine_ok_change [OF rest(1) _ rest(2)])
    fix j assume "j \<noteq> i"
    then show "row_of ?db j = row_of (en_db e0) j \<and> attempts_of ?db j = attempts_of (en_db e0) j"
      by (simp add: row_of_set_run_other of_set_run)
  next
    fix r' assume "row_of ?db i = Some r'"
    with row have r': "r' = ?row" by simp
    show "row_fine en ?db r'"
      using rest(3) id assms(3-5) engine_row(2) [OF rest(1) assms(2)] unfolding r' row_fine_def
      by (auto simp: ENDS_def no_open_attempts of_set_run open_attempts_def restarted_row_def)
  qed
  then have "ready en busy away (factory_run_of ?row) ?e"
    using rest row id assms(2)
    by (auto simp: ready_def rested_def at_rest_def idle_def of_set_run run_row_of)
  with restart id show "\<exists>db m. restart_run now (en_db e) i step_id = Inr (db, m) \<and>
      ready en busy away m (e\<lparr>en_db := db\<rparr>) \<and> fr_id m = i"
    by (simp add: e)
qed

lemma leads_restart:
  assumes "served en" "resting en busy away (fr_id r) e0" "row_of (en_db e0) (fr_id r) = Some rr" "rr_wakes_at rr = None"
    "step_id \<noteq> None" "rr_status rr \<in> {Parked, Needs_Human}"
  shows "leads (\<lambda>e. e = e0) (restart en now r step_id) (\<lambda>_. engine_ok en busy (away - {fr_id r}))"
proof -
  have publish: "leads (\<lambda>e. ready en busy away m e \<and> fr_id m = fr_id r) (publish m)
      (\<lambda>_ e. ready en busy away m e \<and> fr_id m = fr_id r)" for m
    by (rule leads_publish) (intro on_core_conj on_core_ready on_core_simple)
  have enqueue: "leads (\<lambda>e. ready en busy away m e \<and> fr_id m = fr_id r) (enqueue en now m)
      (\<lambda>_. engine_ok en busy (away - {fr_id r}))" for m
    by (cases "fr_id m = fr_id r") (use leads_enqueue [OF assms(1), of busy away m now] in \<open>simp_all add: leads_def\<close>)
  show ?thesis
    unfolding restart_def
    by (rule leads_and_then [OF leads_restart_run [OF assms(2-6)] leads_and_then [OF publish leads_and_then [OF enqueue leads_ret]]])
qed

section \<open>Requests\<close>

text \<open>
  The errors a request answers with: what it asks for does not hold. The last two are an id that
  is taken, and none that the engine raises on its own.
\<close>

fun refusal :: "run_error \<Rightarrow> bool" where
  "refusal (Registry_Error Integrity_Error) = True"
| "refusal (Registry_Error _) = False"
| "refusal Key_Error = False"
| "refusal Index_Error = False"
| "refusal Never_Returns = False"
| "refusal Out_Of_Fuel = False"
| "refusal (No_Step_To_Queue _) = False"
| "refusal _ = True"

definition answered :: "env \<Rightarrow> busy \<Rightarrow> 'a act \<Rightarrow> engine \<Rightarrow> bool" where
  "answered en busy m e \<longleftrightarrow>
     (case m e of (Inl err, e') \<Rightarrow> refusal err \<and> e' = e | (Inr x, e') \<Rightarrow> engine_ok en busy {} e')"

lemma answered_leads: "leads (\<lambda>e. e = e0) m (\<lambda>_. engine_ok en busy {}) \<Longrightarrow> answered en busy m e0"
  by (auto simp: leads_def answered_def)

lemma answered_refused: "m e = (Inl err, e) \<Longrightarrow> refusal err \<Longrightarrow> answered en busy m e"
  by (simp add: answered_def)

lemma answered_same: "answered en busy m' e \<Longrightarrow> m e = m' e \<Longrightarrow> answered en busy m e"
  by (simp add: answered_def)

lemma retry_answered:
  assumes "served en" "engine_ok en busy {} e0"
  shows "answered en busy (retry en now i) e0"
proof (cases "row_of (en_db e0) i")
  case None
  then show ?thesis
    by (intro answered_refused [where err = "Factory_Run_Not_Found i"]) (simp_all add: retry_def existing_def run_row_of)
next
  case (Some r)
  note id = engine_row(1) [OF assms(2) Some]
  show ?thesis
  proof (cases "rr_status r = Needs_Human")
    case False
    with Some id show ?thesis
      by (intro answered_refused [where err = "Run_Needs_No_Human i"])
        (simp_all add: retry_def existing_def run_row_of needing_human_def)
  next
    case True
    have "rr_step r \<noteq> None" using engine_row(2) [OF assms(2) Some] True by (auto simp: row_fine_def)
    then have "answered en busy (restart en now (factory_run_of r) (rr_step r)) e0"
      using leads_restart [OF assms(1), of busy "{}" "factory_run_of r" e0 r "rr_step r" now]
        stopped_resting [OF assms(2) Some] True Some id by (simp add: answered_leads)
    then show ?thesis
      by (rule answered_same) (simp add: retry_def existing_def run_row_of needing_human_def Some True)
  qed
qed

lemma ended_resting:
  assumes "engine_ok en busy (insert i away) e" "idle busy e i" "row_of (en_db e) i \<noteq> None" "tried i e"
  shows "resting en busy away i (e\<lparr>en_db := end_attempt now (en_db e) i result\<rparr>)"
    "tried i (e\<lparr>en_db := end_attempt now (en_db e) i result\<rparr>)"
  using ended_at_rest [OF assms lessI, of now result] by (auto intro: at_rest_resting)

text \<open>A run parked at an approve step has nothing under way but its open attempt.\<close>

lemma approving_idle:
  assumes "engine_ok en busy {} e" "row_of (en_db e) i = Some r"
    "awaits_approval (env_factory en (rr_factory r)) (factory_run_of r)"
  shows "engine_ok en busy {i} e" "idle busy e i" "tried i e" "rr_wakes_at r = None" "rr_status r = Parked"
    "approve_at en (rr_factory r) (rr_step r)"
proof -
  show parked: "rr_status r = Parked" and approve: "approve_at en (rr_factory r) (rr_step r)"
    using assms(3) by (auto simp: awaits_approval_def approve_at_def step_at_def split: option.splits)
  show "engine_ok en busy {i} e" using engine_ok_away [OF assms(1)] by blast
  show "idle busy e i"
    using parked_or_stopped [OF assms(1,2)] parked approve_untimed [OF assms(1,2) approve] by (simp add: idle_def)
  show "tried i e" "rr_wakes_at r = None"
    using engine_row(1,2) [OF assms(1,2)] parked approve_untimed [OF assms(1,2) approve]
    by (auto simp: row_fine_def tried_def)
qed

lemma approve_answered:
  assumes "served en" "engine_ok en busy {} e0"
  shows "answered en busy (approve en now i) e0"
proof (cases "row_of (en_db e0) i")
  case None
  then show ?thesis
    by (intro answered_refused [where err = "Factory_Run_Not_Found i"]) (simp_all add: approve_def existing_def run_row_of)
next
  case (Some r)
  show ?thesis
  proof (cases "awaits_approval (env_factory en (rr_factory r)) (factory_run_of r)")
    case False
    with Some show ?thesis
      by (intro answered_refused [where err = "Run_Awaits_No_Approval i"])
        (simp_all add: approve_def existing_def run_row_of)
  next
    case True
    let ?result = "plain_result Clean ''The user approved it.''"
    from approving_idle [OF assms(2) Some True] have "settling en busy {} i ?result e0"
      by (intro settlingI [where r = r]) (simp_all add: Some plain_result_def)
    from leads_start [OF leads_advance [OF assms(1)] this, of now]
    have "answered en busy (advance en now i ?result) e0" by (simp add: answered_leads)
    then show ?thesis
      by (rule answered_same) (simp add: approve_def existing_def run_row_of Some True)
  qed
qed

text \<open>Ending an attempt, then moving the run to a status it stops in.\<close>

lemma leads_stop:
  assumes "resting en busy away i e0" "tried i e0" "status \<in> set STOPS" "step_id = None \<Longrightarrow> status = Done"
  shows "leads (\<lambda>e. e = e0) (move en now i status step_id) (\<lambda>_. engine_ok en busy (away - {i}))"
  by (rule leads_weaken [OF leads_move [OF assms(4)]])
    (use assms(1-3) in \<open>auto simp: resting_def moved_to_def intro: rested_stopped\<close>)

lemma cancel_answered:
  assumes "served en" "engine_ok en busy {} e0"
  shows "answered en busy (cancel en now i) e0"
proof (cases "row_of (en_db e0) i")
  case None
  then show ?thesis
    by (intro answered_refused [where err = "Factory_Run_Not_Found i"]) (simp_all add: cancel_def existing_def run_row_of)
next
  case (Some r)
  note id = engine_row(1) [OF assms(2) Some]
  have step: "rr_status r \<noteq> Done \<Longrightarrow> rr_step r \<noteq> None"
    using engine_row(2) [OF assms(2) Some] by (auto simp: row_fine_def)
  consider "rr_status r = Parked" | "rr_status r = Needs_Human" | "rr_status r \<notin> {Parked, Needs_Human}" by auto
  then show ?thesis
  proof cases
    case 1
    let ?e = "armed i None e0"
    let ?ended = "\<lambda>e. e\<lparr>en_db := end_attempt now (en_db e) i (plain_result Clean ''The user cancelled the run.'')\<rparr>"
    have "resting en busy {} i (?ended ?e)" "tried i (?ended ?e)"
      using ended_resting [of en busy i "{}" ?e now] parked_disarmed [OF assms(2) Some 1] Some
      by (simp_all add: tried_def)
    from leads_stop [OF this, of Cancelled "rr_step r"] step 1
    have "leads (\<lambda>e. e = ?ended ?e) (move en now i Cancelled (rr_step r)) (\<lambda>_. engine_ok en busy {})" by simp
    then obtain m e' where "move en now i Cancelled (rr_step r) (?ended ?e) = (Inr m, e')" "engine_ok en busy {} e'"
      by (auto simp: leads_def)
    with 1 Some id show ?thesis
      by (simp add: answered_def cancel_def existing_def run_row_of disarm_armed set_db_def)
  next
    case 2
    from leads_stop [OF stopped_resting(1,2) [OF assms(2) Some], of Cancelled "rr_step r"] step 2
    have "answered en busy (move en now i Cancelled (rr_step r)) e0" by (simp add: answered_leads)
    then show ?thesis
      by (rule answered_same) (simp add: cancel_def existing_def run_row_of Some 2 needing_human_def)
  next
    case 3
    with Some id show ?thesis
      by (intro answered_refused [where err = "Run_Needs_No_Human i"])
        (simp_all add: cancel_def existing_def run_row_of needing_human_def)
  qed
qed

lemma send_back_answered:
  assumes "served en" "engine_ok en busy {} e0"
  shows "answered en busy (send_back en now i step_id) e0"
proof (cases "row_of (en_db e0) i")
  case None
  then show ?thesis
    by (intro answered_refused [where err = "Factory_Run_Not_Found i"]) (simp_all add: send_back_def existing_def run_row_of)
next
  case (Some r)
  note id = engine_row(1) [OF assms(2) Some]
  let ?approving = "awaits_approval (env_factory en (rr_factory r)) (factory_run_of r)"
  let ?earlier = "step_id \<in> set (earlier_ids (env_factory en (rr_factory r)) (rr_step r))"
  consider "\<not> ?approving" "rr_status r \<noteq> Needs_Human" | "?approving \<or> rr_status r = Needs_Human" "\<not> ?earlier"
    | "?approving" "?earlier" | "\<not> ?approving" "rr_status r = Needs_Human" "?earlier" by blast
  then show ?thesis
  proof cases
    case 1
    with Some id show ?thesis
      by (intro answered_refused [where err = "Run_Needs_No_Human i"])
        (simp_all add: send_back_def existing_def run_row_of needing_human_def Let_def)
  next
    case 2
    with Some show ?thesis
      by (intro answered_refused [where err = "Not_An_Earlier_Step step_id"])
        (auto simp add: send_back_def existing_def run_row_of needing_human_def Let_def)
  next
    case 3
    let ?ended = "\<lambda>e. e\<lparr>en_db := end_attempt now (en_db e) i
      (plain_result Clean (''The user sent the run back to \"'' @ step_id @ ''\".''))\<rparr>"
    note approving = approving_idle [OF assms(2) Some 3(1)]
    have "resting en busy {} i (?ended e0)"
      by (rule ended_resting) (use approving Some in simp_all)
    then have "leads (\<lambda>e. e = ?ended e0) (restart en now (factory_run_of r) (Some step_id)) (\<lambda>_. engine_ok en busy ({} - {i}))"
      using leads_restart [OF assms(1), of busy "{}" "factory_run_of r" "?ended e0" r "Some step_id" now]
        approving(4,5) Some id by (simp add: end_attempt_rows(2))
    then obtain m e' where "restart en now (factory_run_of r) (Some step_id) (?ended e0) = (Inr m, e')" "engine_ok en busy {} e'"
      by (auto simp: leads_def)
    with 3 Some id show ?thesis
      by (simp add: answered_def send_back_def existing_def run_row_of set_db_def Let_def)
  next
    case 4
    have "answered en busy (restart en now (factory_run_of r) (Some step_id)) e0"
      using leads_restart [OF assms(1), of busy "{}" "factory_run_of r" e0 r "Some step_id" now]
        stopped_resting [OF assms(2) Some] 4(2) Some id by (simp add: answered_leads)
    then show ?thesis
      by (rule answered_same) (simp add: send_back_def existing_def run_row_of needing_human_def Let_def Some 4)
  qed
qed

lemma answered_and_then:
  assumes "answered en busy m e" "\<And>x e'. engine_ok en busy {} e' \<Longrightarrow> \<exists>y. k x e' = (Inr y, e')"
  shows "answered en busy (and_then m k) e"
proof -
  obtain res e' where m: "m e = (res, e')" by (cases "m e")
  show ?thesis
  proof (cases res)
    case (Inr x)
    with m assms(1) have ok: "engine_ok en busy {} e'" by (simp add: answered_def)
    from assms(2) [OF ok, of x] obtain y where "k x e' = (Inr y, e')" by blast
    with m Inr ok show ?thesis by (simp add: answered_def)
  qed (use m assms(1) in \<open>simp add: answered_def\<close>)
qed

lemma answer_stop_answered:
  assumes "served en" "engine_ok en busy {} e0"
  shows "answered en busy (answer_stop en now stop option_text) e0"
proof -
  have ret: "answered en busy (and_then m (\<lambda>_. ret y)) e0" if "answered en busy m e0" for m :: "factory_run act" and y :: "string option"
    by (rule answered_and_then [OF that]) simp
  have none: "answered en busy (\<lambda>e. (Inr None, e)) e0" using assms(2) by (simp add: answered_def)
  note pieces = ret [OF retry_answered [OF assms, of now]] ret [OF cancel_answered [OF assms, of now]]
    ret [OF send_back_answered [OF assms, of now]]
  show ?thesis
    using pieces none
    by (auto simp: answer_stop_def answered_def Let_def simp del: act_simps split: option.splits)
qed

text \<open>A run that intake opens is a row of its own, with nothing under way.\<close>

lemma open_run_cases:
  assumes "open_run new_id now db inst factory work_item first_step = Inr (db', r, started)"
  obtains "db' = db" "\<not> started" "r \<in> factory_run_of ` set (run_rows db)"
  | row where "started" "r = factory_run_of row" "rr_id row = new_id" "new_id \<notin> rr_id ` set (run_rows db)"
    "rr_status row = Queued" "rr_step row = Some first_step" "rr_wakes_at row = None" "rr_factory row = factory" "\<not> rr_ended_call row"
    "db' = db\<lparr>run_rows := run_rows db @ [row]\<rparr>"
proof (cases "find (\<lambda>r. rr_instance r = inst \<and> rr_work_item r = work_item_key work_item \<and> rr_status r \<notin> set FINISHED) (run_rows db)")
  case (Some x)
  then have "x \<in> set (run_rows db)" by (auto simp: find_Some_iff)
  with Some assms that(1) show thesis by (auto simp: open_run_def Let_def)
next
  case None
  let ?row = "\<lparr>rr_id = new_id, rr_factory = factory, rr_instance = inst, rr_work_item = work_item_key work_item,
    rr_status = Queued, rr_step = Some first_step, rr_created = now, rr_updated = now, rr_restarted_after = 0,
    rr_reported = False, rr_stop_generation = 0, rr_wakes_at = None, rr_ended_call = False\<rparr>"
  have fresh: "new_id \<notin> rr_id ` set (run_rows db)"
    using None assms by (auto simp: open_run_def Let_def)
  then have "row_of db new_id = None" by (auto simp: find_None_iff)
  then have "find (\<lambda>r. rr_id r = new_id) (run_rows db @ [?row]) = Some ?row"
    by (simp add: find_append)
  with None assms fresh that(2) [of ?row] show thesis
    by (auto simp: open_run_def Let_def existing_run_def run_def)
qed

lemma opened_ready:
  assumes "engine_ok en busy {} e0" "open_run new_id now (en_db e0) inst factory work_item first_step = Inr (db, r, True)"
  shows "ready en busy {} r (e0\<lparr>en_db := db\<rparr>)"
  using assms(2)
proof (cases rule: open_run_cases)
  case (2 row)
  have ok: "run_db_ok db" by (rule open_run_keeps [OF engine_ok_db [OF assms(1)] assms(2)])
  have none: "row_of (en_db e0) new_id = None" using 2(4) by (auto simp: find_None_iff)
  have rows: "row_of db j = (if j = new_id then Some row else row_of (en_db e0) j)" for j
    using 2 none by (auto simp: find_append split: option.splits)
  have attempts: "attempts_of db j = attempts_of (en_db e0) j" for j
    using 2 by (simp add: attempts_of_def)
  have "attempts_of db new_id = []"
    unfolding attempts using engine_ok_db [OF assms(1)] 2(4)
    by (auto simp: attempts_of_def run_db_ok_def filter_empty_conv)
  then have fine: "no_open db new_id" "row_fine en db row"
    using 2 by (simp_all add: row_fine_def no_open_def open_attempts_def)
  have idle: "idle busy e0 new_id"
    using engine_ok_run [OF assms(1), of new_id] none by (simp add: run_fine_def idle_def)
  have "engine_ok en busy {new_id} (e0\<lparr>en_db := db\<rparr>)"
    by (rule engine_ok_change [OF engine_ok_away [OF assms(1)] ok idle]) (use rows attempts fine in auto)
  with idle fine rows 2 show ?thesis
    by (simp add: ready_def rested_def at_rest_def idle_def run_row_of)
qed simp

text \<open>Handing in a work item: a new run is queued, a run that needs a human is tried again.\<close>

lemma intake_opens:
  assumes "served en" "engine_ok en busy {} e0"
  shows "answered en busy (and_then (on_db (\<lambda>db. open_run new_id now db i factory work_item first_step)) (\<lambda>(r, started).
           if started then and_then (publish r) (\<lambda>_. and_then (enqueue en now r) (\<lambda>_. ret r))
           else if fr_status r = Needs_Human then restart en now r (fr_step r)
           else ret r)) e0"
proof (cases "open_run new_id now (en_db e0) i factory work_item first_step")
  case (Inl err)
  then have "err = Integrity_Error"
    by (auto simp: open_run_def existing_run_def run_def Let_def find_append split: option.splits if_splits)
  with Inl show ?thesis by (simp add: answered_def on_db_def)
next
  case (Inr x)
  obtain db r started where x: "x = (db, r, started)" by (cases x)
  show ?thesis
  proof (cases started)
    case True
    from opened_ready [OF assms(2)] Inr x True have "ready en busy {} r (e0\<lparr>en_db := db\<rparr>)" by simp
    moreover have "leads (ready en busy {} r) (and_then (publish r) (\<lambda>_. and_then (enqueue en now r) (\<lambda>_. ret r)))
        (\<lambda>_. engine_ok en busy ({} - {fr_id r}))"
      by (rule leads_and_then [OF leads_publish [OF on_core_ready] leads_and_then [OF leads_enqueue [OF assms(1)] leads_ret]])
    ultimately obtain y e' where "and_then (publish r) (\<lambda>_. and_then (enqueue en now r) (\<lambda>_. ret r)) (e0\<lparr>en_db := db\<rparr>) = (Inr y, e')"
        "engine_ok en busy {} e'"
      unfolding leads_def by force
    with Inr x True show ?thesis by (simp add: answered_def on_db_def del: act_simps(1,4)) (simp add: and_then_def)
  next
    case False
    from Inr x have found: "open_run new_id now (en_db e0) i factory work_item first_step = Inr (db, r, started)" by simp
    then have db: "db = en_db e0" and "r \<in> factory_run_of ` set (run_rows (en_db e0))"
      using False by (auto elim: open_run_cases)
    then obtain rr where rr: "r = factory_run_of rr" "row_of (en_db e0) (rr_id rr) = Some rr"
      using engine_ok_db [OF assms(2)] find_distinct_key [of rr_id "run_rows (en_db e0)"] by (auto simp: run_db_ok_def)
    have "answered en busy (if fr_status r = Needs_Human then restart en now r (fr_step r) else ret r) e0"
    proof (cases "rr_status rr = Needs_Human")
      case True
      have "rr_step rr \<noteq> None" using engine_row(2) [OF assms(2) rr(2)] True by (auto simp: row_fine_def)
      with leads_restart [OF assms(1), of busy "{}" r e0 rr "fr_step r" now] stopped_resting [OF assms(2) rr(2)] True rr
      show ?thesis by (simp add: answered_leads)
    qed (use assms(2) rr in \<open>simp add: answered_def\<close>)
    with Inr x db False show ?thesis by (simp add: answered_def on_db_def)
  qed
qed

lemma intake_answered:
  assumes "served en" "engine_ok en busy {} e0"
  shows "answered en busy (intake_run en new_id now i routine work_item) e0"
proof -
  have steps: "ff_steps f \<noteq> []" if "membership en (en_hub e0) i = Some (fm, f)" for fm f
    using that assms(1) by (auto simp: membership_def served_def bind_eq_Some_conv)
  have refused: "answered en busy (\<lambda>e. (Inl err, e)) e0" if "refusal err" for err
    using that by (simp add: answered_def)
  show ?thesis
    using steps intake_opens [OF assms, of new_id now i] refused
    by (auto simp: intake_run_def answered_def simp del: act_simps split: option.splits prod.splits)
qed

end
