(* ===== verification/Run_Wakes.thy ===== *)
theory Run_Wakes
  imports Run_Keeps
begin

text \<open>
  What moves a run on without its user: a signal and a timer. Each keeps the protocol and raises
  nothing, though a signal works through the runs as it found them before it moved any.
\<close>

section \<open>A loop over runs\<close>

text \<open>
  A handler's loop over items of different runs: what an item needs of its run's row still holds
  when the loop comes to it, as the items before it leave that row alone.
\<close>

lemma leads_each_away:
  assumes "\<And>x A. x \<in> set xs \<Longrightarrow> leads (\<lambda>e. I A e \<and> C x e) (g x) (\<lambda>_. I (A - {key x}))"
    and "\<And>x. x \<in> set xs \<Longrightarrow> only (key x) (g x)" and "distinct (map key xs)"
    and "\<And>x e e'. same_for (key x) e e' \<Longrightarrow> C x e \<Longrightarrow> C x e'"
  shows "leads (\<lambda>e. I A e \<and> (\<forall>x \<in> set xs. C x e)) (each g xs) (\<lambda>_. I (A - key ` set xs))"
  using assms(1-3)
proof (induction xs arbitrary: A)
  case Nil
  show ?case by (simp add: leads_def)
next
  case (Cons x xs)
  have "leads (\<lambda>e. I A e \<and> (\<forall>y \<in> set (x # xs). C y e)) (g x) (\<lambda>_ e. I (A - {key x}) e \<and> (\<forall>y \<in> set xs. C y e))"
    unfolding leads_def
  proof (intro allI impI)
    fix e assume P: "I A e \<and> (\<forall>y \<in> set (x # xs). C y e)"
    with Cons.prems(1) [of x A] obtain u e' where g: "g x e = (Inr u, e')" "I (A - {key x}) e'"
      unfolding leads_def by fastforce
    have "C y e'" if "y \<in> set xs" for y
    proof -
      have "key y \<noteq> key x" using Cons.prems(3) that by (force simp: image_iff)
      then have "same_for (key y) e e'" using onlyD [OF Cons.prems(2) [of x], of "key y" e] g(1) by simp
      then show ?thesis by (rule assms(4)) (use P that in simp)
    qed
    with g show "\<exists>u e'. g x e = (Inr u, e') \<and> I (A - {key x}) e' \<and> (\<forall>y \<in> set xs. C y e')" by blast
  qed
  moreover have "leads (\<lambda>e. I (A - {key x}) e \<and> (\<forall>y \<in> set xs. C y e)) (each g xs) (\<lambda>_. I (A - {key x} - key ` set xs))"
    using Cons.prems by (intro Cons.IH) auto
  moreover have "A - {key x} - key ` set xs = A - key ` set (x # xs)" by auto
  ultimately show ?case by (simp only: each.simps leads_and_then)
qed

lemma leads_each:
  assumes "\<And>x. x \<in> set xs \<Longrightarrow> leads (\<lambda>e. I e \<and> C x (row_of (en_db e) (key x))) (g x) (\<lambda>_. I)"
    and "\<And>x. x \<in> set xs \<Longrightarrow> only (key x) (g x)" and "distinct (map key xs)"
  shows "leads (\<lambda>e. I e \<and> (\<forall>x \<in> set xs. C x (row_of (en_db e) (key x)))) (each g xs) (\<lambda>_. I)"
  by (rule leads_each_away [where I = "\<lambda>_. I", OF assms]) (simp_all add: same_for_def)

text \<open>The loop leaves the runs it has no item of alone.\<close>

lemma each_others:
  assumes "\<And>x. x \<in> set xs \<Longrightarrow> only (key x) (g x)" "j \<notin> key ` set xs"
  shows "same_for j e (snd (each g xs e))"
  using assms
proof (induction xs arbitrary: e)
  case (Cons x xs)
  have x: "same_for j e (snd (g x e))" using onlyD [OF Cons.prems(1) [of x]] Cons.prems(2) by auto
  obtain res e' where g: "g x e = (res, e')" by (cases "g x e")
  show ?case
  proof (cases res)
    case (Inr u)
    have "same_for j e' (snd (each g xs e'))" using Cons.prems by (intro Cons.IH) auto
    with x g Inr show ?thesis by (auto intro: same_for_trans)
  qed (use x g in simp)
qed simp

lemma leads_each_simple:
  assumes "\<And>x. leads I (g x) (\<lambda>_. I)"
  shows "leads I (each g xs) (\<lambda>_. I)"
proof (induction xs)
  case (Cons x xs)
  show ?case unfolding each.simps by (rule leads_and_then [OF assms Cons])
qed (simp add: leads_def)

text \<open>The run is still what the handler found it to be.\<close>

definition stays :: "factory_run \<Rightarrow> engine \<Rightarrow> bool" where
  "stays r e \<longleftrightarrow> run (en_db e) (fr_id r) = Some r"

lemma stays_row: "stays r e \<longleftrightarrow> map_option factory_run_of (row_of (en_db e) (fr_id r)) = Some r"
  by (simp add: stays_def run_row_of)

lemma runs_found:
  assumes "engine_ok en busy away e"
  shows "\<And>r. r \<in> set (runs (en_db e) factory statuses inst since until) \<Longrightarrow> stays r e \<and> (\<forall>f. factory = Some f \<longrightarrow> fr_factory r = f)"
    "distinct (map fr_id (runs (en_db e) factory statuses inst since until))"
proof -
  have ids: "distinct (map rr_id (run_rows (en_db e)))"
    using engine_ok_db [OF assms] by (simp add: run_db_ok_def)
  fix r assume "r \<in> set (runs (en_db e) factory statuses inst since until)"
  with find_distinct_key [OF ids] show "stays r e \<and> (\<forall>f. factory = Some f \<longrightarrow> fr_factory r = f)"
    by (auto simp: runs_def stays_row)
next
  have "distinct (map rr_id (run_rows (en_db e)))"
    using engine_ok_db [OF assms] by (simp add: run_db_ok_def)
  then show "distinct (map fr_id (runs (en_db e) factory statuses inst since until))"
    by (simp add: runs_def comp_def distinct_map_filter)
qed

lemma each_rows:
  assumes "\<And>x. x \<in> set xs \<Longrightarrow> only (key x) (g x)"
  shows "(row_of (en_db (snd (each g xs e))) j = None) = (row_of (en_db e) j = None)"
  using assms
proof (induction xs arbitrary: e)
  case (Cons x xs)
  have x: "(row_of (en_db (snd (g x e))) j = None) = (row_of (en_db e) j = None)"
    by (rule only_rows [OF Cons.prems]) simp
  obtain res e' where g: "g x e = (res, e')" by (cases "g x e")
  have "(row_of (en_db (snd (each g xs e'))) j = None) = (row_of (en_db e') j = None)"
    by (rule Cons.IH) (use Cons.prems in auto)
  with x g show ?case by (cases res) auto
qed simp

section \<open>Signals\<close>

lemma leads_wake_parked:
  assumes "served en" "env_factory en (fr_factory r) = Some f"
  shows "leads (\<lambda>e. engine_ok en busy {} e \<and> stays r e) (wake_parked en now f s body r) (\<lambda>_. engine_ok en busy {})"
proof (rule leads_pointwise)
  fix e0 assume P: "engine_ok en busy {} e0 \<and> stays r e0"
  then obtain rr where rr: "row_of (en_db e0) (fr_id r) = Some rr" "r = factory_run_of rr"
    by (auto simp: stays_row)
  let ?result = "plain_result Clean (''A signal on routine \"'' @ sn_routine s @ ''\" matched.'')"
  show "leads (\<lambda>e. e = e0) (wake_parked en now f s body r) (\<lambda>_. engine_ok en busy {})"
  proof (cases "wake_parked en now f s body r e0 = (Inr (), e0)")
    case True
    with P show ?thesis by (simp add: leads_def)
  next
    case False
    then have parked: "rr_status rr = Parked" and
      wakes: "wake_parked en now f s body r e0 = and_then (disarm (fr_id r)) (\<lambda>_.
         and_then (advance en now (fr_id r) ?result) (\<lambda>_. ret ())) e0"
      using rr by (auto simp: wake_parked_def simp del: act_simps split: option.splits if_splits)
    have "settling en busy {} (fr_id r) ?result (armed (fr_id r) None e0)"
      using P rr parked parked_disarmed [of en busy "{}" e0 "fr_id r" rr]
      by (intro settlingI [where r = rr]) (simp_all add: plain_result_def)
    with leads_advance [OF assms(1), of busy "{}" "fr_id r" ?result now]
    have "leads (\<lambda>e. e = e0) (and_then (disarm (fr_id r)) (\<lambda>_. and_then (advance en now (fr_id r) ?result) (\<lambda>_. ret ())))
        (\<lambda>_. engine_ok en busy {})"
      unfolding disarm_armed
      by (intro leads_and_then [OF leads_change leads_and_then [OF _ leads_ret]]) auto
    then show ?thesis by (rule leads_same) (rule wakes)
  qed
qed

lemma only_wake_parked: "only (fr_id r) (wake_parked en now f s body r)"
proof -
  have "only (fr_id r) (and_then (disarm (fr_id r)) (\<lambda>_. and_then (advance en now (fr_id r) result) (\<lambda>_. ret ())))" for result
    by (intro only_intros only_advance)
  from onlyA [OF this] show ?thesis
    by (auto simp: only_def wake_parked_def simp del: act_simps split: option.splits)
qed

lemma leads_note_waits: "leads (engine_ok en busy {}) (note_waits f s body r) (\<lambda>_. engine_ok en busy {})"
  by (auto simp: leads_def note_waits_def Let_def engine_ok_def run_fine_def under_way_def queued_steps_def
      cong: option.case_cong run_status.case_cong)

lemma only_note_waits: "only i (note_waits f s body r)"
  by (auto simp: only_def note_waits_def Let_def same_for_def queued_steps_def intro!: apart_same)

lemma leads_close_run:
  assumes "served en"
  shows "leads (\<lambda>e. engine_ok en busy {} e \<and> (fr_status r = Needs_Human \<longrightarrow> stays r e)) (close_run en now f s body r)
    (\<lambda>_. engine_ok en busy {})"
proof (rule leads_pointwise)
  fix e0 assume P: "engine_ok en busy {} e0 \<and> (fr_status r = Needs_Human \<longrightarrow> stays r e0)"
  show "leads (\<lambda>e. e = e0) (close_run en now f s body r) (\<lambda>_. engine_ok en busy {})"
  proof (cases "fr_status r = Needs_Human")
    case False
    with P show ?thesis by (simp add: leads_def close_run_def Let_def)
  next
    case True
    with P obtain rr where rr: "row_of (en_db e0) (fr_id r) = Some rr" "r = factory_run_of rr"
      by (auto simp: stays_row)
    note stopped = stopped_resting [of en busy "{}" e0 "fr_id r" rr]
    have "fr_step r \<noteq> None"
      using engine_row(2) [of en busy "{}" e0 "fr_id r" rr] P rr True by (auto simp: row_fine_def)
    then have moves: "leads (\<lambda>e. e = e0) (and_then (move en now (fr_id r) status step_id) (\<lambda>_. ret ())) (\<lambda>_. engine_ok en busy {})"
      if "(status, step_id) \<in> {(Done, None), (Cancelled, fr_step r)}" for status step_id
      using leads_stop [of en busy "{}" "fr_id r" e0 status step_id now] stopped P rr True that
      by (intro leads_and_then [OF _ leads_ret]) auto
    from moves [of Done None] moves [of Cancelled "fr_step r"] P show ?thesis
      by (auto simp: leads_def close_run_def Let_def simp del: act_simps)
  qed
qed

lemma only_close_run: "only (fr_id r) (close_run en now f s body r)"
proof -
  have "only (fr_id r) (and_then (move en now (fr_id r) status step_id) (\<lambda>_. ret ()))" for status step_id
    by (intro only_intros only_move)
  from onlyA [OF this] show ?thesis
    by (auto simp: only_def close_run_def Let_def simp del: act_simps)
qed

lemma leads_keep_rows:
  assumes "leads (\<lambda>e. I e \<and> K e) m (\<lambda>_. I)" "only i m" "\<And>j. j \<in> set js \<Longrightarrow> j \<noteq> i"
  shows "leads (\<lambda>e. (I e \<and> (\<forall>j \<in> set js. row_of (en_db e) j = row j)) \<and> K e) m
    (\<lambda>_ e. I e \<and> (\<forall>j \<in> set js. row_of (en_db e) j = row j))"
  unfolding leads_def
proof (intro allI impI)
  fix e assume P: "(I e \<and> (\<forall>j \<in> set js. row_of (en_db e) j = row j)) \<and> K e"
  with assms(1) obtain x e' where m: "m e = (Inr x, e')" "I e'" unfolding leads_def by blast
  have "row_of (en_db e') j = row j" if "j \<in> set js" for j
    using onlyD [OF assms(2,3), of j e] that m(1) P by (simp add: same_for_def)
  with m show "\<exists>x e'. m e = (Inr x, e') \<and> I e' \<and> (\<forall>j \<in> set js. row_of (en_db e') j = row j)" by blast
qed

text \<open>
  The runs a signal found, of one factory: until the last loop comes to them, those that need a
  human are as they were found (\<open>spared\<close>).
\<close>

definition found_of :: "factory_run list \<Rightarrow> string \<Rightarrow> engine \<Rightarrow> bool" where
  "found_of found factory e \<longleftrightarrow> distinct (map fr_id found) \<and>
     (\<forall>r \<in> set found. stays r e \<and> fr_factory r = factory)"

definition spared :: "factory_run list \<Rightarrow> engine \<Rightarrow> engine \<Rightarrow> bool" where
  "spared found e0 e \<longleftrightarrow>
     (\<forall>j \<in> set (map fr_id (filter (\<lambda>r. fr_status r = Needs_Human) found)). row_of (en_db e) j = row_of (en_db e0) j)"

lemma leads_wake_all:
  assumes "served en" "found_of found factory e0" "env_factory en factory = Some f"
  shows "leads (\<lambda>e. (engine_ok en busy {} e \<and> spared found e0 e) \<and> (\<forall>r \<in> set found. stays r e))
     (each (wake_parked en now f s body) found) (\<lambda>_ e. engine_ok en busy {} e \<and> spared found e0 e)"
  unfolding stays_row
proof (rule leads_each [where C = "\<lambda>r row. map_option factory_run_of row = Some r" and key = fr_id])
  fix r assume r: "r \<in> set found"
  show "leads (\<lambda>e. (engine_ok en busy {} e \<and> spared found e0 e) \<and> map_option factory_run_of (row_of (en_db e) (fr_id r)) = Some r)
     (wake_parked en now f s body r) (\<lambda>_ e. engine_ok en busy {} e \<and> spared found e0 e)"
  proof (cases "fr_status r = Needs_Human")
    case True
    then have "wake_parked en now f s body r e = (Inr (), e)" for e
      by (auto simp: wake_parked_def split: option.splits)
    then show ?thesis by (simp add: leads_def)
  next
    case False
    have other: "j \<noteq> fr_id r" if "j \<in> set (map fr_id (filter (\<lambda>r. fr_status r = Needs_Human) found))" for j
      using that r False assms(2) by (auto simp: found_of_def distinct_map inj_on_def)
    have "env_factory en (fr_factory r) = Some f" using assms(2,3) r by (simp add: found_of_def)
    then show ?thesis
      unfolding spared_def stays_row [symmetric]
      by (intro leads_keep_rows [OF leads_wake_parked [OF assms(1)] only_wake_parked other]) simp_all
  qed
qed (use assms(2) only_wake_parked in \<open>auto simp: found_of_def\<close>)

lemma leads_note_all:
  "leads (\<lambda>e. engine_ok en busy {} e \<and> spared found e0 e) (each (note_waits f s body) found)
     (\<lambda>_ e. engine_ok en busy {} e \<and> spared found e0 e)"
proof (rule leads_each_simple)
  fix r
  have "en_db (snd (note_waits f s body r e)) = en_db e" for e by (simp add: note_waits_def Let_def)
  with leads_note_waits show "leads (\<lambda>e. engine_ok en busy {} e \<and> spared found e0 e) (note_waits f s body r)
     (\<lambda>_ e. engine_ok en busy {} e \<and> spared found e0 e)"
    unfolding leads_def spared_def by (metis snd_conv)
qed

lemma leads_close_all:
  assumes "served en" "found_of found factory e0"
  shows "leads (\<lambda>e. engine_ok en busy {} e \<and> spared found e0 e) (each (close_run en now f s body) found)
     (\<lambda>_. engine_ok en busy {})"
proof (rule leads_weaken [OF leads_each [where key = fr_id and I = "engine_ok en busy {}"
      and C = "\<lambda>r row. fr_status r = Needs_Human \<longrightarrow> map_option factory_run_of row = Some r"]])
  fix r
  show "leads (\<lambda>e. engine_ok en busy {} e \<and>
      (fr_status r = Needs_Human \<longrightarrow> map_option factory_run_of (row_of (en_db e) (fr_id r)) = Some r))
    (close_run en now f s body r) (\<lambda>_. engine_ok en busy {})"
    using leads_close_run [OF assms(1), of busy r now f s body] by (simp add: stays_row)
qed (use assms(2) only_close_run in \<open>auto simp: found_of_def spared_def stays_row\<close>)

text \<open>A signal moves on what it found: first the parked runs, then the runs that need a human.\<close>

lemma leads_signal_accepted:
  assumes "served en"
  shows "leads (engine_ok en busy {}) (signal_accepted en now i s) (\<lambda>_. engine_ok en busy {})"
proof (rule leads_pointwise)
  fix e0 assume ok: "engine_ok en busy {} e0"
  show "leads (\<lambda>e. e = e0) (signal_accepted en now i s) (\<lambda>_. engine_ok en busy {})"
  proof (cases "membership en (en_hub e0) i")
    case None
    with ok show ?thesis by (simp add: leads_def signal_accepted_def)
  next
    case (Some p)
    then obtain fm f where m: "membership en (en_hub e0) i = Some (fm, f)" by (cases p) simp
    then have f: "env_factory en (fm_factory fm) = Some f" by (auto simp: membership_def bind_eq_Some_conv)
    define body where "body = (case env_json en (sn_body s) of None \<Rightarrow> J_Null | Some j \<Rightarrow> j)"
    define found where "found = runs (en_db e0) (Some (fm_factory fm)) (Some UNFINISHED)
      (if fm_name fm = in_instance (ff_intake f) then Some i else None) None None"
    have found: "found_of found (fm_factory fm) e0"
      using runs_found [OF ok] unfolding found_of_def found_def by blast
    have "leads (\<lambda>e. e = e0) (and_then (each (wake_parked en now f s body) found) (\<lambda>_.
        and_then (each (note_waits f s body) found) (\<lambda>_. each (close_run en now f s body) found)))
        (\<lambda>_. engine_ok en busy {})"
      by (rule leads_weaken [OF leads_and_then [OF leads_wake_all [OF assms found f]
            leads_and_then [OF leads_note_all leads_close_all [OF assms found]]]])
        (use ok found in \<open>auto simp: found_of_def spared_def\<close>)
    then show ?thesis
      by (rule leads_same) (simp add: signal_accepted_def m Let_def body_def found_def del: act_simps)
  qed
qed

section \<open>Timers\<close>

lemma leads_wake_up:
  assumes "served en" "resting en busy away i e0" "tried i e0" "step_id \<noteq> None"
  shows "leads (\<lambda>e. e = e0) (and_then (move en now i Queued step_id) (enqueue en now)) (\<lambda>_. engine_ok en busy (away - {i}))"
proof -
  let ?n = "Suc (spend en e0 i)"
  have "leads (\<lambda>e. e = e0) (move en now i Queued step_id) (moved_to en busy away ?n i Queued step_id None)"
    by (rule leads_weaken [OF leads_move]) (use assms in \<open>auto simp: resting_def\<close>)
  moreover have "leads (moved_to en busy away ?n i Queued step_id None m) (enqueue en now m) (\<lambda>_. engine_ok en busy (away - {i}))" for m
    by (rule leads_weaken [OF enqueueing.queues [OF assms(1), of busy away ?n i m now]]) (auto simp: moved_to_def)
  ultimately show ?thesis by (rule leads_and_then)
qed

lemma leads_timer_fired:
  assumes "served en"
  shows "leads (\<lambda>e. engine_ok en busy {} e \<and> en_deadlines e i \<noteq> None) (timer_fired en now i) (\<lambda>_. engine_ok en busy {})"
proof (rule leads_pointwise)
  fix e0 assume P: "engine_ok en busy {} e0 \<and> en_deadlines e0 i \<noteq> None"
  then have ok: "engine_ok en busy {} e0" by simp
  from P obtain t where t: "en_deadlines e0 i = Some t" by blast
  with engine_ok_run [OF ok, of i] obtain r where r: "row_of (en_db e0) i = Some r"
    by (auto simp: run_fine_def split: option.splits)
  note timer = engine_row(3) [OF ok r, unfolded t]
  then have parked: "rr_status r = Parked" by (auto simp: timer_ok_def split: timer.splits)
  note disarmed = parked_disarmed [OF ok r parked]
  show "leads (\<lambda>e. e = e0) (timer_fired en now i) (\<lambda>_. engine_ok en busy {})"
  proof (cases t)
    case (Expire due result)
    have "settling en busy {} i result (armed i None e0)"
      using disarmed r parked timer Expire by (intro settlingI [where r = r]) (simp_all add: timer_ok_def)
    with leads_advance [OF assms, of busy "{}" i result now]
    have "leads (\<lambda>e. e = e0) (and_then (disarm i) (\<lambda>_. and_then (advance en now i result) (\<lambda>_. ret ()))) (\<lambda>_. engine_ok en busy {})"
      unfolding disarm_armed by (intro leads_and_then [OF leads_change leads_and_then [OF _ leads_ret]]) auto
    then show ?thesis by (rule leads_same) (simp add: timer_fired_def t Expire del: act_simps)
  next
    case (Wake due step_id)
    have fine: "step_id \<noteq> None" "no_open (en_db e0) i"
      using timer Wake parked engine_row(1,2) [OF ok r] by (auto simp: timer_ok_def row_fine_def)
    then have "resting en busy {} i (armed i None e0)"
      using disarmed r by (simp add: resting_def at_rest_def)
    from leads_wake_up [OF assms this _ fine(1), of now] disarmed(3)
    have "leads (\<lambda>e. e = armed i None e0) (and_then (move en now i Queued step_id) (enqueue en now)) (\<lambda>_. engine_ok en busy {})"
      by (simp add: tried_def)
    then have "leads (\<lambda>e. e = e0) (and_then (disarm i) (\<lambda>_. and_then (move en now i Queued step_id) (enqueue en now))) (\<lambda>_. engine_ok en busy {})"
      unfolding disarm_armed by (intro leads_and_then [OF leads_change]) auto
    then show ?thesis by (rule leads_same) (simp add: timer_fired_def t Wake del: act_simps)
  qed
qed

end
