(* ===== verification/Run_Deliveries.thy ===== *)
theory Run_Deliveries
  imports Run_Wakes
begin

text \<open>
  What a worker does with the step it took from its instance's queue (\<open>_deliver\<close>): it begins an
  attempt, sends it, and settles the answer, drops an attempt the instance did not take, or gives
  the step back once its instance is gone. Each keeps the protocol and raises nothing.
\<close>

definition give :: "busy \<Rightarrow> uuid \<Rightarrow> (bool \<times> string) option \<Rightarrow> busy" where
  "give busy j held = busy\<lparr>holding := (holding busy)(j := held)\<rparr>"

lemma give_simps [simp]:
  "holding (give busy j held) k = (if k = j then held else holding busy k)" "strays (give busy j held) = strays busy"
  "give (give busy j a) j b = give busy j b"
  by (simp_all add: give_def)

lemma give_same: "holding busy j = held \<Longrightarrow> give busy j held = busy"
  by (auto simp: give_def fun_upd_idem)

text \<open>The step a worker holds is its run's own, and no approval.\<close>

lemma held_run:
  assumes "engine_ok en busy away e" "holding busy j = Some (b, s)"
  obtains r where "row_of (en_db e) j = Some r" "rr_status r = (if b then Running else Queued)" "rr_step r = Some s"
    "\<not> approve_at en (rr_factory r) (Some s)" "queued_steps e j = {#}" "en_deadlines e j = None"
proof -
  from engine_ok_run [OF assms(1), of j] assms(2) obtain r where r: "row_of (en_db e) j = Some r"
    by (auto simp: run_fine_def split: option.splits)
  note fine = engine_ok_run [OF assms(1), of j]
  have "rr_status r = (if b then Running else Queued)" "rr_step r = Some s" "\<not> approve_at en (rr_factory r) (Some s)"
      "queued_steps e j = {#}"
    using fine r assms(2) by (auto simp: run_fine_def)
  moreover from this have "en_deadlines e j = None"
    using engine_row(3) [OF assms(1) r] by (auto simp: timer_ok_def split: option.splits timer.splits if_splits)
  ultimately show thesis using that r by blast
qed

text \<open>A worker's hands empty: the run is the handler's.\<close>

lemma handed_back:
  assumes "engine_ok en busy {} e" "holding busy j = Some (b, s)"
  shows "engine_ok en (give busy j None) {j} e" "idle (give busy j None) e j"
proof -
  from held_run [OF assms] obtain r where r: "row_of (en_db e) j = Some r" "queued_steps e j = {#}" "en_deadlines e j = None"
    by metis
  show "engine_ok en (give busy j None) {j} e"
  proof (rule engine_ok_own [OF assms(1), where i = j])
    from engine_ok_run [OF assms(1), of j] r show "run_fine en (give busy j None) {j} e j"
      by (simp add: run_fine_def)
  qed (use assms(1) in \<open>simp_all add: engine_ok_def\<close>)
  from r show "idle (give busy j None) e j" by (simp add: idle_def)
qed

text \<open>A worker's hands full: the run is under way.\<close>

lemma handed_over:
  assumes "engine_ok en (give busy j None) {j} e" "idle (give busy j None) e j"
    and "row_of (en_db e) j = Some r" "rr_status r = (if b then Running else Queued)" "rr_step r = Some s"
    "\<not> approve_at en (rr_factory r) (Some s)" "b \<Longrightarrow> open_attempts (en_db e) j \<noteq> []"
  shows "engine_ok en (give busy j (Some (b, s))) {} e"
proof (rule engine_ok_own [OF assms(1), where i = j])
  note id = engine_row(1) [OF assms(1,3)]
  from engine_ok_run [OF assms(1), of j] id assms(2-7) show "run_fine en (give busy j (Some (b, s))) {} e j"
    by (simp add: run_fine_def idle_def under_way_def)
qed (use assms(1) in \<open>simp_all add: engine_ok_def\<close>)

text \<open>A step taken from the queue.\<close>

definition taken :: "uuid \<Rightarrow> queued list \<Rightarrow> engine \<Rightarrow> engine" where
  "taken inst qs e = e\<lparr>en_queues := dict_set inst qs (en_queues e)\<rparr>"

definition in_hand :: "env \<Rightarrow> busy \<Rightarrow> queued_step \<Rightarrow> engine \<Rightarrow> bool" where
  "in_hand en busy q e \<longleftrightarrow> resting en (give busy (qs_run q) None) {} (qs_run q) e \<and>
     (\<exists>r. run (en_db e) (qs_run q) = Some r \<and> fr_status r = Queued \<and> fr_step r = Some (qs_step q) \<and>
        \<not> approve_at en (fr_factory r) (Some (qs_step q)))"

lemma taken_step:
  assumes "engine_ok en busy {} e" "map_of (en_queues e) inst = Some (Q_Step q # qs)"
  shows "in_hand en busy q (taken inst qs e)" "holding busy (qs_run q) = None"
proof -
  let ?j = "qs_run q" and ?e = "taken inst qs e"
  have steps: "queued_steps e k = steps_in k [Q_Step q] + queued_steps ?e k" for k
    using steps_queued_pop [OF assms(2)] by (simp add: queued_steps_def taken_def)
  note fine = engine_ok_run [OF assms(1), of ?j]
  have some: "queued_steps e ?j \<noteq> {#}" using steps [of ?j] by simp
  with fine obtain r where r: "row_of (en_db e) ?j = Some r" by (auto simp: run_fine_def split: option.splits)
  with fine some have q: "rr_status r = Queued" "holding busy ?j = None" "\<not> approve_at en (rr_factory r) (rr_step r)"
      "rr_step r = Some (qs_step q)" "size (queued_steps e ?j) \<le> 1"
    using steps [of ?j] by (auto simp: run_fine_def)
  then have empty: "queued_steps ?e ?j = {#}" using steps [of ?j] by simp
  note row = engine_row [OF assms(1) r]
  have none: "en_deadlines e ?j = None" "no_open (en_db e) ?j"
    using row q(1) by (auto simp: timer_ok_def row_fine_def split: option.splits timer.splits)
  have same: "en_db ?e = en_db e" "en_deadlines ?e = en_deadlines e" "en_strays ?e = en_strays e" "en_woken ?e = en_woken e"
    by (simp_all add: taken_def)
  show "holding busy ?j = None" by (rule q)
  then have busy: "give busy ?j None = busy" by (rule give_same)
  have "engine_ok en busy {?j} ?e"
  proof (rule engine_ok_own [OF assms(1), where i = ?j])
    from fine r empty q none show "run_fine en busy {?j} ?e ?j"
      by (simp add: run_fine_def same)
  qed (use steps assms(1) in \<open>auto simp: same engine_ok_def\<close>)
  with r q none empty show "in_hand en busy q ?e"
    by (auto simp: in_hand_def busy resting_def at_rest_def idle_def same run_row_of)
qed

text \<open>An attempt begins, and the step is with its instance.\<close>

lemma leads_deliver_begin:
  "leads (in_hand en busy q) (deliver_begin now q)
     (\<lambda>_. engine_ok en (give busy (qs_run q) (Some (True, qs_step q))) {})"
proof -
  let ?j = "qs_run q" and ?none = "give busy (qs_run q) None"
  let ?F = "\<lambda>factory. \<not> approve_at en factory (Some (qs_step q))"
  let ?B = "\<lambda>n r e. begun en ?none {} n ?j (qs_step q) Running r e \<and> ?F (fr_factory r)"
  have over: "leads (?B n r) (\<lambda>e. case attempts (en_db e) ?j of [] \<Rightarrow> (Inl Index_Error, e)
      | as \<Rightarrow> (Inr ((qs_command q)\<lparr>src_attempt := Some (at_attempt (last as))\<rparr>), e))
      (\<lambda>_. engine_ok en (give busy ?j (Some (True, qs_step q))) {})" for n r
    unfolding leads_def
  proof (intro allI impI)
    fix e assume B: "?B n r e"
    then obtain rr where rr: "row_of (en_db e) ?j = Some rr" "r = factory_run_of rr"
      by (auto simp: begun_def run_row_of)
    with B have "known ?j e" by (auto simp: begun_def engine_ok_def known_def open_attempts_def)
    then obtain a as where "attempts (en_db e) ?j = a # as"
      using known_attempts by (metis list.exhaust)
    moreover have "engine_ok en (give busy ?j (Some (True, qs_step q))) {} e"
      by (rule handed_over [where r = rr]) (use B rr in \<open>auto simp: begun_def\<close>)
    ultimately show "\<exists>x e'. (case attempts (en_db e) ?j of [] \<Rightarrow> (Inl Index_Error, e)
      | as \<Rightarrow> (Inr ((qs_command q)\<lparr>src_attempt := Some (at_attempt (last as))\<rparr>), e)) = (Inr x, e') \<and>
      engine_ok en (give busy ?j (Some (True, qs_step q))) {} e'" by simp
  qed
  have starts: "leads (\<lambda>e. at_rest en ?none {} n ?j e \<and> (\<exists>r. run (en_db e) ?j = Some r \<and> fr_status r = Queued \<and> ?F (fr_factory r)))
     (deliver_begin now q) (\<lambda>_. engine_ok en (give busy ?j (Some (True, qs_step q))) {})" for n
    unfolding deliver_begin_def
    by (rule leads_and_then [OF leads_begin_attempt [where F = ?F] leads_and_then [OF leads_publish over]])
      (intro on_core_conj on_core_begun on_core_simple | simp)+
  show ?thesis
    by (rule leads_each_bound [OF starts]) (auto simp: in_hand_def resting_def)
qed

section \<open>Answers\<close>

text \<open>An attempt the instance did not take is dropped: the step is back in the worker's hand.\<close>

lemma dropped_engine_ok:
  assumes "engine_ok en busy (insert j away) e" "idle busy e j" "row_of (en_db e) j = Some r" "rr_status r = Running"
  shows "engine_ok en busy (insert j away) (e\<lparr>en_db := dropped_db now j (en_db e)\<rparr>)"
    "no_open (dropped_db now j (en_db e)) j"
proof -
  let ?db = "dropped_db now j (en_db e)" and ?r = "r\<lparr>rr_status := Queued, rr_updated := now\<rparr>"
  have row': "row_of ?db j = Some ?r" using assms(3) by (simp add: dropped_db_simps)
  show none: "no_open ?db j"
    by (auto simp: no_open_def dropped_db_simps row_delete_def open_attempt_def attempts_of_def)
  show "engine_ok en busy (insert j away) (e\<lparr>en_db := ?db\<rparr>)"
  proof (rule engine_ok_change [OF assms(1) dropped_db_keeps [OF engine_ok_db [OF assms(1)]] assms(2)])
    fix k assume "k \<noteq> j"
    then have "row_delete (open_attempt j) (attempts_of (en_db e) k) = attempts_of (en_db e) k"
      unfolding row_delete_def by (intro filter_True) (auto simp: open_attempt_def attempts_of_def)
    with \<open>k \<noteq> j\<close> show "row_of ?db k = row_of (en_db e) k \<and> attempts_of ?db k = attempts_of (en_db e) k"
      by (simp add: dropped_db_simps option.map_ident)
  next
    fix r' assume "row_of ?db j = Some r'"
    with row' have r': "r' = ?r" by simp
    show "row_fine en ?db r'"
      using none engine_row(1,2) [OF assms(1,3)] assms(4) unfolding r' row_fine_def no_open_attempts
      by (auto simp: ENDS_def)
  qed
qed

lemma leads_drop:
  assumes "engine_ok en busy {} e0" "holding busy (qs_run q) = Some (True, qs_step q)"
  shows "leads (\<lambda>e. e = e0) (on_db (\<lambda>db. drop_attempt now db (qs_run q))) (\<lambda>_. in_hand en busy q)"
proof (rule leads_on_db)
  fix e assume e: "e = e0"
  let ?db = "dropped_db now (qs_run q) (en_db e0)"
  obtain r where r: "row_of (en_db e0) (qs_run q) = Some r" "rr_status r = Running" "rr_step r = Some (qs_step q)"
      "\<not> approve_at en (rr_factory r) (Some (qs_step q))"
    by (rule held_run [OF assms]) auto
  note returned = handed_back [OF assms]
  note dropped = dropped_engine_ok [OF returned r(1,2), of now]
  from returned(2) dropped r engine_row(1) [OF assms(1) r(1)] have "in_hand en busy q (e0\<lparr>en_db := ?db\<rparr>)"
    by (auto simp: in_hand_def resting_def at_rest_def idle_def run_row_of dropped_db_simps)
  with r(1) show "\<exists>db x. drop_attempt now (en_db e) (qs_run q) = Inr (db, x) \<and> in_hand en busy q (e\<lparr>en_db := db\<rparr>)"
    by (simp add: e drop_attempt_eq)
qed

lemma on_core_in_hand: "on_core (in_hand en busy q)"
  unfolding on_core_def in_hand_def resting_def
  by (metis core_db core_spend on_core_at_rest on_core_def)

text \<open>A step in hand is under way, as its worker's.\<close>

lemma in_hand_held:
  assumes "in_hand en busy q e"
  shows "engine_ok en (give busy (qs_run q) (Some (False, qs_step q))) {} e"
proof -
  from assms obtain r where r: "row_of (en_db e) (qs_run q) = Some r" "rr_status r = Queued" "rr_step r = Some (qs_step q)"
      "\<not> approve_at en (rr_factory r) (Some (qs_step q))" "resting en (give busy (qs_run q) None) {} (qs_run q) e"
    by (auto simp: in_hand_def run_row_of)
  then show ?thesis
    by (intro handed_over [where r = r]) (simp_all add: resting_def at_rest_def)
qed

lemma held_in_hand:
  assumes "engine_ok en busy {} e" "holding busy (qs_run q) = Some (False, qs_step q)"
  shows "in_hand en busy q e"
proof -
  obtain r where r: "row_of (en_db e) (qs_run q) = Some r" "rr_status r = Queued" "rr_step r = Some (qs_step q)"
      "\<not> approve_at en (rr_factory r) (Some (qs_step q))"
    by (rule held_run [OF assms]) auto
  moreover have "no_open (en_db e) (qs_run q)"
    using engine_row(1,2) [OF assms(1) r(1)] r(2) by (auto simp: row_fine_def)
  ultimately show ?thesis
    using handed_back [OF assms] by (auto simp: in_hand_def resting_def at_rest_def run_row_of)
qed

text \<open>A step given back is queued again.\<close>

lemma leads_give_back:
  assumes "served en"
  shows "leads (in_hand en busy q) (and_then (existing (qs_run q)) (enqueue en now)) (\<lambda>_. engine_ok en (give busy (qs_run q) None) {})"
proof (rule leads_pointwise)
  let ?none = "give busy (qs_run q) None"
  fix e0 assume hand: "in_hand en busy q e0"
  then obtain r where r: "run (en_db e0) (qs_run q) = Some r" "fr_status r = Queued" "resting en ?none {} (qs_run q) e0"
    by (auto simp: in_hand_def)
  then have id: "fr_id r = qs_run q" using find_Some_key [of rr_id "qs_run q" "run_rows (en_db e0)"] by (auto simp: run_row_of)
  with r have "ready en ?none {} r e0" by (simp add: ready_def rested_def resting_def)
  from leads_start [OF leads_enqueue [OF assms] this, of now] r(1) id
  show "leads (\<lambda>e. e = e0) (and_then (existing (qs_run q)) (enqueue en now)) (\<lambda>_. engine_ok en ?none {})"
    by (simp add: leads_def existing_def)
qed

text \<open>The answer to a send, whatever it is.\<close>

definition held_after :: "queued_step \<Rightarrow> step_run_command option option \<Rightarrow> (bool \<times> string) option" where
  "held_after q kept = map_option (\<lambda>command. (command \<noteq> None, qs_step q)) kept"

lemma leads_deliver_answer:
  assumes "served en" "engine_ok en busy {} e0" "holding busy (qs_run q) = Some (True, qs_step q)"
  shows "leads (\<lambda>e. e = e0) (deliver_answer en now q command ans)
    (\<lambda>kept e. engine_ok en (give busy (qs_run q) (held_after q kept)) {} e)"
proof (cases ans)
  case (Answered result)
  let ?none = "give busy (qs_run q) None"
  obtain r where r: "row_of (en_db e0) (qs_run q) = Some r" "rr_status r = Running" "rr_step r = Some (qs_step q)"
      "\<not> approve_at en (rr_factory r) (Some (qs_step q))"
    by (rule held_run [OF assms(2,3)]) auto
  with handed_back [OF assms(2,3)] have "settling en ?none {} (qs_run q) result e0"
    by (intro settlingI [where r = r]) simp_all
  from leads_start [OF leads_advance [OF assms(1)] this, of now]
  show ?thesis unfolding Answered deliver_answer_def answer.case
    by (intro leads_and_then [OF _ leads_ret]) (simp_all add: held_after_def)
next
  case Undelivered
  have "leads (in_hand en busy q) (and_then (publish dropped) (\<lambda>_. ret (Some None)))
      (\<lambda>kept e. engine_ok en (give busy (qs_run q) (held_after q kept)) {} e)" for dropped
    by (rule leads_and_then [OF leads_publish [OF on_core_in_hand] leads_ret]) (simp add: held_after_def in_hand_held)
  then show ?thesis unfolding Undelivered deliver_answer_def answer.case
    by (rule leads_and_then [OF leads_drop [OF assms(2,3)]])
next
  case Answer_Lost
  show ?thesis unfolding Answer_Lost deliver_answer_def answer.case
    by (rule leads_ret) (use assms(2,3) in \<open>simp add: held_after_def give_same\<close>)
qed

lemma and_then_assoc: "and_then m (\<lambda>x. and_then (k x) h) = and_then (and_then m k) h"
  by (rule ext) (auto split: prod.splits sum.splits)

text \<open>After the backoff the step stays with the worker, or is given back.\<close>

lemma leads_deliver_again:
  assumes "served en" "engine_ok en busy {} e0" "holding busy (qs_run q) = Some (command \<noteq> None, qs_step q)"
  shows "leads (\<lambda>e. e = e0) (deliver_again en now inst q command)
    (\<lambda>again. engine_ok en (give busy (qs_run q) (if again then Some (command \<noteq> None, qs_step q) else None)) {})"
proof (cases "case instance_record (en_hub e0) inst of None \<Rightarrow> False | Some m \<Rightarrow> active m")
  case True
  with assms(2,3) show ?thesis by (auto simp: leads_def deliver_again_def give_same)
next
  case False
  let ?drop = "if command \<noteq> None then and_then (on_db (\<lambda>db. drop_attempt now db (qs_run q))) publish else ret ()"
  have drop: "leads (\<lambda>e. e = e0) ?drop (\<lambda>_. in_hand en busy q)"
  proof (cases "command = None")
    case True
    with held_in_hand [OF assms(2)] assms(3) show ?thesis by (simp add: leads_def)
  next
    case False
    have "leads (\<lambda>e. e = e0) (and_then (on_db (\<lambda>db. drop_attempt now db (qs_run q))) publish) (\<lambda>_. in_hand en busy q)"
      by (rule leads_and_then [OF leads_drop leads_publish [OF on_core_in_hand]]) (use assms False in simp_all)
    with False show ?thesis by simp
  qed
  have given: "leads (in_hand en busy q) (and_then (existing (qs_run q)) (\<lambda>r. and_then (enqueue en now r) (\<lambda>_. ret False)))
      (\<lambda>again. engine_ok en (give busy (qs_run q) (if again then Some (command \<noteq> None, qs_step q) else None)) {})"
    unfolding and_then_assoc
    by (rule leads_and_then [OF leads_give_back [OF assms(1)] leads_ret]) simp
  show ?thesis
    by (rule leads_same [OF leads_and_then [OF drop given]]) (use False in \<open>simp add: deliver_again_def del: act_simps\<close>)
qed

end
