(* ===== verification/Run_System.thy ===== *)
theory Run_System
  imports Run_Commands
begin

text \<open>
  The hub's runs as one system (\<open>FactoryRuns\<close> in src/src/kinby/hub/runs.py with its tasks): the
  engine, the worker of each instance's queue (\<open>_work\<close>), and the reports and stops that wait to be
  queued again. A step of the system is one handler, which nothing interrupts, in any order: a
  request of the user, an instance or a routine; a timer that runs out; a worker that takes what is
  next in its queue, gets an answer or ends its backoff; and the hub's stop and start, after which
  only the tables are left. The rest of the registry may change between any two steps.
\<close>

section \<open>State\<close>

text \<open>
  What the worker of an instance is at: a step it sent or waits to send again, a report or a stop
  it sent, or nothing. An error that leaves a handler of it ends the worker's task.
\<close>

datatype worker =
    Free
  | Sending queued_step step_run_command
  | Backing_Off queued_step "step_run_command option"
  | Reporting queued_report
  | Telling queued_stop
  | Ended

text \<open>What waits out its backoff before it is queued again.\<close>

datatype later = Report_Later queued_report | Tell_Later queued_stop

record system =
  sy_engine :: engine
  sy_workers :: "uuid \<Rightarrow> worker"
  sy_later :: "later list"

definition set_worker :: "uuid \<Rightarrow> worker \<Rightarrow> engine \<Rightarrow> system \<Rightarrow> system" where
  "set_worker i w e s = s\<lparr>sy_engine := e, sy_workers := (sy_workers s)(i := w)\<rparr>"

section \<open>Requests\<close>

datatype request =
    Intake uuid uuid string "(string, step_value) dict"
  | Retry_Run uuid
  | Send_Run_Back uuid string
  | Approve_Run uuid
  | Cancel_Run uuid
  | Answer_Stop run_stop_ref string
  | Signal_On uuid signal
  | Subscribe

definition done_with :: "'a act \<Rightarrow> unit act" where
  "done_with m = and_then m (\<lambda>_. ret ())"

fun handle :: "env \<Rightarrow> moment \<Rightarrow> request \<Rightarrow> unit act" where
  "handle en now (Intake new_id i routine work_item) = done_with (intake_run en new_id now i routine work_item)"
| "handle en now (Retry_Run i) = done_with (retry en now i)"
| "handle en now (Send_Run_Back i step_id) = done_with (send_back en now i step_id)"
| "handle en now (Approve_Run i) = done_with (approve en now i)"
| "handle en now (Cancel_Run i) = done_with (cancel en now i)"
| "handle en now (Answer_Stop stop option_text) = done_with (answer_stop en now stop option_text)"
| "handle en now (Signal_On i s) = signal_accepted en now i s"
| "handle en now Subscribe = done_with subscribe"

section \<open>Workers\<close>

text \<open>A worker takes what is next in its queue (\<open>_work\<close>) and sends it, but for a stale report.\<close>

definition works :: "moment \<Rightarrow> uuid \<Rightarrow> system \<Rightarrow> system" where
  "works now i s =
     (let e = sy_engine s in
      case dict_get (en_queues e) i [] of
        [] \<Rightarrow> s
      | q # qs \<Rightarrow>
         (let e' = e\<lparr>en_queues := dict_set i qs (en_queues e)\<rparr> in
          case q of
            Q_Step st \<Rightarrow>
              (case deliver_begin now st e' of
                 (Inl err, e'') \<Rightarrow> set_worker i Ended e'' s
               | (Inr command, e'') \<Rightarrow> set_worker i (Sending st command) e'' s)
          | Q_Report r \<Rightarrow> set_worker i (if stale (en_db e') r then Free else Reporting r) e' s
          | Q_Stop t \<Rightarrow> set_worker i (Telling t) e' s))"

definition answer_comes :: "env \<Rightarrow> moment \<Rightarrow> uuid \<Rightarrow> answer \<Rightarrow> system \<Rightarrow> system" where
  "answer_comes en now i ans s =
     (case sy_workers s i of
        Sending q command \<Rightarrow>
          (case deliver_answer en now q command ans (sy_engine s) of
             (Inl err, e') \<Rightarrow> set_worker i Ended e' s
           | (Inr None, e') \<Rightarrow> set_worker i Free e' s
           | (Inr (Some kept), e') \<Rightarrow> set_worker i (Backing_Off q kept) e' s)
      | Reporting r \<Rightarrow>
          (case report_answered r ans (sy_engine s) of
             (Inl err, e') \<Rightarrow> set_worker i Ended e' s
           | (Inr None, e') \<Rightarrow> set_worker i Free e' s
           | (Inr (Some r'), e') \<Rightarrow> (set_worker i Free e' s)\<lparr>sy_later := sy_later s @ [Report_Later r']\<rparr>)
      | _ \<Rightarrow> s)"

definition stop_taken :: "uuid \<Rightarrow> bool \<Rightarrow> system \<Rightarrow> system" where
  "stop_taken i told s =
     (case sy_workers s i of
        Telling t \<Rightarrow>
          (case stop_told t told (sy_engine s) of
             (Inl err, e') \<Rightarrow> set_worker i Ended e' s
           | (Inr None, e') \<Rightarrow> set_worker i Free e' s
           | (Inr (Some t'), e') \<Rightarrow> (set_worker i Free e' s)\<lparr>sy_later := sy_later s @ [Tell_Later t']\<rparr>)
      | _ \<Rightarrow> s)"

text \<open>The backoff of a step ends: the worker sends it again, or gives it back.\<close>

definition backoff_ends :: "env \<Rightarrow> moment \<Rightarrow> uuid \<Rightarrow> system \<Rightarrow> system" where
  "backoff_ends en now i s =
     (case sy_workers s i of
        Backing_Off q kept \<Rightarrow>
          (case deliver_again en now i q kept (sy_engine s) of
             (Inl err, e') \<Rightarrow> set_worker i Ended e' s
           | (Inr False, e') \<Rightarrow> set_worker i Free e' s
           | (Inr True, e') \<Rightarrow>
              (case kept of
                 Some command \<Rightarrow> set_worker i (Sending q command) e' s
               | None \<Rightarrow>
                  (case deliver_begin now q e' of
                     (Inl err, e'') \<Rightarrow> set_worker i Ended e'' s
                   | (Inr command, e'') \<Rightarrow> set_worker i (Sending q command) e'' s)))
      | _ \<Rightarrow> s)"

text \<open>A report or stop is queued again after its wait (\<open>_report_later\<close>, \<open>_tell_later\<close>).\<close>

definition put_later :: "nat \<Rightarrow> system \<Rightarrow> system" where
  "put_later k s =
     (if length (sy_later s) \<le> k then s
      else s\<lparr>sy_engine := snd ((case sy_later s ! k of Report_Later r \<Rightarrow> put_report r | Tell_Later t \<Rightarrow> put_stop t)
               (sy_engine s)),
             sy_later := take k (sy_later s) @ drop (Suc k) (sy_later s)\<rparr>)"

section \<open>The hub's stop and start\<close>

text \<open>What is left when the hub's process ends: the tables, and the notices its outbox holds.\<close>

definition fresh :: "engine \<Rightarrow> engine" where
  "fresh e = e\<lparr>en_queues := [], en_deadlines := (\<lambda>_. None), en_strays := [], en_woken := (\<lambda>_. []),
     en_subscribers := []\<rparr>"

definition restarted :: "env \<Rightarrow> moment \<Rightarrow> system \<Rightarrow> (run_error + unit) \<times> system" where
  "restarted en now s =
     (case resume en now (fresh (sy_engine s)) of
        (res, e') \<Rightarrow> (res, \<lparr>sy_engine = e', sy_workers = (\<lambda>_. Free), sy_later = []\<rparr>))"

section \<open>The steps of the system\<close>

text \<open>
  The start of the hub is a step only when it arms no run twice: the theory Run_Gaps shows the one
  case in which it does.
\<close>

inductive hub_step :: "env \<Rightarrow> system \<Rightarrow> system \<Rightarrow> bool" for en where
  asked: "hub_step en s (s\<lparr>sy_engine := snd (handle en now q (sy_engine s))\<rparr>)"
| timer: "en_deadlines (sy_engine s) i \<noteq> None \<Longrightarrow>
    hub_step en s (s\<lparr>sy_engine := snd (timer_fired en now i (sy_engine s))\<rparr>)"
| stray: "k < length (en_strays (sy_engine s)) \<Longrightarrow>
    hub_step en s (s\<lparr>sy_engine := snd (stray_fired en now k (sy_engine s))\<rparr>)"
| work: "sy_workers s i = Free \<Longrightarrow> hub_step en s (works now i s)"
| answer: "hub_step en s (answer_comes en now i ans s)"
| stopped: "hub_step en s (stop_taken i told s)"
| again: "hub_step en s (backoff_ends en now i s)"
| later: "hub_step en s (put_later k s)"
| registry: "hub_step en s (s\<lparr>sy_engine := (sy_engine s)\<lparr>en_hub := hub\<rparr>\<rparr>)"
| start: "restarted en now s = (res, s') \<Longrightarrow> en_strays (sy_engine s') = [] \<Longrightarrow> hub_step en s s'"

definition new_engine :: "hub_db \<Rightarrow> engine" where
  "new_engine hub = \<lparr>en_db = \<lparr>run_rows = [], attempt_rows = [], stop_rows = []\<rparr>, en_hub = hub, en_queues = [],
     en_deadlines = (\<lambda>_. None), en_strays = [], en_woken = (\<lambda>_. []), en_subscribers = [], en_notices = []\<rparr>"

inductive reachable :: "env \<Rightarrow> system \<Rightarrow> bool" for en where
  new: "reachable en \<lparr>sy_engine = new_engine hub, sy_workers = (\<lambda>_. Free), sy_later = []\<rparr>"
| step: "reachable en s \<Longrightarrow> hub_step en s s' \<Longrightarrow> reachable en s'"

inductive_cases hub_stepE [consumes 1, case_names asked timer stray work answer stopped again later registry start]:
  "hub_step en s s'"

end
