(* ===== verification/Run_Resume.thy ===== *)
theory Run_Resume
  imports Run_Deliveries Run_System
begin

text \<open>
  The start of the hub (\<open>resume\<close>): from what the tables say of the runs, with no queue, timer or
  worker left of the process before, it puts every run under way again. It does so unless it arms a
  run twice: a queued run that parks as it is queued again is armed with the parked ones once more,
  and the task of its first timer goes on as a stray.
\<close>

section \<open>The process before\<close>

definition nobody :: busy where
  "nobody = \<lparr>holding = (\<lambda>_. None), strays = []\<rparr>"

text \<open>
  What the tables say of each run once every run is under way: the open attempts of those that run
  or wait.
\<close>

definition attempts_told :: "run_db \<Rightarrow> run_row \<Rightarrow> bool" where
  "attempts_told db r \<longleftrightarrow>
     (rr_status r = Running \<longrightarrow> open_attempts db (rr_id r) \<noteq> []) \<and>
     (rr_status r = Parked \<and> rr_wakes_at r = None \<longrightarrow> open_attempts db (rr_id r) \<noteq> [])"

lemma under_way_told: "under_way en busy e r \<Longrightarrow> attempts_told (en_db e) r"
  by (auto simp: under_way_def attempts_told_def split: run_status.splits)

lemma fresh_ok:
  assumes "engine_ok en busy {} e"
  shows "engine_ok en nobody UNIV (fresh e)"
    "row_of (en_db (fresh e)) i = Some r \<Longrightarrow> attempts_told (en_db (fresh e)) r"
proof -
  have "run_fine en nobody UNIV (fresh e) j" for j
    using engine_ok_run [OF assms, of j]
    by (auto simp: run_fine_def fresh_def nobody_def queued_steps_def timer_ok_def split: option.splits)
  then show "engine_ok en nobody UNIV (fresh e)"
    using engine_ok_db [OF assms] by (simp add: engine_ok_def fresh_def nobody_def)
  assume "row_of (en_db (fresh e)) i = Some r"
  with engine_ok_run [OF assms, of i] show "attempts_told (en_db (fresh e)) r"
    by (auto simp: fresh_def run_fine_def dest: under_way_told)
qed

section \<open>Attempts left running\<close>

text \<open>A run the start of the hub has not come to: nothing of it is queued or armed.\<close>

definition untouched :: "uuid \<Rightarrow> engine \<Rightarrow> bool" where
  "untouched i e \<longleftrightarrow> queued_steps e i = {#} \<and> en_deadlines e i = None"

lemma untouched_idle: "untouched i e \<Longrightarrow> idle nobody e i"
  by (simp add: untouched_def idle_def nobody_def)

definition running_within :: "env \<Rightarrow> uuid set \<Rightarrow> engine \<Rightarrow> bool" where
  "running_within en left e \<longleftrightarrow> engine_ok en nobody UNIV e \<and> (\<forall>i. untouched i e) \<and>
     (\<forall>i r. row_of (en_db e) i = Some r \<longrightarrow> attempts_told (en_db e) r \<and> (rr_status r = Running \<longrightarrow> i \<in> left))"

lemma leads_drop_left:
  "leads (\<lambda>e. running_within en left e \<and> (\<exists>r. row_of (en_db e) i = Some r \<and> rr_status r = Running))
     (and_then (on_db (\<lambda>db. drop_attempt now db i)) (\<lambda>_. ret ())) (\<lambda>_. running_within en (left - {i}))"
proof (rule leads_and_then [OF leads_on_db leads_ret])
  fix e assume P: "running_within en left e \<and> (\<exists>r. row_of (en_db e) i = Some r \<and> rr_status r = Running)"
  then obtain r where r: "row_of (en_db e) i = Some r" "rr_status r = Running" by blast
  let ?db = "dropped_db now i (en_db e)"
  have ok: "engine_ok en nobody (insert i UNIV) e" "idle nobody e i"
    using P untouched_idle by (simp_all add: running_within_def)
  have others: "open_attempts ?db k = open_attempts (en_db e) k" if "k \<noteq> i" for k
  proof -
    have "row_delete (open_attempt i) (attempts_of (en_db e) k) = attempts_of (en_db e) k"
      using that unfolding row_delete_def by (intro filter_True) (auto simp: open_attempt_def attempts_of_def)
    then show ?thesis by (simp add: open_attempts_def dropped_db_simps)
  qed
  have "attempts_told ?db x \<and> (rr_status x = Running \<longrightarrow> k \<in> left - {i})" if x: "row_of ?db k = Some x" for k x
  proof (cases "k = i")
    case True
    with x r show ?thesis by (auto simp: attempts_told_def dropped_db_simps)
  next
    case False
    with x have "row_of (en_db e) k = Some x" by (auto simp: dropped_db_simps)
    moreover from this have "rr_id x = k" using find_Some_key [of rr_id k "run_rows (en_db e)" x] by simp
    ultimately show ?thesis
      using P False others [of k] by (auto simp: attempts_told_def running_within_def)
  qed
  with dropped_engine_ok(1) [OF ok r, of now] P have "running_within en (left - {i}) (e\<lparr>en_db := ?db\<rparr>)"
    by (auto simp: running_within_def untouched_def queued_steps_def)
  with r(1) show "\<exists>db x. drop_attempt now (en_db e) i = Inr (db, x) \<and> running_within en (left - {i}) (e\<lparr>en_db := db\<rparr>)"
    by (simp add: drop_attempt_eq)
qed

lemma distinct_open:
  assumes "\<And>j. length (filter (\<lambda>a. ar_run a = j \<and> ar_ended a = None) rows) \<le> 1" "\<And>a. P a \<Longrightarrow> ar_ended a = None"
  shows "distinct (map ar_run (filter P rows))"
  using assms(1)
proof (induction rows)
  case (Cons a rows)
  have IH: "distinct (map ar_run (filter P rows))"
  proof (rule Cons.IH)
    fix j show "length (filter (\<lambda>a. ar_run a = j \<and> ar_ended a = None) rows) \<le> 1"
      using Cons.prems [of j] by (simp split: if_splits)
  qed
  have "ar_run a \<notin> ar_run ` set (filter P rows)" if "P a"
  proof
    assume "ar_run a \<in> ar_run ` set (filter P rows)"
    then obtain b where "b \<in> set rows" "P b" "ar_run b = ar_run a" by auto
    then have "filter (\<lambda>x. ar_run x = ar_run a \<and> ar_ended x = None) rows \<noteq> []"
      using assms(2) by (auto simp: filter_empty_conv)
    with Cons.prems [of "ar_run a"] assms(2) [OF that] show False by simp
  qed
  with IH show ?case by simp
qed simp

text \<open>Every running run has its open attempt dropped, once, and is queued.\<close>

lemma unfinished_attempts_runs:
  assumes "engine_ok en busy away e" "\<And>i r. row_of (en_db e) i = Some r \<Longrightarrow> attempts_told (en_db e) r"
  shows "distinct (unfinished_attempts (en_db e))"
    "i \<in> set (unfinished_attempts (en_db e)) \<longleftrightarrow> (\<exists>r. row_of (en_db e) i = Some r \<and> rr_status r = Running)"
proof -
  have rows: "row_of (en_db e) (rr_id r) = Some r" if "r \<in> set (run_rows (en_db e))" for r
    using engine_ok_db [OF assms(1)] find_distinct_key [of rr_id "run_rows (en_db e)"] that by (simp add: run_db_ok_def)
  have one: "length (filter (\<lambda>a. ar_run a = j \<and> ar_ended a = None) (attempt_rows (en_db e))) \<le> 1" for j
  proof (cases "row_of (en_db e) j")
    case None
    then have "attempts_of (en_db e) j = []" by (rule no_row_no_attempts [OF engine_ok_db [OF assms(1)]])
    then have "filter (\<lambda>a. ar_run a = j \<and> ar_ended a = None) (attempt_rows (en_db e)) = []"
      by (auto simp: attempts_of_def filter_empty_conv)
    then show ?thesis by simp
  next
    case (Some r)
    with engine_row(1,2) [OF assms(1) Some] show ?thesis
      by (simp add: row_fine_def open_attempts_def attempts_of_def conj_commute)
  qed
  then show "distinct (unfinished_attempts (en_db e))"
    unfolding unfinished_attempts_def by (rule distinct_open) simp
  show "i \<in> set (unfinished_attempts (en_db e)) \<longleftrightarrow> (\<exists>r. row_of (en_db e) i = Some r \<and> rr_status r = Running)"
  proof
    assume "i \<in> set (unfinished_attempts (en_db e))"
    then obtain r where "r \<in> set (run_rows (en_db e))" "rr_id r = i" "rr_status r = Running"
      by (auto simp: unfinished_attempts_def)
    with rows [of r] show "\<exists>r. row_of (en_db e) i = Some r \<and> rr_status r = Running" by auto
  next
    assume "\<exists>r. row_of (en_db e) i = Some r \<and> rr_status r = Running"
    then obtain r where r: "row_of (en_db e) i = Some r" "rr_status r = Running" by blast
    with assms(2) engine_row(1) [OF assms(1) r(1)] have "open_attempts (en_db e) i \<noteq> []" "r \<in> set (run_rows (en_db e))"
      by (auto simp: attempts_told_def find_Some_iff)
    with r engine_row(1) [OF assms(1) r(1)] show "i \<in> set (unfinished_attempts (en_db e))"
      by (force simp: unfinished_attempts_def open_attempts_def attempts_of_def filter_empty_conv)
  qed
qed

section \<open>Queued runs\<close>

lemma leads_enqueue_left:
  assumes "served en"
  shows "leads (\<lambda>e. engine_ok en nobody away e \<and> untouched (fr_id r) e \<and> stays r e \<and> fr_status r = Queued)
    (enqueue en now r) (\<lambda>_. engine_ok en nobody (away - {fr_id r}))"
proof (rule leads_weaken [OF leads_enqueue [OF assms]])
  fix e assume P: "engine_ok en nobody away e \<and> untouched (fr_id r) e \<and> stays r e \<and> fr_status r = Queued"
  then obtain rr where rr: "row_of (en_db e) (fr_id r) = Some rr" "r = factory_run_of rr" by (auto simp: stays_row)
  have "no_open (en_db e) (fr_id r)"
    using engine_row(1,2) [of en nobody away e "fr_id r" rr] P rr by (auto simp: row_fine_def)
  with P rr show "ready en nobody away r e"
    using engine_ok_away [of en nobody away e "insert (fr_id r) away"] untouched_idle
    by (auto simp: ready_def rested_def at_rest_def stays_row run_row_of)
qed

lemma runs_in_rows:
  assumes "run_db_ok db"
  shows "r \<in> set (runs_in db status) \<longleftrightarrow> run db (fr_id r) = Some r \<and> fr_status r = status"
    "distinct (map fr_id (runs_in db status))"
proof -
  have ids: "distinct (map rr_id (run_rows db))" using assms by (simp add: run_db_ok_def)
  show "r \<in> set (runs_in db status) \<longleftrightarrow> run db (fr_id r) = Some r \<and> fr_status r = status"
  proof
    assume "r \<in> set (runs_in db status)"
    then obtain x where "x \<in> set (run_rows db)" "factory_run_of x = r" "rr_status x = status"
      by (auto simp: runs_in_def)
    with find_distinct_key [OF ids, of x] show "run db (fr_id r) = Some r \<and> fr_status r = status"
      by (auto simp: run_row_of)
  next
    assume "run db (fr_id r) = Some r \<and> fr_status r = status"
    then obtain x where "row_of db (fr_id r) = Some x" "factory_run_of x = r" "rr_status x = status"
      by (auto simp: run_row_of)
    moreover from find_Some_key [OF this(1)] have "x \<in> set (run_rows db)" by simp
    ultimately show "r \<in> set (runs_in db status)" by (auto simp: runs_in_def)
  qed
  have "distinct (map rr_id (sort_key rr_updated (filter (\<lambda>r. rr_status r = status) (run_rows db))))"
    using ids by (simp add: distinct_map inj_on_def)
  then show "distinct (map fr_id (runs_in db status))" by (simp add: runs_in_def comp_def)
qed

lemma runs_in_status:
  assumes "run_db_ok db" "r \<in> set (runs_in db status)" "status \<in> S"
  shows "\<exists>x. row_of db (fr_id r) = Some x \<and> rr_status x \<in> S"
  using runs_in_rows(1) [OF assms(1), of r status] assms(2,3) by (auto simp: run_row_of)

section \<open>Parked runs\<close>

lemma rearm_cases:
  obtains (unarmed) res where "rearm en r e = (res, e)" "known (fr_id r) e \<Longrightarrow> res = Inr ()"
    | (armed) t where "rearm en r e = set_timer (fr_id r) t e"
      "\<not> (fr_wakes_at r = None \<and> untimed_at en (fr_factory r) (fr_step r))"
proof (cases "fr_wakes_at r")
  case None
  show thesis
  proof (cases "Option.bind (env_factory en (fr_factory r)) (\<lambda>f. Option.bind (fr_step r) (step_of f))")
    case none: None
    show thesis by (rule unarmed [of "Inr ()"]) (simp_all add: rearm_def None none)
  next
    case (Some s)
    show thesis
    proof (cases "is_wait (st_kind s)")
      case False
      show thesis by (rule unarmed [of "Inr ()"]) (simp_all add: rearm_def None Some False)
    next
      case True
      show thesis
      proof (cases "attempts (en_db e) (fr_id r)")
        case Nil
        show thesis
          by (rule unarmed [of "Inl Index_Error"]) (use known_attempts [of "fr_id r" e] Nil in \<open>auto simp: rearm_def None Some True\<close>)
      next
        case (Cons a as)
        then have "rearm en r e = arm (fr_id r) s (at_started (last (a # as))) e"
          by (simp add: rearm_def None Some True)
        moreover have "untimed_at en (fr_factory r) (fr_step r) = (first_end (wait_ends s) = None)"
          using Some by (simp add: untimed_at_def step_at_def)
        ultimately show thesis
          by (cases "first_end (wait_ends s)") (auto simp: arm_def None intro: unarmed armed)
      qed
    qed
  qed
next
  case (Some t)
  show thesis by (rule armed [of "Wake t (fr_step r)"]) (simp_all add: rearm_def Some)
qed

lemma rearm_db: "en_db (snd (rearm en r e)) = en_db e"
  by (cases rule: rearm_cases [of en r e]) (simp_all add: set_timer_def)

text \<open>
  A parked run is armed as it was. One that is armed already keeps its timer or is armed again,
  which leaves a stray.
\<close>

lemma rearm_returns:
  assumes "known (fr_id r) e"
  shows "fst (rearm en r e) = Inr ()"
  using assms by (cases rule: rearm_cases [of en r e]) (simp_all add: set_timer_def)

lemma rearm_strays: "en_strays e \<noteq> [] \<Longrightarrow> en_strays (snd (rearm en r e)) \<noteq> []"
  by (cases rule: rearm_cases [of en r e]) (simp_all add: set_timer_def)

lemma rearm_armed:
  assumes "engine_ok en nobody away e" "stays r e" "fr_status r = Parked" "fr_id r \<notin> away"
  shows "snd (rearm en r e) = e \<or> en_strays (snd (rearm en r e)) \<noteq> []"
proof (cases rule: rearm_cases [of en r e])
  case (armed t)
  obtain rr where rr: "row_of (en_db e) (fr_id r) = Some rr" "r = factory_run_of rr"
    using assms(2) by (auto simp: stays_row)
  have "under_way en nobody e rr"
    using engine_ok_run [OF assms(1), of "fr_id r"] rr(1) assms(4) by (simp add: run_fine_def)
  with assms(3) armed(2) have "en_deadlines e (fr_id r) \<noteq> None"
    unfolding rr(2) by (auto simp: under_way_def)
  with armed(1) show ?thesis by (auto simp: set_timer_def)
qed simp

lemma rearm_left:
  assumes "engine_ok en nobody away e" "stays r e" "fr_status r = Parked" "untouched (fr_id r) e" "known (fr_id r) e"
    "fr_wakes_at r = None \<Longrightarrow> open_attempts (en_db e) (fr_id r) \<noteq> []"
  shows "engine_ok en nobody (away - {fr_id r}) (snd (rearm en r e))"
proof -
  let ?i = "fr_id r"
  obtain rr where rr: "row_of (en_db e) ?i = Some rr" "r = factory_run_of rr"
    using assms(2) by (auto simp: stays_row)
  have ok: "engine_ok en nobody (insert ?i away) e" by (rule engine_ok_away [OF assms(1)]) auto
  have arms: "engine_ok en nobody (away - {?i}) (armed ?i (Some t) e)" if "timer_ok en rr (Some t)" for t
    by (rule armed_engine_ok [OF ok rr(1) that]) (use assms(6) rr in simp)
  have none: "en_deadlines e ?i = None" using assms(4) by (simp add: untouched_def)
  show ?thesis
  proof (cases "rr_wakes_at rr")
    case (Some t)
    then have "timer_ok en rr (Some (Wake t (rr_step rr)))"
      using rr assms(3) by (simp add: timer_ok_def)
    from arms [OF this] show ?thesis using rr none Some by (simp add: rearm_def set_timer_armed)
  next
    case wakes: None
    show ?thesis
    proof (cases "untimed_at en (rr_factory rr) (rr_step rr)")
      case True
      have "engine_ok en nobody (away - {?i}) e"
      proof (rule engine_ok_back [OF ok])
        fix x assume "row_of (en_db e) ?i = Some x"
        with rr assms(3,6) wakes True show "under_way en nobody e x" by (auto simp: under_way_def)
      qed
      moreover have "snd (rearm en r e) = e"
        using rr wakes True known_attempts [OF assms(5)]
        by (auto simp: rearm_def arm_def untimed_at_def step_at_def split: option.splits list.splits)
      ultimately show ?thesis by simp
    next
      case False
      then obtain s after result where s: "step_at en (rr_factory rr) (rr_step rr) = Some s"
          "first_end (wait_ends s) = Some (after, result)"
        by (auto simp: untimed_at_def split: option.splits)
      have wait: "is_wait (st_kind s)" "\<not> is_approve (st_kind s)"
        using s(2) by (cases "st_kind s"; simp add: wait_ends_def)+
      have resets: "sr_resets_at result = None"
        using wait_ends_resets first_end_member [OF s(2)] by simp
      obtain a as where as: "attempts (en_db e) ?i = a # as" using known_attempts [OF assms(5)] by (metis list.exhaust)
      have "timer_ok en rr (Some (Expire (at_started (last (a # as)) + int after * SECOND) result))"
        using rr assms(3) wakes s wait resets by (simp add: timer_ok_def approve_at_def)
      from arms [OF this] show ?thesis
        using rr wakes s wait as none by (simp add: rearm_def arm_def step_at_def set_timer_armed)
    qed
  qed
qed

lemma only_rearm: "only (fr_id r) (rearm en r)"
proof -
  have "apart (fr_id r) e (snd (rearm en r e))" for e
    by (cases rule: rearm_cases [of en r e]) (simp_all add: onlyA [OF only_set_timer])
  then show ?thesis by (simp add: only_def)
qed

text \<open>The runs the previous process left parked, of which \<open>left\<close> are not armed yet.\<close>

definition rearming :: "env \<Rightarrow> run_db \<Rightarrow> uuid set \<Rightarrow> uuid set \<Rightarrow> engine \<Rightarrow> bool" where
  "rearming en db parked left e \<longleftrightarrow> en_db e = db \<and> left \<subseteq> parked \<and>
     (en_strays e \<noteq> [] \<or> engine_ok en nobody left e)"

definition to_rearm :: "env \<Rightarrow> uuid set \<Rightarrow> factory_run \<Rightarrow> engine \<Rightarrow> bool" where
  "to_rearm en parked r e \<longleftrightarrow> stays r e \<and> fr_status r = Parked \<and> attempts_of (en_db e) (fr_id r) \<noteq> [] \<and>
     (fr_id r \<in> parked \<longrightarrow> untouched (fr_id r) e \<and>
        (fr_wakes_at r = None \<longrightarrow> open_attempts (en_db e) (fr_id r) \<noteq> []))"

lemma leads_rearm:
  assumes "run_db_ok db"
  shows "leads (\<lambda>e. rearming en db parked left e \<and> to_rearm en parked r e) (rearm en r)
    (\<lambda>_. rearming en db parked (left - {fr_id r}))"
  unfolding leads_def
proof (intro allI impI)
  fix e assume P: "rearming en db parked left e \<and> to_rearm en parked r e"
  then have known: "known (fr_id r) e"
    using assms by (auto simp: known_def rearming_def to_rearm_def stays_row)
  have "en_strays (snd (rearm en r e)) \<noteq> [] \<or> engine_ok en nobody (left - {fr_id r}) (snd (rearm en r e))"
  proof (cases "en_strays e = []")
    case True
    with P have ok: "engine_ok en nobody left e" by (simp add: rearming_def)
    show ?thesis
    proof (cases "fr_id r \<in> parked")
      case True
      with rearm_left [OF ok] P known show ?thesis by (simp add: to_rearm_def)
    next
      case False
      with P have left: "fr_id r \<notin> left" "left - {fr_id r} = left" by (auto simp: rearming_def)
      have "snd (rearm en r e) = e \<or> en_strays (snd (rearm en r e)) \<noteq> []"
        by (rule rearm_armed [OF ok]) (use P left in \<open>auto simp: to_rearm_def\<close>)
      with ok left show ?thesis by auto
    qed
  qed (simp add: rearm_strays)
  with P have "rearming en db parked (left - {fr_id r}) (snd (rearm en r e))"
    by (auto simp: rearming_def rearm_db)
  moreover have "rearm en r e = (Inr (), snd (rearm en r e))"
    using rearm_returns [OF known] by (metis prod.collapse)
  ultimately show "\<exists>x e'. rearm en r e = (Inr x, e') \<and> rearming en db parked (left - {fr_id r}) e'" by blast
qed

lemma leads_rearm_all:
  assumes "run_db_ok db" "distinct (map fr_id rs)"
  shows "leads (\<lambda>e. rearming en db parked left e \<and> (\<forall>r \<in> set rs. to_rearm en parked r e)) (each (rearm en) rs)
    (\<lambda>_. rearming en db parked (left - fr_id ` set rs))"
proof (rule leads_each_away [where I = "rearming en db parked", OF leads_rearm [OF assms(1)] only_rearm assms(2)])
  fix r e e' assume "same_for (fr_id r) e e'" "to_rearm en parked r e"
  then show "to_rearm en parked r e'"
    by (simp add: to_rearm_def same_for_def stays_row untouched_def open_attempts_def)
qed

section \<open>The whole start\<close>

text \<open>What the start of the hub leaves alone: the runs that are finished or stopped.\<close>

definition spares :: "engine \<Rightarrow> engine \<Rightarrow> bool" where
  "spares e0 e \<longleftrightarrow>
     (\<forall>i r. row_of (en_db e0) i = Some r \<longrightarrow> rr_status r \<notin> {Queued, Running, Parked} \<longrightarrow> same_for i e0 e) \<and>
     (\<forall>i. (row_of (en_db e) i = None) = (row_of (en_db e0) i = None))"

lemma spares_refl: "spares e e"
  by (simp add: spares_def)

lemma spares_each:
  assumes "\<And>x. x \<in> set xs \<Longrightarrow> only (key x) (g x)" "spares e0 e"
    and "\<And>x. x \<in> set xs \<Longrightarrow> \<exists>r. row_of (en_db e) (key x) = Some r \<and> rr_status r \<in> {Queued, Running, Parked}"
  shows "spares e0 (snd (each g xs e))"
  unfolding spares_def
proof (intro conjI allI impI)
  fix i r assume r: "row_of (en_db e0) i = Some r" "rr_status r \<notin> {Queued, Running, Parked}"
  with assms(2) have same: "same_for i e0 e" by (auto simp: spares_def)
  with r have "i \<notin> key ` set xs" using assms(3) by (force simp: same_for_def)
  then have "same_for i e (snd (each g xs e))" using each_others [of xs key g i e] assms(1) by blast
  with same show "same_for i e0 (snd (each g xs e))" by (rule same_for_trans)
next
  fix i
  have "(row_of (en_db (snd (each g xs e))) i = None) = (row_of (en_db e) i = None)"
    by (rule each_rows) (rule assms(1))
  with assms(2) show "(row_of (en_db (snd (each g xs e))) i = None) = (row_of (en_db e0) i = None)"
    by (simp add: spares_def)
qed

lemma engine_ok_fewer:
  assumes "engine_ok en busy away e"
    and "\<And>j r. j \<in> away - away' \<Longrightarrow> row_of (en_db e) j = Some r \<Longrightarrow> under_way en busy e r"
  shows "engine_ok en busy away' e"
proof -
  have "run_fine en busy away' e j" for j
    using engine_ok_run [OF assms(1), of j] assms(2) [of j] unfolding run_fine_def
    by (cases "row_of (en_db e) j") auto
  with assms(1) show ?thesis by (simp add: engine_ok_def)
qed

lemma resume_drops:
  assumes "engine_ok en nobody UNIV e0" "\<And>i. untouched i e0"
    "\<And>i r. row_of (en_db e0) i = Some r \<Longrightarrow> attempts_told (en_db e0) r"
  shows "leads (\<lambda>e. e = e0) (each (\<lambda>i. and_then (on_db (\<lambda>db. drop_attempt now db i)) (\<lambda>_. ret ()))
      (unfinished_attempts (en_db e0))) (\<lambda>_ e. running_within en {} e \<and> spares e0 e)"
proof -
  let ?drop = "\<lambda>i. and_then (on_db (\<lambda>db. drop_attempt now db i)) (\<lambda>_. ret ())"
  let ?is = "unfinished_attempts (en_db e0)"
  note runs = unfinished_attempts_runs [OF assms(1,3)]
  have only: "only i (?drop i)" for i by (intro only_intros only_drop)
  have all: "leads (\<lambda>e. running_within en (set ?is) e \<and>
      (\<forall>i \<in> set ?is. \<exists>r. row_of (en_db e) i = Some r \<and> rr_status r = Running)) (each ?drop ?is)
      (\<lambda>_. running_within en (set ?is - (\<lambda>i. i) ` set ?is))"
    by (rule leads_each_away [where I = "running_within en" and key = "\<lambda>i. i", OF leads_drop_left only])
      (use runs in \<open>auto simp: same_for_def\<close>)
  have "running_within en (set ?is) e0" "\<forall>i \<in> set ?is. \<exists>r. row_of (en_db e0) i = Some r \<and> rr_status r = Running"
    using assms runs(2) by (simp_all add: running_within_def)
  then obtain u e' where each: "each ?drop ?is e0 = (Inr u, e')" "running_within en {} e'"
    using all unfolding leads_def by fastforce
  have "\<exists>r. row_of (en_db e0) i = Some r \<and> rr_status r \<in> {Queued, Running, Parked}" if "i \<in> set ?is" for i
    using that runs(2) [where i = i] by auto
  from spares_each [of ?is "\<lambda>i. i" ?drop, OF only spares_refl this]
  have "spares e0 (snd (each ?drop ?is e0))" .
  with each show ?thesis unfolding leads_def by (metis snd_conv)
qed

definition ready_to_rearm :: "env \<Rightarrow> engine \<Rightarrow> engine \<Rightarrow> bool" where
  "ready_to_rearm en e0 e \<longleftrightarrow> run_db_ok (en_db e) \<and> spares e0 e \<and>
     (\<exists>parked. rearming en (en_db e) parked parked e \<and>
       (\<forall>r \<in> set (runs_in (en_db e) Parked). to_rearm en parked r e) \<and>
       parked \<subseteq> fr_id ` set (runs_in (en_db e) Parked))"

lemma resume_queues:
  assumes "served en" "running_within en {} e1" "spares e0 e1"
  shows "leads (\<lambda>e. e = e1) (\<lambda>e. each (enqueue en now) (runs_in (en_db e) Queued) e) (\<lambda>_. ready_to_rearm en e0)"
proof -
  let ?rs = "runs_in (en_db e1) Queued"
  have ok1: "engine_ok en nobody UNIV e1" using assms(2) by (simp add: running_within_def)
  note queued = runs_in_rows [OF engine_ok_db [OF ok1], where status = Queued]
  have all: "leads (\<lambda>e. engine_ok en nobody UNIV e \<and> (\<forall>r \<in> set ?rs. untouched (fr_id r) e \<and> stays r e \<and> fr_status r = Queued))
      (each (enqueue en now) ?rs) (\<lambda>_. engine_ok en nobody (UNIV - fr_id ` set ?rs))"
    by (rule leads_each_away [where I = "engine_ok en nobody", OF leads_enqueue_left [OF assms(1)] only_enqueue queued(2)])
      (auto simp: same_for_def untouched_def stays_row)
  have "\<forall>r \<in> set ?rs. untouched (fr_id r) e1 \<and> stays r e1 \<and> fr_status r = Queued"
    using assms(2) queued(1) by (auto simp: running_within_def stays_def)
  with all ok1 obtain u e2 where each: "each (enqueue en now) ?rs e1 = (Inr u, e2)"
      and ok2: "engine_ok en nobody (UNIV - fr_id ` set ?rs) e2"
    unfolding leads_def by blast
  note db2 = engine_ok_db [OF ok2]
  have same: "same_for i e1 e2" if "i \<notin> fr_id ` set ?rs" for i
    using each_others [of ?rs fr_id "enqueue en now" i e1] only_enqueue that each by simp
  have in_rs: "i \<in> fr_id ` set ?rs" if "row_of (en_db e1) i = Some r" "rr_status r = Queued" for i r
  proof -
    have "factory_run_of r \<in> set ?rs"
      using that find_Some_key [OF that(1)] queued(1) [of "factory_run_of r"] by (simp add: run_row_of)
    then show ?thesis using find_Some_key [OF that(1)] by force
  qed
  define parked where "parked = {i. \<exists>r. row_of (en_db e1) i = Some r \<and> rr_status r = Parked}"
  have kept: "i \<notin> fr_id ` set ?rs" if "i \<in> parked" for i
  proof
    assume "i \<in> fr_id ` set ?rs"
    then have "\<exists>r. row_of (en_db e1) i = Some r \<and> rr_status r = Queued" using queued(1) by (auto simp: run_row_of)
    with that show False by (auto simp: parked_def)
  qed
  have "engine_ok en nobody parked e2"
  proof (rule engine_ok_fewer [OF ok2])
    fix j r assume j: "j \<in> UNIV - fr_id ` set ?rs - parked" and r: "row_of (en_db e2) j = Some r"
    with same [of j] have "row_of (en_db e1) j = Some r" by (simp add: same_for_def)
    with j in_rs assms(2) have "rr_status r \<notin> {Queued, Running, Parked}"
      by (auto simp: parked_def running_within_def)
    then show "under_way en nobody e2 r" by (cases "rr_status r") (simp_all add: under_way_def)
  qed
  then have arms: "rearming en (en_db e2) parked parked e2" by (simp add: rearming_def)
  note parks = runs_in_rows [OF db2, where status = Parked]
  have "to_rearm en parked r e2" if r: "r \<in> set (runs_in (en_db e2) Parked)" for r
  proof -
    from r parks(1) obtain rr where rr: "row_of (en_db e2) (fr_id r) = Some rr" "r = factory_run_of rr" "rr_status rr = Parked"
      by (auto simp: run_row_of)
    have "attempts_of (en_db e2) (fr_id r) \<noteq> []"
      using engine_row(1,2) [OF ok2 rr(1)] rr(3) by (simp add: row_fine_def)
    moreover have "untouched (fr_id r) e2 \<and> (fr_wakes_at r = None \<longrightarrow> open_attempts (en_db e2) (fr_id r) \<noteq> [])"
      if i: "fr_id r \<in> parked"
    proof -
      from same [OF kept [OF i]] have s: "same_for (fr_id r) e1 e2" .
      with rr have "row_of (en_db e1) (fr_id r) = Some rr" by (simp add: same_for_def)
      with assms(2) have "attempts_told (en_db e1) rr" by (auto simp: running_within_def)
      moreover have "untouched (fr_id r) e1" using assms(2) by (simp add: running_within_def)
      ultimately show ?thesis
        using s rr(3) by (simp add: rr(2) same_for_def untouched_def attempts_told_def open_attempts_def)
    qed
    ultimately show ?thesis using r parks(1) by (auto simp: to_rearm_def stays_def)
  qed
  moreover have "parked \<subseteq> fr_id ` set (runs_in (en_db e2) Parked)"
  proof
    fix i assume i: "i \<in> parked"
    with same [OF kept [OF i]] obtain r where r: "row_of (en_db e2) i = Some r" "rr_status r = Parked"
      by (auto simp: parked_def same_for_def)
    then have "factory_run_of r \<in> set (runs_in (en_db e2) Parked)"
      using find_Some_key [OF r(1)] parks(1) [of "factory_run_of r"] by (simp add: run_row_of)
    then show "i \<in> fr_id ` set (runs_in (en_db e2) Parked)" using find_Some_key [OF r(1)] by force
  qed
  moreover have "spares e0 e2"
    using spares_each [of ?rs fr_id "enqueue en now", OF only_enqueue assms(3) runs_in_status [OF engine_ok_db [OF ok1]]] each
    by simp
  ultimately have "ready_to_rearm en e0 e2" using db2 arms by (auto simp: ready_to_rearm_def)
  with each show ?thesis by (simp add: leads_def)
qed

lemma resume_arms:
  "leads (ready_to_rearm en e0) (\<lambda>e. each (rearm en) (runs_in (en_db e) Parked) e)
    (\<lambda>_ e. run_db_ok (en_db e) \<and> spares e0 e \<and> (en_strays e \<noteq> [] \<or> engine_ok en nobody {} e))"
  unfolding leads_def
proof (intro allI impI)
  fix e assume P: "ready_to_rearm en e0 e"
  let ?rs = "runs_in (en_db e) Parked"
  from P obtain parked where arms: "rearming en (en_db e) parked parked e" "\<forall>r \<in> set ?rs. to_rearm en parked r e"
      "parked - fr_id ` set ?rs = {}" and ok: "run_db_ok (en_db e)" "spares e0 e"
    by (auto simp: ready_to_rearm_def)
  note parks = runs_in_rows [OF ok(1), where status = Parked]
  from leads_rearm_all [OF ok(1) parks(2), of en parked parked] arms
  obtain u e' where each: "each (rearm en) ?rs e = (Inr u, e')" "rearming en (en_db e) parked {} e'"
    unfolding leads_def by fastforce
  moreover have "spares e0 e'"
    using spares_each [of ?rs fr_id "rearm en", OF only_rearm ok(2) runs_in_status [OF ok(1)]] each(1)
    by simp
  ultimately show "\<exists>x e'. each (rearm en) ?rs e = (Inr x, e') \<and> run_db_ok (en_db e') \<and> spares e0 e' \<and>
      (en_strays e' \<noteq> [] \<or> engine_ok en nobody {} e')"
    using ok(1) by (auto simp: rearming_def)
qed

text \<open>The calls and stops of runs that are finished or stopped are queued, quietly.\<close>

definition resumed :: "env \<Rightarrow> engine \<Rightarrow> engine \<Rightarrow> bool" where
  "resumed en e0 e \<longleftrightarrow> run_db_ok (en_db e) \<and> spares e0 e \<and> (en_strays e \<noteq> [] \<or> engine_ok en nobody {} e)"

lemma core_same_for: "core e' = core e \<Longrightarrow> same_for i e0 e' = same_for i e0 e"
  by (simp add: core_def same_for_def)

lemma on_core_resumed: "on_core (resumed en e0)"
  unfolding on_core_def
proof (intro allI impI)
  fix e e' assume core: "core e' = core e" and P: "resumed en e0 e"
  have same: "en_strays e' = en_strays e" "en_db e' = en_db e" using core by (simp_all add: core_def)
  then have "spares e0 e' = spares e0 e" by (simp add: spares_def core_same_for [OF core])
  with same P core_engine_ok [OF core] show "resumed en e0 e'" by (simp add: resumed_def)
qed

lemma quiet_report_again: "quiet (known (fr_id r)) (report_again en r)"
  using quiet_report [of r] by (auto simp: quiet_def report_again_def Let_def split: option.split)

lemma quiet_call_end_again: "quiet (known (fr_id r)) (call_end_again en r)"
  using quiet_report [of r] by (auto simp: quiet_def call_end_again_def split: option.split)

lemma quiet_each:
  assumes "\<And>x. x \<in> set xs \<Longrightarrow> quiet P (g x)" "on_core P"
  shows "quiet P (each g xs)"
  using assms(1)
proof (induction xs)
  case (Cons x xs)
  then show ?case by (simp only: each.simps) (intro quiet_and_then assms(2); simp)
qed (simp add: quiet_def)

lemma resumed_known:
  assumes "engine_ok en busy away e0" "row_of (en_db e0) i = Some r" "rr_status r \<notin> {Queued, Running, Parked}"
    "resumed en e0 e"
  shows "known i e"
proof -
  have "same_for i e0 e" using assms(2,3,4) by (auto simp: resumed_def spares_def)
  moreover have "attempts_of (en_db e0) i \<noteq> []"
    using engine_row(1,2) [OF assms(1,2)] assms(3) by (auto simp: row_fine_def)
  ultimately show ?thesis using assms(2,4) by (simp add: known_def same_for_def resumed_def)
qed

lemma rows_found:
  assumes "run_db_ok db" "r \<in> set (map factory_run_of (sort_key k (filter P (run_rows db))))"
  obtains x where "row_of db (fr_id r) = Some x" "P x"
  using assms find_distinct_key [of rr_id "run_rows db"] by (auto simp: run_db_ok_def)

lemma all_right_map: "(\<And>x. x \<in> set xs \<Longrightarrow> \<exists>y. f x = Inr y \<and> P y) \<Longrightarrow> \<exists>ys. all_right (map f xs) = Inr ys \<and> (\<forall>y \<in> set ys. P y)"
  by (induction xs) fastforce+

lemma untold_found:
  assumes "run_db_ok db"
  shows "\<exists>ss. untold_stops db = Inr ss \<and> (\<forall>s \<in> set ss. row_of db (rs_run s) \<noteq> None)"
  unfolding untold_stops_def
proof (rule all_right_map)
  fix s assume "s \<in> set (filter (\<lambda>s. \<not> so_told s) (stop_rows db))"
  then have s: "s \<in> set (stop_rows db)" by simp
  then have "so_run s \<in> rr_id ` set (run_rows db)" using assms by (auto simp: run_db_ok_def)
  then obtain r where r: "row_of db (so_run s) = Some r"
    using find_None_key [of rr_id "so_run s" "run_rows db"] by (cases "row_of db (so_run s)") auto
  have "so_generation s \<in> set (map so_generation (stops_of db (so_run s)))" using s by (simp add: stops_of_def)
  moreover have "map so_generation (stops_of db (so_run s)) = [1..<Suc (rr_stop_generation r)]"
    using row_ok [OF assms r] find_Some_key [OF r] by (auto simp: run_ok_def)
  ultimately have "0 < so_generation s" "so_generation s \<le> rr_stop_generation r" by auto
  from run_stop_found [OF assms r this]
  show "\<exists>y. run_stop db (so_run s) (so_generation s) = Inr y \<and> row_of db (rs_run y) \<noteq> None"
    using r by auto
qed

lemma leads_resume:
  assumes "served en" "engine_ok en nobody UNIV e0" "\<And>i. untouched i e0"
    "\<And>i r. row_of (en_db e0) i = Some r \<Longrightarrow> attempts_told (en_db e0) r"
  shows "leads (\<lambda>e. e = e0) (resume en now) (\<lambda>_. resumed en e0)"
proof -
  note db = engine_ok_db [OF assms(2)]
  obtain ss where ss: "untold_stops (en_db e0) = Inr ss" "\<And>s. s \<in> set ss \<Longrightarrow> row_of (en_db e0) (rs_run s) \<noteq> None"
    using untold_found [OF db] by blast
  have ended: "rr_status x \<notin> {Queued, Running, Parked}"
    if "row_of (en_db e0) i = Some x" "rr_status x = Needs_Human \<or> rr_ended_call x" for i x
    using engine_row(2) [OF assms(2) that(1)] that(2) by (auto simp: row_fine_def ENDS_def)
  have reports: "quiet (resumed en e0) (each (report_again en) (unreported_runs (en_db e0)))"
  proof (rule quiet_each [OF _ on_core_resumed])
    fix r assume "r \<in> set (unreported_runs (en_db e0))"
    then obtain x where "row_of (en_db e0) (fr_id r) = Some x" "rr_status x = Needs_Human"
      using rows_found [OF db] unfolding unreported_runs_def by blast
    with ended resumed_known [OF assms(2)] show "quiet (resumed en e0) (report_again en r)"
      by (blast intro: quiet_weaken [OF quiet_report_again])
  qed
  have calls: "quiet (resumed en e0) (each (call_end_again en) (uncalled_ends (en_db e0)))"
  proof (rule quiet_each [OF _ on_core_resumed])
    fix r assume "r \<in> set (uncalled_ends (en_db e0))"
    then obtain x where "row_of (en_db e0) (fr_id r) = Some x" "rr_ended_call x"
      using rows_found [OF db] unfolding uncalled_ends_def by blast
    with ended resumed_known [OF assms(2)] show "quiet (resumed en e0) (call_end_again en r)"
      by (blast intro: quiet_weaken [OF quiet_call_end_again])
  qed
  have stops: "quiet (resumed en e0) (each (\<lambda>s. put_stop \<lparr>qp_stop = s, qp_waited = 0\<rparr>) ss)"
  proof (rule quiet_each [OF _ on_core_resumed])
    fix s assume "s \<in> set ss"
    then show "quiet (resumed en e0) (put_stop \<lparr>qp_stop = s, qp_waited = 0\<rparr>)"
      using ss(2) by (intro quiet_weaken [OF quiet_put_stop]) (auto simp: resumed_def spares_def)
  qed
  have tells: "leads (resumed en e0) (and_then (each (report_again en) (unreported_runs (en_db e0))) (\<lambda>_.
      and_then (each (call_end_again en) (uncalled_ends (en_db e0))) (\<lambda>_.
      each (\<lambda>s. put_stop \<lparr>qp_stop = s, qp_waited = 0\<rparr>) ss))) (\<lambda>_. resumed en e0)"
    by (rule leads_and_then [OF quiet_leads [OF reports on_core_resumed]
        leads_and_then [OF quiet_leads [OF calls on_core_resumed] quiet_leads [OF stops on_core_resumed]]])
  have starts: "leads (\<lambda>e. running_within en {} e \<and> spares e0 e)
      (\<lambda>e. each (enqueue en now) (runs_in (en_db e) Queued) e) (\<lambda>_. ready_to_rearm en e0)"
    by (rule leads_pointwise) (rule resume_queues [OF assms(1)]; simp)
  have arms: "leads (ready_to_rearm en e0) (\<lambda>e. each (rearm en) (runs_in (en_db e) Parked) e) (\<lambda>_. resumed en e0)"
    by (rule leads_weaken [OF resume_arms]) (auto simp: resumed_def)
  have whole: "leads (\<lambda>e. e = e0) (and_then (each (\<lambda>i. and_then (on_db (\<lambda>db. drop_attempt now db i)) (\<lambda>_. ret ()))
        (unfinished_attempts (en_db e0))) (\<lambda>_.
      and_then (\<lambda>e. each (enqueue en now) (runs_in (en_db e) Queued) e) (\<lambda>_.
      and_then (\<lambda>e. each (rearm en) (runs_in (en_db e) Parked) e) (\<lambda>_.
      and_then (each (report_again en) (unreported_runs (en_db e0))) (\<lambda>_.
      and_then (each (call_end_again en) (uncalled_ends (en_db e0))) (\<lambda>_.
      each (\<lambda>s. put_stop \<lparr>qp_stop = s, qp_waited = 0\<rparr>) ss))))))
      (\<lambda>_. resumed en e0)"
    by (rule leads_and_then [OF resume_drops [OF assms(2-4)] leads_and_then [OF starts leads_and_then [OF arms tells]]])
  then show ?thesis
    by (rule leads_same) (simp add: resume_def Let_def ss(1))
qed

text \<open>The start of the hub from what the process before left of the protocol.\<close>

lemma resume_fresh:
  assumes "served en" "engine_ok en busy {} e"
  shows "\<exists>e'. resume en now (fresh e) = (Inr (), e') \<and> resumed en (fresh e) e'"
proof -
  have "untouched i (fresh e)" for i by (simp add: untouched_def fresh_def queued_steps_def)
  from leads_resume [OF assms(1) fresh_ok(1) [OF assms(2)] this fresh_ok(2) [OF assms(2)]]
  show ?thesis by (simp add: leads_def)
qed

end
