(* ===== verification/Run_System_Laws.thy ===== *)
theory Run_System_Laws
  imports Run_Resume
begin

text \<open>
  What holds of the hub's runs in every state the system reaches: the protocol of the engine
  (\<open>engine_ok\<close>), with each step that is out with a worker that worker's alone. So no run has two
  steps under way or two open attempts, none that is unfinished is left behind, no handler raises
  but the refusals the user is took of, and no finished run moves again.
\<close>

section \<open>What the workers hold\<close>

fun held_by :: "worker \<Rightarrow> (uuid \<times> bool \<times> string) option" where
  "held_by (Sending q command) = Some (qs_run q, True, qs_step q)"
| "held_by (Backing_Off q kept) = Some (qs_run q, kept \<noteq> None, qs_step q)"
| "held_by w = None"

definition staffed :: "busy \<Rightarrow> (uuid \<Rightarrow> worker) \<Rightarrow> bool" where
  "staffed busy ws \<longleftrightarrow> strays busy = [] \<and>
     (\<forall>i. ws i \<noteq> Ended) \<and>
     (\<forall>i j h. held_by (ws i) = Some (j, h) \<longrightarrow> holding busy j = Some h) \<and>
     (\<forall>j h. holding busy j = Some h \<longrightarrow> (\<exists>i. held_by (ws i) = Some (j, h))) \<and>
     (\<forall>i i' j h h'. held_by (ws i) = Some (j, h) \<longrightarrow> held_by (ws i') = Some (j, h') \<longrightarrow> i = i')"

lemma staffed_held: "staffed busy ws \<Longrightarrow> held_by (ws i) = Some (j, h) \<Longrightarrow> holding busy j = Some h"
  unfolding staffed_def by blast

lemma staffed_holder: "staffed busy ws \<Longrightarrow> holding busy j = Some h \<Longrightarrow> \<exists>i. held_by (ws i) = Some (j, h)"
  unfolding staffed_def by blast

lemma staffed_one: "staffed busy ws \<Longrightarrow> held_by (ws i) = Some (j, h) \<Longrightarrow> held_by (ws i') = Some (j, h') \<Longrightarrow> i = i'"
  unfolding staffed_def by blast

lemma staffed_give:
  assumes "staffed busy ws" "w \<noteq> Ended" "held_by w = map_option (Pair j) h"
    "held_by (ws i) = None \<and> holding busy j = None \<or> (\<exists>h'. held_by (ws i) = Some (j, h'))"
  shows "staffed (give busy j h) (ws(i := w))"
proof -
  have others: "held_by (ws k) \<noteq> Some (j, h')" if "k \<noteq> i" for k h'
    using assms(4) that staffed_held [OF assms(1), of k j h'] staffed_one [OF assms(1), of k j h' i] by auto
  have mine: "k = j" if "held_by (ws i) = Some (k, h')" for k h' using assms(4) that by auto
  have new: "l = j \<and> h = Some h'" if "held_by w = Some (l, h')" for l h'
    using that assms(3) by (cases h) auto
  show ?thesis
    unfolding staffed_def
  proof (intro conjI allI impI)
    show "strays (give busy j h) = []" using assms(1) by (simp add: staffed_def)
    show "(ws(i := w)) k \<noteq> Ended" for k using assms(1,2) by (simp add: staffed_def)
  next
    fix k l h' assume k: "held_by ((ws(i := w)) k) = Some (l, h')"
    show "holding (give busy j h) l = Some h'"
    proof (cases "k = i")
      case True
      with k new [of l h'] show ?thesis by simp
    next
      case False
      with k have "held_by (ws k) = Some (l, h')" by simp
      with others [OF False, of h'] staffed_held [OF assms(1)] show ?thesis by auto
    qed
  next
    fix l h' assume l: "holding (give busy j h) l = Some h'"
    show "\<exists>k. held_by ((ws(i := w)) k) = Some (l, h')"
    proof (cases "l = j")
      case True
      with l assms(3) have "held_by ((ws(i := w)) i) = Some (l, h')" by simp
      then show ?thesis by blast
    next
      case False
      with l have "holding busy l = Some h'" by simp
      then obtain k where k: "held_by (ws k) = Some (l, h')" using staffed_holder [OF assms(1)] by blast
      with False mine [of l h'] have "k \<noteq> i" by blast
      with k show ?thesis by (intro exI [of _ k]) simp
    qed
  next
    fix k k' l h1 h2
    assume k: "held_by ((ws(i := w)) k) = Some (l, h1)" "held_by ((ws(i := w)) k') = Some (l, h2)"
    show "k = k'"
    proof (cases "k = i \<or> k' = i")
      case True
      with k new others have "k = i \<and> k' = i" by (metis fun_upd_apply)
      then show ?thesis by simp
    next
      case False
      with k staffed_one [OF assms(1)] show ?thesis by simp
    qed
  qed
qed

lemma staffed_same:
  assumes "staffed busy ws" "w \<noteq> Ended" "held_by w = held_by (ws i)"
  shows "staffed busy (ws(i := w))"
proof -
  have "held_by ((ws(i := w)) k) = held_by (ws k)" "(ws(i := w)) k = Ended \<longleftrightarrow> k \<noteq> i \<and> ws k = Ended" for k
    using assms(2,3) by simp_all
  with assms(1) show ?thesis unfolding staffed_def by presburger
qed

definition system_ok :: "env \<Rightarrow> system \<Rightarrow> bool" where
  "system_ok en s \<longleftrightarrow> (\<exists>busy. engine_ok en busy {} (sy_engine s) \<and> staffed busy (sy_workers s))"

lemma system_okI: "engine_ok en busy {} (sy_engine s) \<Longrightarrow> staffed busy (sy_workers s) \<Longrightarrow> system_ok en s"
  by (auto simp: system_ok_def)

text \<open>A piece that keeps the protocol, whoever works.\<close>

lemma system_ok_engine:
  assumes "system_ok en s" "\<And>busy. engine_ok en busy {} (sy_engine s) \<Longrightarrow> engine_ok en busy {} e"
  shows "system_ok en (s\<lparr>sy_engine := e\<rparr>)"
  using assms by (auto simp: system_ok_def)

lemma leads_engine: "leads P m (\<lambda>_. Q) \<Longrightarrow> P e \<Longrightarrow> Q (snd (m e))"
  unfolding leads_def by fastforce

section \<open>Requests\<close>

lemma answered_done: "answered en busy m e \<Longrightarrow> answered en busy (done_with m) e"
  unfolding done_with_def by (rule answered_and_then) simp_all

lemma handle_answered:
  assumes "served en" "engine_ok en busy {} e"
  shows "answered en busy (handle en now q) e"
proof (cases q)
  case (Signal_On i s)
  then show ?thesis
    using leads_start [OF leads_signal_accepted [OF assms(1)] assms(2)] by (simp add: answered_leads)
next
  case Subscribe
  have "core (e\<lparr>en_subscribers := en_subscribers e @ [[]]\<rparr>) = core e"
    by (simp add: core_def queued_steps_def fun_eq_iff)
  from core_engine_ok [OF this] assms(2) have "answered en busy subscribe e"
    by (simp add: answered_def subscribe_def)
  with Subscribe show ?thesis by (simp add: answered_done)
qed (simp_all add: answered_done intake_answered retry_answered send_back_answered approve_answered
    cancel_answered answer_stop_answered assms)

lemma answered_ok: "answered en busy m e \<Longrightarrow> engine_ok en busy {} e \<Longrightarrow> engine_ok en busy {} (snd (m e))"
  by (auto simp: answered_def split: prod.splits sum.splits)

section \<open>Workers\<close>

text \<open>A worker's own write of a mark leaves the protocol as it is.\<close>

lemma engine_ok_marked:
  assumes "engine_ok en busy {} e" "run_db_ok db" "attempt_rows db = attempt_rows (en_db e)"
    and rows: "\<And>j. row_of db j = map_option (f j) (row_of (en_db e) j)"
    and same: "\<And>j r. rr_id (f j r) = rr_id r \<and> rr_status (f j r) = rr_status r \<and> rr_step (f j r) = rr_step r \<and>
       rr_factory (f j r) = rr_factory r \<and> rr_wakes_at (f j r) = rr_wakes_at r \<and> (rr_ended_call (f j r) \<longrightarrow> rr_ended_call r)"
  shows "engine_ok en busy {} (e\<lparr>en_db := db\<rparr>)"
proof -
  have attempts: "attempts_of db j = attempts_of (en_db e) j" "open_attempts db j = open_attempts (en_db e) j"
      "no_open db j = no_open (en_db e) j" for j
    using assms(3) by (simp_all add: attempts_of_def open_attempts_def no_open_def)
  have "run_fine en busy {} (e\<lparr>en_db := db\<rparr>) j" for j
  proof (cases "row_of (en_db e) j")
    case None
    with engine_ok_run [OF assms(1), of j] show ?thesis by (simp add: run_fine_def rows queued_steps_def)
  next
    case (Some r)
    note fine = engine_ok_run [OF assms(1), of j, unfolded run_fine_def Some option.case]
    have "row_fine en (en_db e) r" using fine by simp
    then have "row_fine en db (f j r)" using same [of j r] by (simp add: row_fine_def attempts)
    moreover have "timer_ok en (f j r) t = timer_ok en r t" for t using same [of j r]
      by (simp add: timer_ok_def split: option.split timer.split)
    moreover have "under_way en busy (e\<lparr>en_db := db\<rparr>) (f j r) = under_way en busy e r"
      using same [of j r] by (cases "rr_status r") (simp_all add: under_way_def attempts queued_steps_def)
    ultimately show ?thesis
      using fine same [of j r] by (simp add: run_fine_def rows Some queued_steps_def)
  qed
  with assms(1,2) show ?thesis by (simp add: engine_ok_def)
qed

lemma marked_engine_ok:
  assumes "engine_ok en busy {} e"
  shows "engine_ok en busy {} (e\<lparr>en_db := mark_reported (en_db e) i generation\<rparr>)"
    "engine_ok en busy {} (e\<lparr>en_db := mark_ended_called (en_db e) i\<rparr>)"
    "engine_ok en busy {} (e\<lparr>en_db := mark_told (en_db e) i generation\<rparr>)"
proof -
  note keeps = marks_keep [OF engine_ok_db [OF assms]]
  show "engine_ok en busy {} (e\<lparr>en_db := mark_reported (en_db e) i generation\<rparr>)"
    by (rule engine_ok_marked [OF assms keeps(1), where
          f = "\<lambda>j r. if rr_id r = i \<and> rr_stop_generation r = generation then r\<lparr>rr_reported := True\<rparr> else r"])
      (simp_all add: mark_reported_def find_row_update_keeps)
  show "engine_ok en busy {} (e\<lparr>en_db := mark_ended_called (en_db e) i\<rparr>)"
    by (rule engine_ok_marked [OF assms keeps(2), where f = "\<lambda>j r. if j = i then r\<lparr>rr_ended_call := False\<rparr> else r"])
      (simp_all add: mark_ended_called_def row_of_set_run set_run_simps)
  show "engine_ok en busy {} (e\<lparr>en_db := mark_told (en_db e) i generation\<rparr>)"
    by (rule engine_ok_marked [OF assms keeps(3), where f = "\<lambda>j r. r"])
      (simp_all add: mark_told_def option.map_ident)
qed

lemma leads_report_answered:
  "leads (engine_ok en busy {}) (report_answered q ans) (\<lambda>_. engine_ok en busy {})"
  using marked_engine_ok [of en busy]
  by (auto simp: leads_def report_answered_def set_db_def split: answer.split)

lemma leads_stop_told: "leads (engine_ok en busy {}) (stop_told q took) (\<lambda>_. engine_ok en busy {})"
  using marked_engine_ok [of en busy] by (auto simp: leads_def stop_told_def set_db_def)

lemma answer_keeps:
  assumes "served en" "system_ok en s"
  shows "system_ok en (answer_comes en now i ans s)"
proof -
  from assms(2) obtain busy where busy: "engine_ok en busy {} (sy_engine s)" "staffed busy (sy_workers s)"
    by (auto simp: system_ok_def)
  show ?thesis
  proof (cases "sy_workers s i")
    case (Sending q command)
    then have held: "held_by (sy_workers s i) = Some (qs_run q, True, qs_step q)" by simp
    from leads_deliver_answer [OF assms(1) busy(1) staffed_held [OF busy(2) held], of now command ans]
    obtain kept e' where answer: "deliver_answer en now q command ans (sy_engine s) = (Inr kept, e')"
        "engine_ok en (give busy (qs_run q) (held_after q kept)) {} e'"
      unfolding leads_def by blast
    define w where "w = (case kept of None \<Rightarrow> Free | Some k \<Rightarrow> Backing_Off q k)"
    have "staffed (give busy (qs_run q) (held_after q kept)) ((sy_workers s)(i := w))"
      by (rule staffed_give [OF busy(2)]) (use held in \<open>auto simp: w_def held_after_def split: option.split\<close>)
    with answer have "system_ok en (set_worker i w e' s)" by (auto intro: system_okI simp: set_worker_def)
    with answer(1) Sending show ?thesis by (cases kept) (simp_all add: answer_comes_def w_def)
  next
    case (Reporting r)
    from leads_start [OF leads_report_answered busy(1), of r ans]
    obtain kept e' where answer: "report_answered r ans (sy_engine s) = (Inr kept, e')" "engine_ok en busy {} e'"
      unfolding leads_def by blast
    have "staffed busy ((sy_workers s)(i := Free))"
      by (rule staffed_same [OF busy(2)]) (simp_all add: Reporting)
    with answer Reporting show ?thesis
      by (cases kept) (auto simp: answer_comes_def set_worker_def intro: system_okI)
  qed (use assms(2) in \<open>simp_all add: answer_comes_def\<close>)
qed

lemma stop_keeps:
  assumes "system_ok en s"
  shows "system_ok en (stop_taken i took s)"
proof (cases "sy_workers s i")
  case (Telling t)
  from assms obtain busy where busy: "engine_ok en busy {} (sy_engine s)" "staffed busy (sy_workers s)"
    by (auto simp: system_ok_def)
  from leads_start [OF leads_stop_told busy(1), of t took]
  obtain kept e' where answer: "stop_told t took (sy_engine s) = (Inr kept, e')" "engine_ok en busy {} e'"
    unfolding leads_def by blast
  have "staffed busy ((sy_workers s)(i := Free))"
    by (rule staffed_same [OF busy(2)]) (simp_all add: Telling)
  with answer Telling show ?thesis
    by (cases kept) (auto simp: stop_taken_def set_worker_def intro: system_okI)
qed (use assms in \<open>simp_all add: stop_taken_def\<close>)

lemma begin_held:
  assumes "in_hand en busy q e" "staffed busy (sy_workers s)"
    "held_by (sy_workers s i) = None \<and> holding busy (qs_run q) = None \<or> (\<exists>h. held_by (sy_workers s i) = Some (qs_run q, h))"
  shows "\<exists>command e'. deliver_begin now q e = (Inr command, e') \<and> system_ok en (set_worker i (Sending q command) e' s)"
proof -
  from leads_start [OF leads_deliver_begin assms(1), of now]
  obtain command e' where begun: "deliver_begin now q e = (Inr command, e')"
      "engine_ok en (give busy (qs_run q) (Some (True, qs_step q))) {} e'"
    unfolding leads_def by blast
  have "staffed (give busy (qs_run q) (Some (True, qs_step q))) ((sy_workers s)(i := Sending q command))"
    by (rule staffed_give [OF assms(2)]) (use assms(3) in auto)
  with begun show ?thesis by (auto simp: set_worker_def intro: system_okI)
qed

lemma again_keeps:
  assumes "served en" "system_ok en s"
  shows "system_ok en (backoff_ends en now i s)"
proof (cases "sy_workers s i")
  case (Backing_Off q kept)
  from assms(2) obtain busy where busy: "engine_ok en busy {} (sy_engine s)" "staffed busy (sy_workers s)"
    by (auto simp: system_ok_def)
  from Backing_Off have held: "held_by (sy_workers s i) = Some (qs_run q, kept \<noteq> None, qs_step q)" by simp
  note mine = staffed_held [OF busy(2) held]
  from leads_deliver_again [OF assms(1) busy(1) mine, of now i]
  obtain again e' where sent: "deliver_again en now i q kept (sy_engine s) = (Inr again, e')"
      "engine_ok en (give busy (qs_run q) (if again then Some (kept \<noteq> None, qs_step q) else None)) {} e'"
    unfolding leads_def by blast
  show ?thesis
  proof (cases again)
    case False
    have "staffed (give busy (qs_run q) None) ((sy_workers s)(i := Free))"
      by (rule staffed_give [OF busy(2)]) (use held in auto)
    with sent False Backing_Off show ?thesis
      by (auto simp: backoff_ends_def set_worker_def intro: system_okI)
  next
    case True
    with sent mine have ok: "engine_ok en busy {} e'" by (simp add: give_same)
    show ?thesis
    proof (cases kept)
      case (Some command)
      have "staffed busy ((sy_workers s)(i := Sending q command))"
        by (rule staffed_same [OF busy(2)]) (simp_all add: held Some)
      with ok sent(1) True Some Backing_Off show ?thesis
        by (auto simp: backoff_ends_def set_worker_def intro: system_okI)
    next
      case None
      with mine have "in_hand en busy q e'" by (intro held_in_hand [OF ok]) simp
      from begin_held [OF this busy(2), of i now] held
      obtain command e'' where "deliver_begin now q e' = (Inr command, e'')" "system_ok en (set_worker i (Sending q command) e'' s)"
        by blast
      with sent(1) True None Backing_Off show ?thesis by (simp add: backoff_ends_def)
    qed
  qed
qed (use assms(2) in \<open>simp_all add: backoff_ends_def\<close>)

lemma work_keeps:
  assumes "system_ok en s" "sy_workers s i = Free"
  shows "system_ok en (works now i s)"
proof -
  from assms(1) obtain busy where busy: "engine_ok en busy {} (sy_engine s)" "staffed busy (sy_workers s)"
    by (auto simp: system_ok_def)
  show ?thesis
  proof (cases "map_of (en_queues (sy_engine s)) i")
    case None
    with assms(1) show ?thesis by (simp add: works_def dict_get_def)
  next
    case (Some queue)
    show ?thesis
    proof (cases queue)
      case Nil
      with Some assms(1) show ?thesis by (simp add: works_def dict_get_def)
    next
      case (Cons q qs)
      let ?e = "taken i qs (sy_engine s)"
      have queue: "map_of (en_queues (sy_engine s)) i = Some (q # qs)" using Some Cons by simp
      show ?thesis
      proof (cases "\<exists>st. q = Q_Step st")
        case True
        then obtain st where st: "q = Q_Step st" by blast
        from taken_step [OF busy(1), of i st qs] queue st
        have hand: "in_hand en busy st ?e" "holding busy (qs_run st) = None" by simp_all
        from begin_held [OF hand(1) busy(2), of i now] hand(2) assms(2)
        obtain command e' where "deliver_begin now st ?e = (Inr command, e')" "system_ok en (set_worker i (Sending st command) e' s)"
          by auto
        with queue st show ?thesis by (simp add: works_def dict_get_def taken_def)
      next
        case False
        then have "steps_in j [q] = {#}" for j by (cases q) simp_all
        then have "queued_steps ?e j = queued_steps (sy_engine s) j" for j
          using steps_queued_pop [OF queue] by (simp add: queued_steps_def taken_def)
        then have "core ?e = core (sy_engine s)" by (simp add: core_def fun_eq_iff taken_def)
        with core_engine_ok busy(1) have ok: "engine_ok en busy {} ?e" by blast
        have "system_ok en (set_worker i w ?e s)" if "w \<noteq> Ended" "held_by w = None" for w
        proof -
          have "staffed busy ((sy_workers s)(i := w))"
            by (rule staffed_same [OF busy(2)]) (use that assms(2) in simp_all)
          with ok show ?thesis by (auto simp: set_worker_def intro: system_okI)
        qed
        with queue False show ?thesis
          by (cases q) (auto simp: works_def dict_get_def taken_def Let_def)
      qed
    qed
  qed
qed

lemma put_later_core: "core (snd (put_report q e)) = core e" "core (snd (put_stop t e)) = core e"
proof -
  have "row_of (en_db e) (qr_run q) = None \<Longrightarrow> snd (put_report q e) = e"
      "row_of (en_db e) (rs_run (qp_stop t)) = None \<Longrightarrow> snd (put_stop t e) = e"
    by (simp_all add: put_report_def put_stop_def existing_def run_row_of)
  then show "core (snd (put_report q e)) = core e" "core (snd (put_stop t e)) = core e"
    using quiet_put_report [of q] quiet_put_stop [of t] unfolding quiet_def by metis+
qed

lemma later_keeps:
  assumes "system_ok en s"
  shows "system_ok en (put_later k s)"
proof (cases "length (sy_later s) \<le> k")
  case True
  with assms show ?thesis by (simp add: put_later_def)
next
  case False
  have "core (snd ((case sy_later s ! k of Report_Later r \<Rightarrow> put_report r | Tell_Later t \<Rightarrow> put_stop t) (sy_engine s)))
      = core (sy_engine s)"
    by (cases "sy_later s ! k") (simp_all add: put_later_core)
  from core_engine_ok [OF this] assms False show ?thesis
    by (auto simp: system_ok_def put_later_def)
qed

section \<open>Every reachable state\<close>

lemma handle_keeps: "served en \<Longrightarrow> system_ok en s \<Longrightarrow> system_ok en (s\<lparr>sy_engine := snd (handle en now q (sy_engine s))\<rparr>)"
  by (rule system_ok_engine) (auto intro: answered_ok handle_answered)

lemma timer_keeps:
  "served en \<Longrightarrow> system_ok en s \<Longrightarrow> en_deadlines (sy_engine s) i \<noteq> None \<Longrightarrow>
    system_ok en (s\<lparr>sy_engine := snd (timer_fired en now i (sy_engine s))\<rparr>)"
  by (rule system_ok_engine) (auto intro: leads_engine [OF leads_timer_fired])

lemma no_strays: "system_ok en s \<Longrightarrow> en_strays (sy_engine s) = []"
  by (auto simp: system_ok_def engine_ok_def staffed_def)

lemma registry_keeps: "system_ok en s \<Longrightarrow> system_ok en (s\<lparr>sy_engine := (sy_engine s)\<lparr>en_hub := hub\<rparr>\<rparr>)"
proof (rule system_ok_engine)
  fix busy assume ok: "engine_ok en busy {} (sy_engine s)"
  have "core ((sy_engine s)\<lparr>en_hub := hub\<rparr>) = core (sy_engine s)" by (simp add: core_def queued_steps_def fun_eq_iff)
  with ok core_engine_ok show "engine_ok en busy {} ((sy_engine s)\<lparr>en_hub := hub\<rparr>)" by blast
qed

lemma nobody_staffs: "staffed nobody (\<lambda>_. Free)"
  by (simp add: staffed_def nobody_def)

lemma start_keeps:
  assumes "served en" "system_ok en s" "restarted en now s = (res, s')" "en_strays (sy_engine s') = []"
  shows "system_ok en s'"
proof -
  from assms(2) obtain busy where "engine_ok en busy {} (sy_engine s)" by (auto simp: system_ok_def)
  from resume_fresh [OF assms(1) this, of now] assms(3,4)
  have "engine_ok en nobody {} (sy_engine s')" "sy_workers s' = (\<lambda>_. Free)"
    by (auto simp: restarted_def resumed_def split: prod.splits)
  then show ?thesis by (intro system_okI [of en nobody]) (simp_all add: nobody_staffs)
qed

lemma hub_step_keeps:
  assumes "served en" "system_ok en s" "hub_step en s s'"
  shows "system_ok en s'"
  using assms(3)
proof (cases rule: hub_stepE)
  case (asked now q)
  show ?thesis unfolding asked by (rule handle_keeps [OF assms(1,2)])
next
  case (timer i now)
  show ?thesis unfolding timer(1) by (rule timer_keeps [OF assms(1,2)]) (simp add: timer(2))
next
  case (stray k now)
  with no_strays [OF assms(2)] show ?thesis by simp
next
  case (work i now)
  show ?thesis unfolding work(1) by (rule work_keeps [OF assms(2) work(2)])
next
  case (start now res)
  show ?thesis by (rule start_keeps [OF assms(1,2) start])
qed (simp_all only: assms answer_keeps stop_keeps again_keeps later_keeps registry_keeps)

lemma new_engine_ok: "engine_ok en nobody {} (new_engine hub)"
  by (simp add: engine_ok_def new_engine_def run_db_ok_empty run_fine_def nobody_def queued_steps_def)

theorem reachable_ok:
  assumes "served en" "reachable en s"
  shows "system_ok en s"
  using assms(2)
proof induction
  case (new hub)
  show ?case by (rule system_okI [of en nobody]) (simp_all add: new_engine_ok nobody_staffs)
next
  case (step s s')
  from hub_step_keeps [OF assms(1) step.IH step.hyps(2)] show ?case .
qed

end
