(* ===== verification/Run_Finished.thy ===== *)
theory Run_Finished
  imports Run_System_Laws
begin

text \<open>
  Runs that stopped. What moves a run on is a request of its user, for one that needs a human, and
  nothing at all for one that is done or cancelled: no worker, timer or start of the hub touches
  either but to mark its report or its call delivered.
\<close>

definition undisturbed :: "run_status set \<Rightarrow> engine \<Rightarrow> engine \<Rightarrow> bool" where
  "undisturbed S e e' \<longleftrightarrow>
     (\<forall>j r. row_of (en_db e) j = Some r \<longrightarrow> rr_status r \<in> S \<longrightarrow>
        (\<exists>r'. row_of (en_db e') j = Some r' \<and> rr_status r' = rr_status r \<and> rr_step r' = rr_step r) \<and>
        attempts_of (en_db e') j = attempts_of (en_db e) j)"

lemma undisturbed_refl: "undisturbed S e e"
  by (simp add: undisturbed_def)

lemma undisturbed_db: "en_db e' = en_db e \<Longrightarrow> undisturbed S e e'"
  by (simp add: undisturbed_def)

lemma undisturbed_same:
  "(\<And>j r. row_of (en_db e) j = Some r \<Longrightarrow> rr_status r \<in> S \<Longrightarrow> same_for j e e') \<Longrightarrow> undisturbed S e e'"
  by (simp add: undisturbed_def same_for_def)

lemma undisturbed_apart:
  assumes "apart i e e'" "\<And>r. row_of (en_db e) i = Some r \<Longrightarrow> rr_status r \<notin> S"
  shows "undisturbed S e e'"
proof (rule undisturbed_same)
  fix j r assume "row_of (en_db e) j = Some r" "rr_status r \<in> S"
  with assms show "same_for j e e'" unfolding apart_def by metis
qed

lemma undisturbed_only:
  assumes "only i m" "\<And>r. row_of (en_db e) i = Some r \<Longrightarrow> rr_status r \<in> S \<Longrightarrow> snd (m e) = e"
  shows "undisturbed S e (snd (m e))"
proof (cases "snd (m e) = e")
  case False
  with undisturbed_apart [OF onlyA [OF assms(1)]] assms(2) show ?thesis by blast
qed (simp add: undisturbed_refl)

section \<open>Requests\<close>

lemma only_restart_run: "only (fr_id r) (restart en now r step_id)"
  unfolding restart_def
proof (rule only_bind [OF only_restart])
  show "yields (\<lambda>m. fr_id m = fr_id r) (on_db (\<lambda>db. restart_run now db (fr_id r) step_id))"
    by (auto simp: yields_def on_db_def restart_run_def Let_def dest: existing_run_id split: sum.splits)
  fix m :: factory_run assume "fr_id m = fr_id r"
  then have "only (fr_id r) (enqueue en now m)" using only_enqueue [of m] by simp
  then show "only (fr_id r) (and_then (publish m) (\<lambda>_. and_then (enqueue en now m) (\<lambda>_. ret m)))"
    by (intro only_intros)
qed

lemma only_needing_human: "only i (needing_human r)"
  by (simp add: needing_human_def only_ret only_throw)

lemma yields_existing: "yields (\<lambda>r. fr_id r = i) (existing i)"
  using existing_id by (auto simp: yields_def)

lemma yields_needing: "fr_id r = i \<Longrightarrow> yields (\<lambda>r. fr_id r = i) (needing_human r)"
  by (simp add: yields_def needing_human_def)

lemma only_restart_at: "fr_id r = i \<Longrightarrow> only i (restart en now r step_id)"
  using only_restart_run by blast

lemma only_retry: "only i (retry en now i)"
  unfolding retry_def
  by (rule only_bind [OF only_existing yields_existing])
    (erule only_bind [OF only_needing_human yields_needing only_restart_at])

lemma only_send_back: "only i (send_back en now i step_id)"
  unfolding send_back_def Let_def
  by (rule only_bind [OF only_existing yields_existing])
    (intro only_intros only_needing_human only_end only_restart_at; assumption)

lemma only_approve: "only i (approve en now i)"
  unfolding approve_def by (intro only_intros only_advance)

lemma only_cancel: "only i (cancel en now i)"
  unfolding cancel_def by (intro only_intros only_end only_needing_human only_move)

lemma only_answer_stop: "only (ref_run stop) (answer_stop en now stop option_text)"
proof -
  have "only (ref_run stop) (and_then (retry en now (ref_run stop)) (\<lambda>_. ret (Some x)))"
      "only (ref_run stop) (and_then (cancel en now (ref_run stop)) (\<lambda>_. ret (Some x)))"
      "only (ref_run stop) (and_then (send_back en now (ref_run stop) step_id) (\<lambda>_. ret (Some x)))" for x step_id
    by (intro only_intros only_retry only_cancel only_send_back)+
  from this [THEN onlyA] show ?thesis
    unfolding answer_stop_def only_def Let_def by (auto simp del: act_simps split: option.split)
qed

lemma done_with_snd: "snd (done_with m e) = snd (m e)"
  by (simp add: done_with_def split: prod.splits sum.splits)

text \<open>What a piece does to no run that it is not about.\<close>

definition misses :: "uuid \<Rightarrow> 'a act \<Rightarrow> bool" where
  "misses j m \<longleftrightarrow> (\<forall>e. same_for j e (snd (m e)))"

lemma misses_only: "only i m \<Longrightarrow> j \<noteq> i \<Longrightarrow> misses j m"
  by (simp add: misses_def onlyD)

lemma misses_and_then: "misses j m \<Longrightarrow> (\<And>x. misses j (k x)) \<Longrightarrow> misses j (and_then m k)"
  unfolding misses_def
proof
  fix e assume A: "\<forall>e. same_for j e (snd (m e))" "\<And>x. \<forall>e. same_for j e (snd (k x e))"
  obtain res e' where m: "m e = (res, e')" by (cases "m e")
  with A(1) have "same_for j e e'" by (metis snd_conv)
  with A(2) m show "same_for j e (snd (and_then m k e))"
    by (cases res) (auto intro: same_for_trans)
qed

lemma misses_each: "(\<And>x. x \<in> set xs \<Longrightarrow> only (key x) (g x)) \<Longrightarrow> j \<notin> key ` set xs \<Longrightarrow> misses j (each g xs)"
  unfolding misses_def using each_others by blast

lemma signal_undisturbed:
  assumes "engine_ok en busy {} e"
  shows "undisturbed (set FINISHED) e (snd (signal_accepted en now i s e))"
proof (cases "membership en (en_hub e) i")
  case None
  then show ?thesis by (simp add: signal_accepted_def undisturbed_refl)
next
  case (Some p)
  then obtain fm f where m: "membership en (en_hub e) i = Some (fm, f)" by (cases p) simp
  define body where "body = (case env_json en (sn_body s) of None \<Rightarrow> J_Null | Some j \<Rightarrow> j)"
  define found where "found = runs (en_db e) (Some (fm_factory fm)) (Some UNFINISHED)
    (if fm_name fm = in_instance (ff_intake f) then Some i else None) None None"
  have step: "signal_accepted en now i s e = and_then (each (wake_parked en now f s body) found) (\<lambda>_.
      and_then (each (note_waits f s body) found) (\<lambda>_. each (close_run en now f s body) found)) e"
    by (simp add: signal_accepted_def m Let_def body_def found_def del: act_simps)
  show ?thesis
  proof (rule undisturbed_same)
    fix j r assume r: "row_of (en_db e) j = Some r" "rr_status r \<in> set FINISHED"
    have "j \<notin> fr_id ` set found"
    proof
      assume "j \<in> fr_id ` set found"
      then obtain x where x: "x \<in> set (run_rows (en_db e))" "rr_status x \<in> set UNFINISHED" "rr_id x = j"
        by (auto simp: found_def runs_def)
      with find_distinct_key [of rr_id "run_rows (en_db e)" x] engine_ok_db [OF assms] r(1)
      have "x = r" by (simp add: run_db_ok_def)
      with x(2) r(2) show False by (simp add: UNFINISHED_def)
    qed
    then have "misses j (each (wake_parked en now f s body) found)" "misses j (each (note_waits f s body) found)"
        "misses j (each (close_run en now f s body) found)"
      by (auto intro!: misses_each only_wake_parked only_note_waits only_close_run)
    from misses_and_then [OF this(1) misses_and_then [OF this(2,3)]]
    show "same_for j e (snd (signal_accepted en now i s e))"
      unfolding step misses_def by blast
  qed
qed

lemma intake_undisturbed:
  assumes "engine_ok en busy {} e"
  shows "undisturbed (set FINISHED) e (snd (intake_run en new_id now i routine work_item e))"
proof -
  have opens: "undisturbed (set FINISHED) e (snd (and_then (on_db (\<lambda>db. open_run new_id now db i factory work_item first_step)) (\<lambda>(r, started).
           if started then and_then (publish r) (\<lambda>_. and_then (enqueue en now r) (\<lambda>_. ret r))
           else if fr_status r = Needs_Human then restart en now r (fr_step r)
           else ret r) e))" for factory first_step
  proof (cases "open_run new_id now (en_db e) i factory work_item first_step")
    case (Inl err)
    then show ?thesis by (simp add: on_db_def undisturbed_refl)
  next
    case (Inr x)
    obtain db r started where x: "open_run new_id now (en_db e) i factory work_item first_step = Inr (db, r, started)"
      using Inr by (cases x) auto
    then show ?thesis
    proof (cases rule: open_run_cases)
      case 1
      then obtain rr where rr: "r = factory_run_of rr" "row_of (en_db e) (fr_id r) = Some rr"
        using engine_ok_db [OF assms] find_distinct_key [of rr_id "run_rows (en_db e)"] by (auto simp: run_db_ok_def)
      have "undisturbed (set FINISHED) e (snd ((if fr_status r = Needs_Human then restart en now r (fr_step r) else ret r) e))"
      proof (rule undisturbed_only)
        show "only (fr_id r) (if fr_status r = Needs_Human then restart en now r (fr_step r) else ret r)"
          by (intro only_intros only_restart_run)
      qed (use rr in \<open>auto simp: FINISHED_def\<close>)
      with x 1 show ?thesis by (simp add: on_db_def)
    next
      case (2 row)
      let ?e = "e\<lparr>en_db := db\<rparr>"
      have rows: "row_of db j = row_of (en_db e) j" "attempts_of db j = attempts_of (en_db e) j" "j \<noteq> new_id"
        if "row_of (en_db e) j = Some y" for j y
        using 2 that find_Some_key [OF that] by (auto simp: find_append attempts_of_def image_iff)
      have only: "only new_id (and_then (publish r) (\<lambda>_. and_then (enqueue en now r) (\<lambda>_. ret r)))"
        using only_enqueue [of r en now] 2 by (intro only_intros) simp
      have "undisturbed (set FINISHED) e (snd (and_then (publish r) (\<lambda>_. and_then (enqueue en now r) (\<lambda>_. ret r)) ?e))"
      proof (rule undisturbed_same)
        fix j y assume "row_of (en_db e) j = Some y"
        note rows [OF this] onlyD [OF only rows(3) [OF this], of ?e]
        then show "same_for j e (snd (and_then (publish r) (\<lambda>_. and_then (enqueue en now r) (\<lambda>_. ret r)) ?e))"
          by (simp add: same_for_def queued_steps_def del: act_simps)
      qed
      with x 2 show ?thesis by (simp add: on_db_def)
    qed
  qed
  then show ?thesis
    by (auto simp: intake_run_def undisturbed_refl simp del: act_simps split: option.split prod.split)
qed

lemma handle_undisturbed:
  assumes "engine_ok en busy {} e"
  shows "undisturbed (set FINISHED) e (snd (handle en now q e))"
proof (cases q)
  case (Retry_Run i)
  have "undisturbed (set FINISHED) e (snd (retry en now i e))"
    by (rule undisturbed_only [OF only_retry])
      (auto simp: retry_def existing_def run_row_of needing_human_def FINISHED_def)
  with Retry_Run show ?thesis by (simp add: done_with_snd)
next
  case (Send_Run_Back i step_id)
  have "undisturbed (set FINISHED) e (snd (send_back en now i step_id e))"
    by (rule undisturbed_only [OF only_send_back])
      (auto simp: send_back_def existing_def run_row_of needing_human_def awaits_approval_def FINISHED_def)
  with Send_Run_Back show ?thesis by (simp add: done_with_snd)
next
  case (Approve_Run i)
  have "undisturbed (set FINISHED) e (snd (approve en now i e))"
    by (rule undisturbed_only [OF only_approve])
      (auto simp: approve_def existing_def run_row_of awaits_approval_def FINISHED_def)
  with Approve_Run show ?thesis by (simp add: done_with_snd)
next
  case (Cancel_Run i)
  have "undisturbed (set FINISHED) e (snd (cancel en now i e))"
    by (rule undisturbed_only [OF only_cancel])
      (auto simp: cancel_def existing_def run_row_of needing_human_def FINISHED_def)
  with Cancel_Run show ?thesis by (simp add: done_with_snd)
next
  case (Answer_Stop stop option_text)
  have "undisturbed (set FINISHED) e (snd (answer_stop en now stop option_text e))"
    by (rule undisturbed_only [OF only_answer_stop])
      (auto simp: answer_stop_def Let_def run_row_of FINISHED_def)
  with Answer_Stop show ?thesis by (simp add: done_with_snd)
next
  case Subscribe
  show ?thesis unfolding Subscribe by (rule undisturbed_db) (simp add: done_with_snd subscribe_def)
next
  case (Intake new_id i routine work_item)
  with intake_undisturbed [OF assms] show ?thesis by (simp add: done_with_snd)
next
  case (Signal_On i s)
  with signal_undisturbed [OF assms] show ?thesis by simp
qed

section \<open>Steps without a request\<close>

lemma only_deliver_begin: "only (qs_run q) (deliver_begin now q)"
proof -
  have "only (qs_run q) (\<lambda>e. case attempts (en_db e) (qs_run q) of [] \<Rightarrow> (Inl Index_Error, e)
     | as \<Rightarrow> (Inr ((qs_command q)\<lparr>src_attempt := Some (at_attempt (last as))\<rparr>), e))"
    by (simp add: only_def split: list.split)
  then show ?thesis unfolding deliver_begin_def by (intro only_intros only_begin)
qed

lemma only_deliver_answer: "only (qs_run q) (deliver_answer en now q command ans)"
  unfolding deliver_answer_def by (cases ans) (simp_all only: answer.case, (intro only_intros only_advance only_drop)+)

lemma only_deliver_again: "only (qs_run q) (deliver_again en now inst q command)"
proof -
  have "only (qs_run q) (and_then (existing (qs_run q)) (\<lambda>r. and_then (enqueue en now r) (\<lambda>_. ret False)))"
    by (rule only_bind [OF only_existing yields_existing]) (metis only_and_then only_enqueue only_ret)
  then have "only (qs_run q) (and_then (if command \<noteq> None
         then and_then (on_db (\<lambda>db. drop_attempt now db (qs_run q))) publish else ret ()) (\<lambda>_.
       and_then (existing (qs_run q)) (\<lambda>r. and_then (enqueue en now r) (\<lambda>_. ret False))))"
    by (rule only_and_then [rotated]) (intro only_intros only_drop)
  from onlyA [OF this] show ?thesis
    unfolding only_def deliver_again_def by (auto simp del: act_simps)
qed

lemma only_timer_fired: "only i (timer_fired en now i)"
proof -
  have wakes: "only i (and_then (move en now i Queued step_id) (enqueue en now))" for step_id
    by (rule only_bind [OF only_move yields_move]) (metis only_enqueue)
  have "only i (and_then (disarm i) (\<lambda>_. and_then (advance en now i result) (\<lambda>_. ret ())))"
      "only i (and_then (disarm i) (\<lambda>_. and_then (move en now i Queued step_id) (enqueue en now)))" for result step_id
    by (intro only_intros only_advance wakes)+
  from this [THEN onlyA] show ?thesis
    unfolding only_def timer_fired_def by (auto simp del: act_simps split: option.split timer.split)
qed

lemma stops_set: "set STOPS = {Done, Cancelled, Needs_Human}"
  by (simp add: STOPS_def)

text \<open>A step a worker holds is of a run that has not stopped.\<close>

lemma held_unstopped:
  assumes "engine_ok en busy {} e" "staffed busy ws" "held_by (ws i) = Some (j, h)" "row_of (en_db e) j = Some r"
  shows "rr_status r \<notin> set STOPS"
proof -
  obtain b st where "h = (b, st)" by (cases h)
  with staffed_held [OF assms(2,3)] have "holding busy j = Some (b, st)" by simp
  from held_run [OF assms(1) this] obtain r' where "row_of (en_db e) j = Some r'" "rr_status r' = (if b then Running else Queued)"
    by metis
  with assms(4) show ?thesis by (simp add: stops_set)
qed

lemma set_worker_engine [simp]: "sy_engine (set_worker i w e s) = e"
  by (simp add: set_worker_def)

lemma marks_undisturbed:
  "undisturbed S e (snd (report_answered q ans e))" "undisturbed S e (snd (stop_told t took e))"
proof -
  have "undisturbed S e (e\<lparr>en_db := mark_ended_called (en_db e) i\<rparr>)" "undisturbed S e (e\<lparr>en_db := mark_reported (en_db e) i g\<rparr>)"
      "undisturbed S e (e\<lparr>en_db := mark_told (en_db e) i g\<rparr>)" for i g
    by (simp_all add: undisturbed_def mark_ended_called_def mark_reported_def mark_told_def row_of_set_run
        find_row_update_keeps attempts_of_def set_run_simps)
  then show "undisturbed S e (snd (report_answered q ans e))" "undisturbed S e (snd (stop_told t took e))"
    by (auto simp: report_answered_def stop_told_def set_db_def undisturbed_refl split: answer.split)
qed

lemma answer_undisturbed:
  assumes "system_ok en s"
  shows "undisturbed (set STOPS) (sy_engine s) (sy_engine (answer_comes en now i ans s))"
proof -
  from assms obtain busy where busy: "engine_ok en busy {} (sy_engine s)" "staffed busy (sy_workers s)"
    by (auto simp: system_ok_def)
  show ?thesis
  proof (cases "sy_workers s i")
    case (Sending q command)
    then have "held_by (sy_workers s i) = Some (qs_run q, True, qs_step q)" by simp
    from undisturbed_apart [OF onlyA [OF only_deliver_answer] held_unstopped [OF busy this]]
    have "undisturbed (set STOPS) (sy_engine s) (snd (deliver_answer en now q command ans (sy_engine s)))" .
    with Sending show ?thesis by (auto simp: answer_comes_def split: prod.split sum.split option.split)
  next
    case (Reporting r)
    with marks_undisturbed(1) [of "set STOPS" "sy_engine s" r ans] show ?thesis
      by (auto simp: answer_comes_def split: prod.split sum.split option.split)
  qed (simp_all add: answer_comes_def undisturbed_refl)
qed

lemma again_undisturbed:
  assumes "system_ok en s"
  shows "undisturbed (set STOPS) (sy_engine s) (sy_engine (backoff_ends en now i s))"
proof (cases "sy_workers s i")
  case (Backing_Off q kept)
  from assms obtain busy where busy: "engine_ok en busy {} (sy_engine s)" "staffed busy (sy_workers s)"
    by (auto simp: system_ok_def)
  from Backing_Off have held: "held_by (sy_workers s i) = Some (qs_run q, kept \<noteq> None, qs_step q)" by simp
  obtain res e' where again: "deliver_again en now i q kept (sy_engine s) = (res, e')" by (cases "deliver_again en now i q kept (sy_engine s)")
  with onlyA [OF only_deliver_again, of q "sy_engine s" en now i kept] have first: "apart (qs_run q) (sy_engine s) e'" by simp
  have "apart (qs_run q) (sy_engine s) (sy_engine (backoff_ends en now i s))"
    using Backing_Off again first apart_trans [OF first onlyA [OF only_deliver_begin]]
    by (auto simp: backoff_ends_def split: sum.split option.split prod.split bool.split) (metis snd_conv)+
  then show ?thesis by (rule undisturbed_apart) (rule held_unstopped [OF busy held])
qed (simp_all add: backoff_ends_def undisturbed_refl)

lemma work_undisturbed:
  assumes "system_ok en s"
  shows "undisturbed (set STOPS) (sy_engine s) (sy_engine (works now i s))"
proof -
  from assms obtain busy where ok: "engine_ok en busy {} (sy_engine s)" by (auto simp: system_ok_def)
  show ?thesis
  proof (cases "dict_get (en_queues (sy_engine s)) i []")
    case Nil
    then show ?thesis by (simp add: works_def undisturbed_refl)
  next
    case (Cons q qs)
    then have queue: "map_of (en_queues (sy_engine s)) i = Some (q # qs)"
      by (simp add: dict_get_def split: option.splits)
    show ?thesis
    proof (cases "\<exists>st. q = Q_Step st")
      case True
      then obtain st where st: "q = Q_Step st" by blast
      let ?e = "taken i qs (sy_engine s)"
      have "undisturbed (set STOPS) ?e (snd (deliver_begin now st ?e))"
      proof (rule undisturbed_apart [OF onlyA [OF only_deliver_begin]])
        fix r assume "row_of (en_db ?e) (qs_run st) = Some r"
        with taken_step(1) [OF ok, of i st qs] queue st show "rr_status r \<notin> set STOPS"
          by (auto simp: in_hand_def run_row_of stops_set)
      qed
      then have "undisturbed (set STOPS) (sy_engine s) (snd (deliver_begin now st ?e))"
        by (simp add: undisturbed_def taken_def)
      with Cons st show ?thesis
        by (auto simp: works_def taken_def Let_def split: prod.split sum.split)
    next
      case False
      with Cons show ?thesis
        by (cases q) (auto simp: works_def Let_def intro: undisturbed_db)
    qed
  qed
qed

lemma later_undisturbed: "undisturbed S (sy_engine s) (sy_engine (put_later k s))"
proof (cases "length (sy_later s) \<le> k")
  case True
  then show ?thesis by (simp add: put_later_def undisturbed_refl)
next
  case False
  show ?thesis
  proof (rule undisturbed_db)
    have "en_db (snd (put_report q (sy_engine s))) = en_db (sy_engine s)" "en_db (snd (put_stop t (sy_engine s))) = en_db (sy_engine s)" for q t
      using put_later_core [where e = "sy_engine s"] by (simp_all add: core_def)
    then show "en_db (sy_engine (put_later k s)) = en_db (sy_engine s)"
      using False by (auto simp: put_later_def split: later.split)
  qed
qed

lemma timer_undisturbed:
  assumes "system_ok en s" "en_deadlines (sy_engine s) i \<noteq> None"
  shows "undisturbed (set STOPS) (sy_engine s) (snd (timer_fired en now i (sy_engine s)))"
proof (rule undisturbed_apart [OF onlyA [OF only_timer_fired]])
  fix r assume r: "row_of (en_db (sy_engine s)) i = Some r"
  from assms(1) obtain busy where ok: "engine_ok en busy {} (sy_engine s)" by (auto simp: system_ok_def)
  from assms(2) obtain t where "en_deadlines (sy_engine s) i = Some t" by blast
  with engine_row(3) [OF ok r] show "rr_status r \<notin> set STOPS"
    by (cases t) (auto simp: timer_ok_def stops_set)
qed

lemma start_undisturbed:
  assumes "served en" "system_ok en s" "restarted en now s = (res, s')"
  shows "undisturbed (set STOPS) (sy_engine s) (sy_engine s')"
proof -
  from assms(2) obtain busy where "engine_ok en busy {} (sy_engine s)" by (auto simp: system_ok_def)
  from resume_fresh [OF assms(1) this, of now] assms(3) have spares: "spares (fresh (sy_engine s)) (sy_engine s')"
    by (auto simp: restarted_def resumed_def split: prod.splits)
  have "undisturbed (set STOPS) (fresh (sy_engine s)) (sy_engine s')"
    by (rule undisturbed_same) (use spares in \<open>auto simp: spares_def stops_set\<close>)
  then show ?thesis by (simp add: undisturbed_def fresh_def)
qed

text \<open>Every step but a request leaves the runs that stopped where they are.\<close>

lemma step_undisturbed:
  assumes "served en" "system_ok en s" "hub_step en s s'"
  shows "undisturbed (set FINISHED) (sy_engine s) (sy_engine s')"
proof -
  have less: "undisturbed (set STOPS) e e' \<Longrightarrow> undisturbed (set FINISHED) e e'" for e e'
    unfolding undisturbed_def by (auto simp: stops_set FINISHED_def)
  from assms(3) show ?thesis
  proof (cases rule: hub_stepE)
    case (asked now q)
    from assms(2) obtain busy where "engine_ok en busy {} (sy_engine s)" by (auto simp: system_ok_def)
    from handle_undisturbed [OF this] show ?thesis by (simp add: asked)
  next
    case (timer i now)
    with timer_undisturbed [OF assms(2), of i now] show ?thesis by (simp add: less)
  next
    case (stray k now)
    with no_strays [OF assms(2)] show ?thesis by simp
  next
    case (stopped i told)
    have "undisturbed (set STOPS) (sy_engine s) (sy_engine (stop_taken i told s))"
    proof (cases "sy_workers s i")
      case (Telling t)
      with marks_undisturbed(2) [of "set STOPS" "sy_engine s" t told] show ?thesis
        by (auto simp: stop_taken_def split: prod.split sum.split option.split)
    qed (simp_all add: stop_taken_def undisturbed_refl)
    then show ?thesis by (simp add: stopped less)
  next
    case (start now res)
    then show ?thesis by (intro less start_undisturbed [OF assms(1,2)])
  next
    case (work i now)
    show ?thesis unfolding work(1) by (rule less [OF work_undisturbed [OF assms(2)]])
  qed (simp_all add: less answer_undisturbed again_undisturbed later_undisturbed undisturbed_db assms(2))
qed

end
