(* ===== verification/Sample_System.thy ===== *)
theory Sample_System
  imports Sample_Factory Run_System
begin

text \<open>
  A small hub on which the witnesses of the runs engine evaluate: one instance that holds the sample
  factory's only role, and its first run, which is handed in and then with the instance's worker.
\<close>

definition sample_env :: env where
  "sample_env = \<lparr>env_factory = (\<lambda>n. if n = ''sample'' then Some sample else None),
     env_prompt = (\<lambda>f p. Inr ''Plan.''), env_commands = (\<lambda>p. None), env_json = (\<lambda>s. None)\<rparr>"

definition sample_hub :: hub_db where
  "sample_hub = \<lparr>instance_rows = [\<lparr>ir_id = 1, ir_path = ''/w'', ir_manifest_id = ''m'', ir_persona = None,
       ir_requested_revision = ''r'', ir_source_revision = None, ir_image = None, ir_intended = Intended_Running,
       ir_runtime_id = ''c'', ir_prepared = True, ir_avatar = None\<rparr>],
     storage_rows = [], operation_rows = [], operation_step_rows = [], link_rows = [], login_rows = [],
     artifact_rows = [], description_rows = [], candidate_rows = [],
     member_rows = [\<lparr>mr_instance = 1, mr_member = \<lparr>fm_factory = ''sample'', fm_name = ''worker'',
       fm_recipe = None, fm_setup = \<lparr>ds_setup_fields = [], ds_logins = []\<rparr>, fm_baseline = None\<rparr>\<rparr>],
     shipped_skill_rows = [], git_skill_rows = [], session_rows = [], meta_hub_id = None,
     meta_signal_alias = None, meta_access_token = None, meta_update_token = None, meta_home = None\<rparr>"

definition sample_new :: system where
  "sample_new = \<lparr>sy_engine = new_engine sample_hub, sy_workers = (\<lambda>_. Free), sy_later = []\<rparr>"

definition sample_queued :: system where
  "sample_queued = sample_new\<lparr>sy_engine := snd (handle sample_env 10 (Intake 7 1 ''issues'' [(''issue'', VInt 3)])
     (sy_engine sample_new))\<rparr>"

definition sample_sending :: system where
  "sample_sending = works 11 1 sample_queued"

text \<open>The plan fails twice, so the run needs a human, who cancels it.\<close>

definition sample_failed :: "system \<Rightarrow> system" where
  "sample_failed s = answer_comes sample_env 12 1 (Answered (plain_result Failed ''No plan.'')) s"

definition sample_needing :: system where
  "sample_needing = sample_failed (works 13 1 (sample_failed sample_sending))"

definition sample_cancelled :: system where
  "sample_cancelled = sample_needing\<lparr>sy_engine := snd (handle sample_env 14 (Cancel_Run 7) (sy_engine sample_needing))\<rparr>"

text \<open>The plan and the test end clean, and the run waits.\<close>

definition sample_planned :: system where
  "sample_planned = answer_comes sample_env 12 1
     (Answered ((plain_result Clean ''Planned.'')\<lparr>sr_values := [(''ok'', VBool True)]\<rparr>)) sample_sending"

definition sample_waiting :: system where
  "sample_waiting = answer_comes sample_env 14 1 (Answered (plain_result Clean ''Tested.'')) (works 13 1 sample_planned)"

end
