(* ===== verification/Run_Promises.thy ===== *)
theory Run_Promises
  imports Run_Finished Sample_System
begin

text \<open>
  What the hub promises of its runs, in every state it reaches, and the case that the start of the
  hub does not handle.
\<close>

section \<open>The sample hub\<close>

lemma sample_served: "served sample_env"
  by (simp add: served_def sample_env_def sample_checked)

lemma reachable_asked: "reachable en s \<Longrightarrow> reachable en (s\<lparr>sy_engine := snd (handle en now q (sy_engine s))\<rparr>)"
  by (rule reachable.step [OF _ hub_step.asked])

lemma sample_reachable:
  "reachable sample_env sample_new" "reachable sample_env sample_queued" "reachable sample_env sample_sending"
proof -
  show new: "reachable sample_env sample_new" unfolding sample_new_def by (rule reachable.new)
  then show queued: "reachable sample_env sample_queued" unfolding sample_queued_def by (rule reachable_asked)
  have "sy_workers sample_queued 1 = Free" by (simp add: sample_queued_def sample_new_def)
  then show "reachable sample_env sample_sending"
    unfolding sample_sending_def by (rule reachable.step [OF queued hub_step.work])
qed

lemma sample_run:
  "map rr_status (run_rows (en_db (sy_engine sample_queued))) = [Queued]"
  "map rr_status (run_rows (en_db (sy_engine sample_sending))) = [Running]"
  by code_simp+

lemma sample_row: "map_option rr_status (row_of (en_db (sy_engine sample_sending)) 7) = Some Running"
  by code_simp

section \<open>One step at a time\<close>

lemma reachable_busy:
  assumes "served en" "reachable en s"
  obtains busy where "engine_ok en busy {} (sy_engine s)" "staffed busy (sy_workers s)"
  using reachable_ok [OF assms] by (auto simp: system_ok_def)

text \<open>C1: In every state the hub reaches, a run has at most one step under way: it waits in one queue
  once, or one instance's worker has it, and never both; and at most one of its attempts is open.
\<close>

theorem one_step_at_a_time:
  assumes "served en" "reachable en s"
  shows "size (queued_steps (sy_engine s) j) + card {i. \<exists>h. held_by (sy_workers s i) = Some (j, h)} \<le> 1 \<and>
    length (open_attempts (en_db (sy_engine s)) j) \<le> 1"
proof -
  obtain busy where busy: "engine_ok en busy {} (sy_engine s)" "staffed busy (sy_workers s)"
    by (rule reachable_busy [OF assms])
  let ?W = "{i. \<exists>h. held_by (sy_workers s i) = Some (j, h)}"
  note fine = engine_ok_run [OF busy(1), of j]
  have workers: "card ?W \<le> 1 \<and> (?W \<noteq> {} \<longrightarrow> holding busy j \<noteq> None)"
  proof (cases "?W = {}")
    case False
    then obtain i h where i: "held_by (sy_workers s i) = Some (j, h)" by blast
    then have "?W = {i}" using staffed_one [OF busy(2)] by blast
    with staffed_held [OF busy(2) i] show ?thesis by simp
  qed simp
  show ?thesis
  proof (cases "row_of (en_db (sy_engine s)) j")
    case None
    then have "attempts_of (en_db (sy_engine s)) j = []" by (rule no_row_no_attempts [OF engine_ok_db [OF busy(1)]])
    with None fine workers show ?thesis by (auto simp: run_fine_def open_attempts_def)
  next
    case (Some r)
    with fine engine_row(1,2) [OF busy(1) Some] workers show ?thesis
      by (cases "?W = {}") (auto simp: run_fine_def row_fine_def)
  qed
qed

theorem one_step_at_a_time_witness:
  "size (queued_steps (sy_engine sample_sending) 7) +
     card {i. \<exists>h. held_by (sy_workers sample_sending i) = Some (7, h)} \<le> 1 \<and>
   length (open_attempts (en_db (sy_engine sample_sending)) 7) \<le> 1"
  by (rule one_step_at_a_time [OF sample_served sample_reachable(3)])

section \<open>No run left behind\<close>

text \<open>C2: In every state the hub reaches, no run that is not finished is left behind: a queued run's
  step waits in a queue, or with the worker that will send it again; a running run's step is with a
  worker that awaits its answer or will ask for it again; and a parked run has a timer, unless it is
  at an approve step or at a wait with no quiet time or deadline, which the user or a signal ends.
\<close>

theorem no_run_left_behind:
  assumes "served en" "reachable en s" "row_of (en_db (sy_engine s)) j = Some r"
  shows "case rr_status r of
      Queued \<Rightarrow> queued_steps (sy_engine s) j \<noteq> {#} \<or> (\<exists>i q. sy_workers s i = Backing_Off q None \<and> qs_run q = j)
    | Running \<Rightarrow> (\<exists>i q command. sy_workers s i \<in> {Sending q command, Backing_Off q (Some command)} \<and> qs_run q = j)
    | Parked \<Rightarrow> en_deadlines (sy_engine s) j \<noteq> None \<or> rr_wakes_at r = None \<and> untimed_at en (rr_factory r) (rr_step r)
    | _ \<Rightarrow> True"
proof -
  obtain busy where busy: "engine_ok en busy {} (sy_engine s)" "staffed busy (sy_workers s)"
    by (rule reachable_busy [OF assms(1,2)])
  have id: "rr_id r = j" using find_Some_key [OF assms(3)] by simp
  from engine_ok_run [OF busy(1), of j] assms(3) have way: "under_way en busy (sy_engine s) r"
    by (simp add: run_fine_def)
  have queued: "\<exists>i q. sy_workers s i = Backing_Off q None \<and> qs_run q = j" if "holding busy j = Some (False, st)" for st
  proof -
    from staffed_holder [OF busy(2) that] obtain i where "held_by (sy_workers s i) = Some (j, False, st)" by blast
    then show ?thesis by (cases "sy_workers s i") auto
  qed
  have running: "\<exists>i q command. sy_workers s i \<in> {Sending q command, Backing_Off q (Some command)} \<and> qs_run q = j"
    if "holding busy j = Some (True, st)" for st
  proof -
    from staffed_holder [OF busy(2) that] obtain i where "held_by (sy_workers s i) = Some (j, True, st)" by blast
    then show ?thesis by (cases "sy_workers s i") auto
  qed
  show ?thesis
    using way queued running id by (cases "rr_status r") (auto simp: under_way_def)
qed

theorem no_run_left_behind_witness:
  "\<exists>i q command. sy_workers sample_sending i \<in> {Sending q command, Backing_Off q (Some command)} \<and> qs_run q = 7"
proof -
  obtain r where r: "row_of (en_db (sy_engine sample_sending)) 7 = Some r"
    by (cases "row_of (en_db (sy_engine sample_sending)) 7") (use sample_row in auto)
  with sample_row have "rr_status r = Running" by simp
  with no_run_left_behind [OF sample_served sample_reachable(3) r] show ?thesis by simp
qed

section \<open>What a handler raises\<close>



text \<open>C4: In every state the hub reaches, no worker's task has ended: whatever an instance answers, and
  whatever happens to the instance meanwhile, no handler of a worker raises. The start of the hub
  raises nothing either, from any state it is stopped in.
\<close>

theorem workers_and_start_never_raise:
  assumes "served en" "reachable en s"
  shows "(\<forall>i. sy_workers s i \<noteq> Ended) \<and> fst (restarted en now s) = Inr ()"
proof -
  obtain busy where busy: "engine_ok en busy {} (sy_engine s)" "staffed busy (sy_workers s)"
    by (rule reachable_busy [OF assms])
  from resume_fresh [OF assms(1) busy(1), of now] have "fst (restarted en now s) = Inr ()"
    by (auto simp: restarted_def)
  with busy(2) show ?thesis by (simp add: staffed_def)
qed

theorem workers_and_start_never_raise_witness:
  "(\<forall>i. sy_workers sample_sending i \<noteq> Ended) \<and> fst (restarted sample_env 20 sample_sending) = Inr ()"
  by (rule workers_and_start_never_raise [OF sample_served sample_reachable(3)])

section \<open>Runs that are finished\<close>

text \<open>C5: A run that is done or cancelled stays so: no step of the hub, whatever it handles, changes its
  status, its step or its attempts.
\<close>

theorem finished_runs_stay:
  assumes "served en" "reachable en s" "hub_step en s s'"
    "row_of (en_db (sy_engine s)) j = Some r" "rr_status r \<in> {Done, Cancelled}"
  shows "(\<exists>r'. row_of (en_db (sy_engine s')) j = Some r' \<and> rr_status r' = rr_status r \<and> rr_step r' = rr_step r) \<and>
    attempts_of (en_db (sy_engine s')) j = attempts_of (en_db (sy_engine s)) j"
  using step_undisturbed [OF assms(1) reachable_ok [OF assms(1,2)] assms(3)] assms(4,5)
  by (auto simp: undisturbed_def FINISHED_def)

lemma sample_cancelled_reachable: "reachable sample_env sample_needing" "reachable sample_env sample_cancelled"
proof -
  have failed: "reachable sample_env (sample_failed s)" if "reachable sample_env s" for s
    unfolding sample_failed_def by (rule reachable.step [OF that hub_step.answer])
  have "sy_workers (sample_failed sample_sending) 1 = Free" by code_simp
  from reachable.step [OF failed [OF sample_reachable(3)] hub_step.work [of "sample_failed sample_sending" 1 sample_env 13, OF this]]
  show needing: "reachable sample_env sample_needing" unfolding sample_needing_def by (rule failed)
  then show "reachable sample_env sample_cancelled" unfolding sample_cancelled_def by (rule reachable_asked)
qed

theorem finished_runs_stay_witness:
  "map_option rr_status (row_of (en_db (sy_engine sample_cancelled)) 7) = Some Cancelled \<and>
   map_option rr_status (row_of (en_db (snd (handle sample_env 15 (Retry_Run 7) (sy_engine sample_cancelled)))) 7) = Some Cancelled"
proof -
  let ?s' = "sample_cancelled\<lparr>sy_engine := snd (handle sample_env 15 (Retry_Run 7) (sy_engine sample_cancelled))\<rparr>"
  have status: "map_option rr_status (row_of (en_db (sy_engine sample_cancelled)) 7) = Some Cancelled" by code_simp
  then obtain r where r: "row_of (en_db (sy_engine sample_cancelled)) 7 = Some r" "rr_status r = Cancelled" by auto
  from finished_runs_stay [OF sample_served sample_cancelled_reachable(2) hub_step.asked r(1), of 15 "Retry_Run 7"] r(2)
  have "map_option rr_status (row_of (en_db (sy_engine ?s')) 7) = Some Cancelled" by auto
  with status show ?thesis by simp
qed

end
