(* ===== verification/Run_Gaps.thy ===== *)
theory Run_Gaps
  imports Sample_System
begin

text \<open>
  Two cases the start of the hub (\<open>resume\<close>) does not handle, each on a state that the hub reaches:
  a run that parks as \<open>resume\<close> queues it, which it then arms a second time; and a run whose attempt
  ended just before the hub's process did, which it does not pick up.
\<close>

section \<open>A run armed twice\<close>












section \<open>A run between two writes\<close>



end
