(* ===== verification/Notice_Tables.thy ===== *)
theory Notice_Tables
  imports Hub_Tables
begin

text \<open>
  The registry's tables of channels, notifications, their deliveries and the user's replies
  (\<open>HubRegistry\<close> in src/src/kinby/hub/registry.py), and each operation on them. A table is the list
  of its rows in the order they were inserted, which is the order of SQLite's rowid. The two columns
  of a channel's pairing, and of its last failure, are written together and are one field here; so
  are the two of the run stop a notification asks about.
\<close>

section \<open>The contract's values\<close>

datatype delivery_status = Delivery_Pending | Delivery_Sent | Delivery_Failed | Delivery_Muted

datatype reply_status = Reply_Received | Reply_Applied | Reply_Stale | Reply_Failed

record channel_failure =
  cf_at :: moment
  cf_error :: string

text \<open>An approval a turn parked on. What it asks for is the instance's, and only passed on.\<close>

record waiting_approval =
  wa_turn :: uuid
  wa_approval :: uuid

text \<open>A notification as a channel sends it.\<close>

record channel_notification =
  cm_id :: uuid
  cm_header :: string
  cm_title :: string
  cm_text :: string
  cm_link :: "string option"
  cm_options :: "string list"

record notification_delivery =
  nd_channel :: uuid
  nd_status :: delivery_status

record notification_reply =
  nl_option :: "string option"
  nl_channel :: "uuid option"
  nl_received :: moment
  nl_status :: reply_status
  nl_outcome :: "string option"

record notification =
  no_id :: uuid
  no_instance :: uuid
  no_thread :: "uuid option"
  no_header :: string
  no_title :: string
  no_text :: string
  no_link :: "string option"
  no_options :: "string list"
  no_raised :: moment
  no_deliveries :: "notification_delivery list"
  no_replies :: "notification_reply list"

section \<open>Rows and records\<close>

record pairing =
  pa_code :: string
  pa_expires :: moment

record channel_row =
  cn_id :: uuid
  cn_name :: string
  cn_kind :: string
  cn_settings :: "(string, step_value) dict"
  cn_enabled :: bool
  cn_paired_user :: "string option"
  cn_pairing :: "pairing option"
  cn_last_sent :: "moment option"
  cn_last_failure :: "channel_failure option"

record channel_record =
  ch_id :: uuid
  ch_name :: string
  ch_kind :: string
  ch_settings :: "(string, step_value) dict"
  ch_enabled :: bool
  ch_paired_user :: "string option"
  ch_pairing :: "pairing option"
  ch_muted :: "uuid list"
  ch_last_sent :: "moment option"
  ch_last_failure :: "channel_failure option"

record notification_row =
  nr_id :: uuid
  nr_instance :: uuid
  nr_key :: string
  nr_thread :: "uuid option"
  nr_header :: string
  nr_title :: string
  nr_text :: string
  nr_link :: "string option"
  nr_options :: "string list"
  nr_approval :: "waiting_approval option"
  nr_stop :: "run_stop_ref option"
  nr_raised :: moment

record delivery_row =
  dl_notification :: uuid
  dl_channel :: uuid
  dl_status :: delivery_status
  dl_attempts :: nat
  dl_next :: moment
  dl_sent_ref :: "string option"
  dl_last_error :: "string option"

record reply_row =
  rp_id :: uuid
  rp_notification :: uuid
  rp_channel :: "uuid option"
  rp_option :: "string option"
  rp_received :: moment
  rp_status :: reply_status
  rp_outcome :: "string option"
  rp_calling :: bool

record notice_db =
  channel_rows :: "channel_row list"
  mute_rows :: "(uuid \<times> uuid) list"
  notification_rows :: "notification_row list"
  delivery_rows :: "delivery_row list"
  reply_rows :: "reply_row list"

record pending_delivery =
  pe_notification :: channel_notification
  pe_channel :: uuid
  pe_raised :: moment
  pe_attempts :: nat
  pe_next :: moment

record received_reply =
  rv_id :: uuid
  rv_notification :: channel_notification
  rv_instance :: uuid
  rv_thread :: "uuid option"
  rv_option :: "string option"
  rv_received :: moment
  rv_channel :: "uuid option"
  rv_message :: "string option"
  rv_calling :: bool
  rv_approval :: "waiting_approval option"
  rv_stop :: "run_stop_ref option"

section \<open>Channels\<close>

definition channel_record_of :: "notice_db \<Rightarrow> channel_row \<Rightarrow> channel_record" where
  "channel_record_of db c = \<lparr>ch_id = cn_id c, ch_name = cn_name c, ch_kind = cn_kind c,
     ch_settings = cn_settings c, ch_enabled = cn_enabled c, ch_paired_user = cn_paired_user c,
     ch_pairing = cn_pairing c,
     ch_muted = map snd (filter (\<lambda>m. fst m = cn_id c) (mute_rows db)),
     ch_last_sent = cn_last_sent c, ch_last_failure = cn_last_failure c\<rparr>"

text \<open>Enabled, and not waiting for its pairing code.\<close>

definition sends :: "channel_record \<Rightarrow> bool" where
  "sends c \<longleftrightarrow> ch_enabled c \<and> ch_pairing c = None"

definition channels :: "notice_db \<Rightarrow> channel_record list" where
  "channels db = map (channel_record_of db) (channel_rows db)"

definition channel :: "notice_db \<Rightarrow> uuid \<Rightarrow> channel_record option" where
  "channel db i = find (\<lambda>c. ch_id c = i) (channels db)"

definition create_channel ::
  "notice_db \<Rightarrow> uuid \<Rightarrow> string \<Rightarrow> string \<Rightarrow> (string, step_value) dict \<Rightarrow> pairing option \<Rightarrow> hub_error + notice_db" where
  "create_channel db i name kind settings pair =
     (if i \<in> cn_id ` set (channel_rows db) then Inl Hub_Integrity_Error
      else Inr (db\<lparr>channel_rows := channel_rows db @
        [\<lparr>cn_id = i, cn_name = name, cn_kind = kind, cn_settings = settings, cn_enabled = True,
          cn_paired_user = None, cn_pairing = pair, cn_last_sent = None, cn_last_failure = None\<rparr>]\<rparr>))"

definition set_channel :: "uuid \<Rightarrow> (channel_row \<Rightarrow> channel_row) \<Rightarrow> notice_db \<Rightarrow> notice_db" where
  "set_channel i f db = db\<lparr>channel_rows := row_update (\<lambda>c. cn_id c = i) f (channel_rows db)\<rparr>"

definition update_channel ::
  "notice_db \<Rightarrow> uuid \<Rightarrow> string \<Rightarrow> bool \<Rightarrow> (string, step_value) dict \<Rightarrow> notice_db" where
  "update_channel db i name enabled settings =
     set_channel i (\<lambda>c. c\<lparr>cn_name := name, cn_enabled := enabled, cn_settings := settings\<rparr>) db"

text \<open>Its mutes and deliveries go with the channel, and its replies forget it.\<close>

definition delete_channel :: "notice_db \<Rightarrow> uuid \<Rightarrow> notice_db" where
  "delete_channel db i = db\<lparr>channel_rows := row_delete (\<lambda>c. cn_id c = i) (channel_rows db),
     mute_rows := row_delete (\<lambda>m. fst m = i) (mute_rows db),
     delivery_rows := row_delete (\<lambda>d. dl_channel d = i) (delivery_rows db),
     reply_rows := row_update (\<lambda>r. rp_channel r = Some i) (\<lambda>r. r\<lparr>rp_channel := None\<rparr>) (reply_rows db)\<rparr>"

definition pair_channel :: "notice_db \<Rightarrow> uuid \<Rightarrow> string \<Rightarrow> string \<Rightarrow> notice_db" where
  "pair_channel db i code user = db\<lparr>channel_rows :=
     row_update (\<lambda>c. cn_id c = i \<and> map_option pa_code (cn_pairing c) = Some code)
       (\<lambda>c. c\<lparr>cn_paired_user := Some user, cn_pairing := None\<rparr>) (channel_rows db)\<rparr>"

definition mute :: "notice_db \<Rightarrow> uuid \<Rightarrow> uuid \<Rightarrow> hub_error + notice_db" where
  "mute db i inst =
     (if i \<notin> cn_id ` set (channel_rows db) then Inl Hub_Integrity_Error
      else Inr (if (i, inst) \<in> set (mute_rows db) then db
                else db\<lparr>mute_rows := mute_rows db @ [(i, inst)]\<rparr>))"

definition unmute :: "notice_db \<Rightarrow> uuid \<Rightarrow> uuid \<Rightarrow> notice_db" where
  "unmute db i inst = db\<lparr>mute_rows := row_delete (\<lambda>m. m = (i, inst)) (mute_rows db)\<rparr>"

definition channel_sent :: "notice_db \<Rightarrow> uuid \<Rightarrow> moment \<Rightarrow> notice_db" where
  "channel_sent db i at = set_channel i (\<lambda>c. c\<lparr>cn_last_sent := Some at\<rparr>) db"

definition channel_failed :: "notice_db \<Rightarrow> uuid \<Rightarrow> string \<Rightarrow> moment \<Rightarrow> notice_db" where
  "channel_failed db i error at =
     set_channel i (\<lambda>c. c\<lparr>cn_last_failure := Some \<lparr>cf_at = at, cf_error = error\<rparr>\<rparr>) db"

section \<open>Notifications and deliveries\<close>

definition named :: "uuid \<Rightarrow> string \<Rightarrow> notification_row \<Rightarrow> bool" where
  "named inst key r \<longleftrightarrow> nr_instance r = inst \<and> nr_key r = key"

definition notification_id :: "notice_db \<Rightarrow> uuid \<Rightarrow> string \<Rightarrow> uuid option" where
  "notification_id db inst key = map_option nr_id (find (named inst key) (notification_rows db))"

definition notifications_raised :: "notice_db \<Rightarrow> uuid \<Rightarrow> moment \<Rightarrow> nat" where
  "notifications_raised db inst since =
     length (filter (\<lambda>r. nr_instance r = inst \<and> since \<le> nr_raised r \<and> nr_approval r = None)
       (notification_rows db))"

definition notification_row_of ::
  "uuid \<Rightarrow> string \<Rightarrow> uuid option \<Rightarrow> channel_notification \<Rightarrow> waiting_approval option \<Rightarrow>
   run_stop_ref option \<Rightarrow> moment \<Rightarrow> notification_row" where
  "notification_row_of inst key thread n approval stop raised_at =
     \<lparr>nr_id = cm_id n, nr_instance = inst, nr_key = key, nr_thread = thread, nr_header = cm_header n,
      nr_title = cm_title n, nr_text = cm_text n, nr_link = cm_link n, nr_options = cm_options n,
      nr_approval = approval, nr_stop = stop, nr_raised = raised_at\<rparr>"

definition new_delivery :: "uuid \<Rightarrow> moment \<Rightarrow> uuid \<times> delivery_status \<Rightarrow> delivery_row" where
  "new_delivery i raised_at d = \<lparr>dl_notification = i, dl_channel = fst d, dl_status = snd d,
     dl_attempts = 0, dl_next = raised_at, dl_sent_ref = None, dl_last_error = None\<rparr>"

definition raise_notification ::
  "notice_db \<Rightarrow> uuid \<Rightarrow> string \<Rightarrow> uuid option \<Rightarrow> channel_notification \<Rightarrow> waiting_approval option \<Rightarrow>
   run_stop_ref option \<Rightarrow> moment \<Rightarrow> (uuid, delivery_status) dict \<Rightarrow> hub_error + notice_db \<times> uuid" where
  "raise_notification db inst key thread n approval stop raised_at deliveries =
     (if cm_id n \<in> nr_id ` set (notification_rows db) then Inl Hub_Integrity_Error
      else case notification_id db inst key of
        Some i \<Rightarrow> Inr (db, i)
      | None \<Rightarrow>
          if \<not> fst ` set deliveries \<subseteq> cn_id ` set (channel_rows db) then Inl Hub_Integrity_Error
          else Inr (db\<lparr>
            notification_rows := notification_rows db @
              [notification_row_of inst key thread n approval stop raised_at],
            delivery_rows := delivery_rows db @ map (new_delivery (cm_id n) raised_at) deliveries\<rparr>, cm_id n))"

definition message_of :: "notification_row \<Rightarrow> channel_notification" where
  "message_of r = \<lparr>cm_id = nr_id r, cm_header = nr_header r, cm_title = nr_title r,
     cm_text = nr_text r, cm_link = nr_link r, cm_options = nr_options r\<rparr>"

text \<open>A join: what each row gives with the notification it names, for the rows that have one.\<close>

definition notification_by_id :: "notice_db \<Rightarrow> uuid \<Rightarrow> notification_row option" where
  "notification_by_id db i = find (\<lambda>r. nr_id r = i) (notification_rows db)"

definition pending_deliveries :: "notice_db \<Rightarrow> uuid option \<Rightarrow> pending_delivery list" where
  "pending_deliveries db only =
     concat (map (\<lambda>d. case notification_by_id db (dl_notification d) of
         None \<Rightarrow> []
       | Some r \<Rightarrow> [\<lparr>pe_notification = message_of r, pe_channel = dl_channel d, pe_raised = nr_raised r,
                     pe_attempts = dl_attempts d, pe_next = dl_next d\<rparr>])
       (filter (\<lambda>d. dl_status d = Delivery_Pending \<and> (only = None \<or> only = Some (dl_notification d)))
         (delivery_rows db)))"

definition set_delivery :: "uuid \<Rightarrow> uuid \<Rightarrow> (delivery_row \<Rightarrow> delivery_row) \<Rightarrow> notice_db \<Rightarrow> notice_db" where
  "set_delivery n c f db = db\<lparr>delivery_rows :=
     row_update (\<lambda>d. dl_notification d = n \<and> dl_channel d = c) f (delivery_rows db)\<rparr>"

definition end_delivery ::
  "notice_db \<Rightarrow> uuid \<Rightarrow> uuid \<Rightarrow> delivery_status \<Rightarrow> string option \<Rightarrow> string option \<Rightarrow> notice_db" where
  "end_delivery db n c status sent_ref error =
     set_delivery n c (\<lambda>d. d\<lparr>dl_status := status, dl_sent_ref := sent_ref,
       dl_last_error := (case error of None \<Rightarrow> dl_last_error d | Some e \<Rightarrow> Some e)\<rparr>) db"

definition delivery_sent :: "notice_db \<Rightarrow> uuid \<Rightarrow> uuid \<Rightarrow> string \<Rightarrow> notice_db" where
  "delivery_sent db n c sent_ref = end_delivery db n c Delivery_Sent (Some sent_ref) None"

definition delivery_failed :: "notice_db \<Rightarrow> uuid \<Rightarrow> uuid \<Rightarrow> string \<Rightarrow> notice_db" where
  "delivery_failed db n c error = end_delivery db n c Delivery_Failed None (Some error)"

definition delivery_retried :: "notice_db \<Rightarrow> uuid \<Rightarrow> uuid \<Rightarrow> string \<Rightarrow> moment \<Rightarrow> notice_db" where
  "delivery_retried db n c error next_attempt =
     set_delivery n c (\<lambda>d. d\<lparr>dl_attempts := Suc (dl_attempts d), dl_last_error := Some error,
       dl_next := next_attempt\<rparr>) db"

section \<open>Reading notifications\<close>

text \<open>The rows inserted before the one with the id, or none when no row has it.\<close>

definition rows_before :: "uuid \<Rightarrow> notification_row list \<Rightarrow> notification_row list" where
  "rows_before i rows = (if i \<in> nr_id ` set rows then takeWhile (\<lambda>r. nr_id r \<noteq> i) rows else [])"

definition newest :: "nat option \<Rightarrow> 'a list \<Rightarrow> 'a list" where
  "newest limit xs = (case limit of None \<Rightarrow> xs | Some n \<Rightarrow> drop (length xs - n) xs)"

definition reply_of :: "reply_row \<Rightarrow> notification_reply" where
  "reply_of r = \<lparr>nl_option = rp_option r, nl_channel = rp_channel r, nl_received = rp_received r,
     nl_status = rp_status r, nl_outcome = rp_outcome r\<rparr>"

definition notification_of :: "notice_db \<Rightarrow> notification_row \<Rightarrow> notification" where
  "notification_of db r = \<lparr>no_id = nr_id r, no_instance = nr_instance r, no_thread = nr_thread r,
     no_header = nr_header r, no_title = nr_title r, no_text = nr_text r, no_link = nr_link r,
     no_options = nr_options r, no_raised = nr_raised r,
     no_deliveries = map (\<lambda>d. \<lparr>nd_channel = dl_channel d, nd_status = dl_status d\<rparr>)
       (filter (\<lambda>d. dl_notification d = nr_id r) (delivery_rows db)),
     no_replies = map reply_of (filter (\<lambda>p. rp_notification p = nr_id r) (reply_rows db))\<rparr>"

definition notifications ::
  "notice_db \<Rightarrow> uuid option \<Rightarrow> uuid option \<Rightarrow> uuid option \<Rightarrow> uuid option \<Rightarrow> nat option \<Rightarrow> notification list" where
  "notifications db inst thread i before_id limit =
     map (notification_of db) (newest limit (filter (\<lambda>r.
         (inst = None \<or> inst = Some (nr_instance r)) \<and>
         (thread = None \<or> thread = nr_thread r) \<and> (i = None \<or> i = Some (nr_id r)))
       (case before_id of None \<Rightarrow> notification_rows db | Some b \<Rightarrow> rows_before b (notification_rows db))))"

definition sent_notification :: "notice_db \<Rightarrow> uuid \<Rightarrow> string \<Rightarrow> notification option" where
  "sent_notification db c message =
     (case find (\<lambda>d. dl_channel d = c \<and> dl_sent_ref d = Some message) (delivery_rows db) of
        None \<Rightarrow> None
      | Some d \<Rightarrow> (case notifications db None None (Some (dl_notification d)) None None of
                     [] \<Rightarrow> None | n # _ \<Rightarrow> Some n))"

section \<open>Replies\<close>

definition record_reply ::
  "notice_db \<Rightarrow> uuid \<Rightarrow> uuid \<Rightarrow> uuid option \<Rightarrow> string option \<Rightarrow> moment \<Rightarrow> hub_error + notice_db" where
  "record_reply db i n c option_text received_at =
     (if i \<in> rp_id ` set (reply_rows db) \<or> n \<notin> nr_id ` set (notification_rows db) \<or>
         (case c of None \<Rightarrow> False | Some k \<Rightarrow> k \<notin> cn_id ` set (channel_rows db))
      then Inl Hub_Integrity_Error
      else Inr (db\<lparr>reply_rows := reply_rows db @
        [\<lparr>rp_id = i, rp_notification = n, rp_channel = c, rp_option = option_text,
          rp_received = received_at, rp_status = Reply_Received, rp_outcome = None, rp_calling = False\<rparr>]\<rparr>))"

text \<open>The message a reply answered: what its channel sent the notification as.\<close>

definition answered_message :: "notice_db \<Rightarrow> reply_row \<Rightarrow> string option" where
  "answered_message db p =
     Option.bind (rp_channel p) (\<lambda>c. Option.bind
       (find (\<lambda>d. dl_notification d = rp_notification p \<and> dl_channel d = c) (delivery_rows db)) dl_sent_ref)"

definition received_replies :: "notice_db \<Rightarrow> uuid option \<Rightarrow> received_reply list" where
  "received_replies db only =
     concat (map (\<lambda>p. case notification_by_id db (rp_notification p) of
         None \<Rightarrow> []
       | Some r \<Rightarrow> [\<lparr>rv_id = rp_id p, rv_notification = message_of r, rv_instance = nr_instance r,
           rv_thread = nr_thread r, rv_option = rp_option p, rv_received = rp_received p,
           rv_channel = rp_channel p, rv_message = answered_message db p, rv_calling = rp_calling p,
           rv_approval = nr_approval r, rv_stop = nr_stop r\<rparr>])
       (filter (\<lambda>p. rp_status p = Reply_Received \<and> (only = None \<or> only = Some (rp_id p))) (reply_rows db)))"

definition answered_by_option :: "notice_db \<Rightarrow> uuid \<Rightarrow> bool" where
  "answered_by_option db n \<longleftrightarrow>
     list_ex (\<lambda>p. rp_notification p = n \<and> rp_status p = Reply_Applied \<and> rp_option p \<noteq> None) (reply_rows db)"

definition set_reply :: "uuid \<Rightarrow> (reply_row \<Rightarrow> reply_row) \<Rightarrow> notice_db \<Rightarrow> notice_db" where
  "set_reply i f db = db\<lparr>reply_rows := row_update (\<lambda>p. rp_id p = i) f (reply_rows db)\<rparr>"

definition reply_calling :: "notice_db \<Rightarrow> uuid \<Rightarrow> bool \<Rightarrow> notice_db" where
  "reply_calling db i calling = set_reply i (\<lambda>p. p\<lparr>rp_calling := calling\<rparr>) db"

definition settle_reply :: "notice_db \<Rightarrow> uuid \<Rightarrow> reply_status \<Rightarrow> string \<Rightarrow> notice_db" where
  "settle_reply db i status outcome =
     set_reply i (\<lambda>p. p\<lparr>rp_status := status, rp_outcome := Some outcome\<rparr>) db"

end
