(* ===== verification/Outbox.thy ===== *)
theory Outbox
  imports Notice_Tables Instances
begin

text \<open>
  The hub's outbox (\<open>Outbox\<close> in src/src/kinby/hub/outbox.py): it records the notifications instances
  raise, once per key and under a daily cap, and delivers each to every channel that sends, trying
  again for a day. Each delivery has a task of its own, which sleeps until its next try is due and
  then sends. The task is split where it waits: it sleeps, or a send of it is under way.

  A moment counts microseconds of UTC since 1970. A character outside the model's is written as its
  code in Windows-1252: the ellipsis is 0x85.
\<close>

section \<open>State\<close>

datatype delivery_task =
    Sleeping pending_delivery nat moment
  | Sending_On pending_delivery nat channel_notification

record post =
  po_db :: notice_db
  po_hub :: hub_db
  po_tasks :: "delivery_task list"

text \<open>
  What the outbox reads outside the registry: the hub's public address, and the message limit of
  each channel kind that is installed.
\<close>

record post_env =
  pv_public_url :: "string option"
  pv_limit :: "string \<Rightarrow> nat option"

datatype post_error =
    Instance_Not_Found uuid
  | Cap_Reached string
  | Post_Registry_Error hub_error

definition MUTE_OPTION :: string where "MUTE_OPTION = ''Mute this instance''"
definition DAILY_CAP :: nat where "DAILY_CAP = 20"
definition GIVE_UP_AFTER :: int where "GIVE_UP_AFTER = DAY"
definition ELLIPSIS :: char where "ELLIPSIS = CHR 0x85"
definition MIDDLE_DOT :: char where "MIDDLE_DOT = CHR 0xB7"

text \<open>The wait after a number of failed sends, in seconds.\<close>

definition send_backoff :: "nat \<Rightarrow> nat" where
  "send_backoff attempts = min (5 * 2 ^ (attempts - 1)) 300"

text \<open>\<open>text[: limit - 1]\<close> drops the last character when the limit is none.\<close>

definition cut :: "string \<Rightarrow> nat \<Rightarrow> string" where
  "cut s limit =
     (if length s \<le> limit then s
      else (if limit = 0 then butlast s else take (limit - 1) s) @ [ELLIPSIS])"

definition name_of_instance :: "managed_instance \<Rightarrow> string" where
  "name_of_instance m =
     (case mi_persona m of Some p \<Rightarrow> if p \<noteq> [] then p else mi_manifest_id m | None \<Rightarrow> mi_manifest_id m)"

text \<open>The day a moment falls on, and how \<open>date.isoformat\<close> writes it.\<close>

definition day_of :: "moment \<Rightarrow> int" where
  "day_of t = t div DAY"

definition padded :: "nat \<Rightarrow> nat \<Rightarrow> string" where
  "padded width n = (let s = str_nat n in replicate (width - length s) CHR ''0'' @ s)"

definition date_text :: "int \<Rightarrow> string" where
  "date_text d =
     (let z = d + 719468; era = z div 146097; doe = z mod 146097;
          yoe = (doe - doe div 1460 + doe div 36524 - doe div 146096) div 365;
          doy = doe - (365 * yoe + yoe div 4 - yoe div 100);
          mp = (5 * doy + 2) div 153;
          day = doy - (153 * mp + 2) div 5 + 1;
          month = (if mp < 10 then mp + 3 else mp - 9);
          year = yoe + era * 400 + (if month \<le> 2 then 1 else 0)
      in padded 4 (nat year) @ ''-'' @ padded 2 (nat month) @ ''-'' @ padded 2 (nat day))"

section \<open>Raising\<close>

definition start_deliveries :: "pending_delivery list \<Rightarrow> post \<Rightarrow> post" where
  "start_deliveries ds p = p\<lparr>po_tasks := po_tasks p @ map (\<lambda>d. Sleeping d (pe_attempts d) (pe_next d)) ds\<rparr>"

text \<open>
  Record a notification once per key, and deliver it on every channel that sends. The id is the one
  the code draws for it; the answer is the id of the notification the key names.
\<close>

record notice_content =
  ct_source :: string
  ct_title :: string
  ct_text :: string
  ct_page :: string
  ct_options :: "string list"
  ct_thread :: "uuid option"
  ct_approval :: "waiting_approval option"
  ct_stop :: "run_stop_ref option"

definition delivery_statuses :: "notice_db \<Rightarrow> uuid \<Rightarrow> (uuid, delivery_status) dict" where
  "delivery_statuses db inst =
     map (\<lambda>c. (ch_id c, if inst \<in> set (ch_muted c) then Delivery_Muted else Delivery_Pending))
       (filter sends (channels db))"

definition notify ::
  "post_env \<Rightarrow> moment \<Rightarrow> uuid \<Rightarrow> uuid \<Rightarrow> string \<Rightarrow> notice_content \<Rightarrow> post \<Rightarrow> (post_error + uuid) \<times> post" where
  "notify pv now new_id inst key content p =
     (case instance_record (po_hub p) inst of
        None \<Rightarrow> (Inl (Instance_Not_Found inst), p)
      | Some rec \<Rightarrow>
        (let n = \<lparr>cm_id = new_id,
                  cm_header = name_of_instance rec @ '' '' @ [MIDDLE_DOT] @ '' '' @ ct_source content,
                  cm_title = ct_title content, cm_text = ct_text content,
                  cm_link = map_option (\<lambda>url. url @ ct_page content) (pv_public_url pv),
                  cm_options = ct_options content\<rparr>
         in case raise_notification (po_db p) inst key (ct_thread content) n (ct_approval content)
                (ct_stop content) now (delivery_statuses (po_db p) inst) of
              Inl err \<Rightarrow> (Inl (Post_Registry_Error err), p)
            | Inr (db, raised) \<Rightarrow>
                (Inr raised,
                 if raised = new_id
                 then start_deliveries (pending_deliveries db (Some raised)) (p\<lparr>po_db := db\<rparr>)
                 else p\<lparr>po_db := db\<rparr>)))"

text \<open>What an instance sends to raise a notification.\<close>

record raise_command =
  rc_key :: string
  rc_thread :: uuid
  rc_source :: string
  rc_title :: string
  rc_text :: string
  rc_options :: "string list"
  rc_approval :: "waiting_approval option"

definition thread_page :: "uuid \<Rightarrow> uuid \<Rightarrow> string" where
  "thread_page inst thread = ''/instances/'' @ str_nat inst @ ''/threads/'' @ str_nat thread"

definition cap_key :: "moment \<Rightarrow> string" where
  "cap_key now = ''cap:'' @ date_text (day_of now)"

definition cap_content :: "string \<Rightarrow> uuid \<Rightarrow> raise_command \<Rightarrow> notice_content" where
  "cap_content name inst c = \<lparr>ct_source = rc_source c, ct_title = ''Daily notification cap reached'',
     ct_text = name @ '' raised '' @ str_nat DAILY_CAP @
       '' notifications today. kinby sends no more of them until tomorrow, but approvals still reach you.'',
     ct_page = thread_page inst (rc_thread c), ct_options = [], ct_thread = Some (rc_thread c),
     ct_approval = None, ct_stop = None\<rparr>"

definition raised_content :: "uuid \<Rightarrow> raise_command \<Rightarrow> notice_content" where
  "raised_content inst c = \<lparr>ct_source = rc_source c, ct_title = rc_title c, ct_text = rc_text c,
     ct_page = thread_page inst (rc_thread c), ct_options = rc_options c, ct_thread = Some (rc_thread c),
     ct_approval = rc_approval c, ct_stop = None\<rparr>"

definition over_cap :: "notice_db \<Rightarrow> moment \<Rightarrow> uuid \<Rightarrow> raise_command \<Rightarrow> bool" where
  "over_cap db now inst c \<longleftrightarrow>
     rc_approval c = None \<and> DAILY_CAP \<le> notifications_raised db inst (day_of now * DAY)"

definition raise_for ::
  "post_env \<Rightarrow> moment \<Rightarrow> uuid \<Rightarrow> uuid \<Rightarrow> raise_command \<Rightarrow> post \<Rightarrow> (post_error + uuid) \<times> post" where
  "raise_for pv now new_id inst c p =
     (case instance_record (po_hub p) inst of
        None \<Rightarrow> (Inl (Instance_Not_Found inst), p)
      | Some rec \<Rightarrow>
        (case notification_id (po_db p) inst (rc_key c) of
           Some known \<Rightarrow> (Inr known, p)
         | None \<Rightarrow>
           if over_cap (po_db p) now inst c
           then (case notify pv now new_id inst (cap_key now) (cap_content (name_of_instance rec) inst c) p of
                   (Inl err, p') \<Rightarrow> (Inl err, p')
                 | (Inr _, p') \<Rightarrow>
                     (Inl (Cap_Reached (name_of_instance rec @ '' raised '' @ str_nat DAILY_CAP @
                        '' notifications today, its daily cap. Raise no more until tomorrow.'')), p'))
           else notify pv now new_id inst (rc_key c) (raised_content inst c) p))"

text \<open>A page of the newest notifications before the cursor, and the cursor of the older ones.\<close>

definition list_notifications ::
  "notice_db \<Rightarrow> uuid option \<Rightarrow> uuid option \<Rightarrow> uuid option \<Rightarrow> nat option \<Rightarrow> notification list \<times> uuid option" where
  "list_notifications db inst thread cursor limit =
     (let found = notifications db inst thread None cursor (map_option Suc limit);
          older = (case limit of None \<Rightarrow> False | Some n \<Rightarrow> n < length found);
          page = (if older then tl found else found)
      in (page, if older then (case page of [] \<Rightarrow> None | n # _ \<Rightarrow> Some (no_id n)) else None))"

section \<open>Delivering\<close>

text \<open>Deliver what the previous process left pending.\<close>

definition resume_outbox :: "post \<Rightarrow> post" where
  "resume_outbox p = start_deliveries (pending_deliveries (po_db p) None) p"

definition drop_task :: "nat \<Rightarrow> post \<Rightarrow> post" where
  "drop_task k p = p\<lparr>po_tasks := take k (po_tasks p) @ drop (Suc k) (po_tasks p)\<rparr>"

definition set_task :: "nat \<Rightarrow> delivery_task \<Rightarrow> post \<Rightarrow> post" where
  "set_task k t p = p\<lparr>po_tasks := (po_tasks p)[k := t]\<rparr>"

text \<open>A send failed: the delivery fails for good a day after it was raised, or is tried again.\<close>

definition send_failed :: "moment \<Rightarrow> nat \<Rightarrow> pending_delivery \<Rightarrow> nat \<Rightarrow> string \<Rightarrow> post \<Rightarrow> post" where
  "send_failed now k d attempts error p =
     (let n = cm_id (pe_notification d); c = pe_channel d;
          db = channel_failed (po_db p) c error now;
          due = now + int (send_backoff (Suc attempts)) * SECOND
      in if GIVE_UP_AFTER \<le> now - pe_raised d
         then drop_task k (p\<lparr>po_db := delivery_failed db n c error\<rparr>)
         else set_task k (Sleeping d (Suc attempts) due) (p\<lparr>po_db := delivery_retried db n c error due\<rparr>))"

text \<open>
  A task's sleep ends. The channel may be gone or disabled by then; a channel whose kind is no
  longer installed fails the send.
\<close>

definition task_wakes :: "post_env \<Rightarrow> moment \<Rightarrow> nat \<Rightarrow> post \<Rightarrow> post" where
  "task_wakes pv now k p =
     (if length (po_tasks p) \<le> k then p
      else case po_tasks p ! k of
        Sending_On d attempts m \<Rightarrow> p
      | Sleeping d attempts due \<Rightarrow>
          if now < due then p
          else case channel (po_db p) (pe_channel d) of
            None \<Rightarrow> drop_task k p
          | Some c \<Rightarrow>
              if \<not> sends c
              then drop_task k (p\<lparr>po_db := delivery_failed (po_db p) (cm_id (pe_notification d)) (ch_id c)
                     ''The channel was disabled.''\<rparr>)
              else case pv_limit pv (ch_kind c) of
                None \<Rightarrow> send_failed now k d attempts
                  (''The hub has no channel kind \"'' @ ch_kind c @ ''\" any more.'') p
              | Some limit \<Rightarrow>
                  set_task k (Sending_On d attempts ((pe_notification d)\<lparr>
                    cm_text := cut (cm_text (pe_notification d)) limit,
                    cm_options := cm_options (pe_notification d) @ [MUTE_OPTION]\<rparr>)) p)"

text \<open>A send ends: with the reference its channel sent it under, or with the text of its error.\<close>

definition send_ends :: "moment \<Rightarrow> nat \<Rightarrow> string + string \<Rightarrow> post \<Rightarrow> post" where
  "send_ends now k sent p =
     (if length (po_tasks p) \<le> k then p
      else case po_tasks p ! k of
        Sleeping d attempts due \<Rightarrow> p
      | Sending_On d attempts m \<Rightarrow>
          (case sent of
             Inl error \<Rightarrow> send_failed now k d attempts error p
           | Inr ref \<Rightarrow>
               drop_task k (p\<lparr>po_db := channel_sent
                 (delivery_sent (po_db p) (cm_id (pe_notification d)) (pe_channel d) ref)
                 (pe_channel d) now\<rparr>)))"

end
