(* ===== verification/Replies.thy ===== *)
theory Replies
  imports Outbox
begin

text \<open>
  The user's replies to notifications (\<open>Replies\<close> in src/src/kinby/hub/replies.py): each is recorded at
  once and then applied, one at a time, to what holds by then. The task that applies a reply is
  split where it waits: it sleeps out a backoff, waits its turn of the lock, or has asked an
  instance or the runs engine and awaits what came of it, with the lock held. What is asked outside
  is an \<open>ask\<close>, and what comes of it an \<open>ask_end\<close>.
\<close>

section \<open>State\<close>

datatype approval_decision = Approve_It | Deny_It | Allow_In_Routine | Mark_Read_Only

datatype ask =
    Ask_Turn uuid uuid string
  | Ask_Approval uuid uuid waiting_approval approval_decision
  | Ask_Stop run_stop_ref string

text \<open>
  What came of an ask: it was done, or what it was about no longer waits; its answer was lost; or it
  raised another error, which tells whether it may be tried again.
\<close>

datatype ask_end = Ask_Done string | Ask_Late | Ask_Lost | Ask_Raised bool string

text \<open>The task of a reply: it waits to be applied from a moment on, or what it asked is under way.\<close>

datatype reply_task = Applying received_reply nat moment | Asking received_reply nat ask

record desk =
  dk_db :: notice_db
  dk_tasks :: "reply_task list"

datatype reply_error = Notification_Not_Found uuid | Option_Not_Offered string | Reply_Registry_Error hub_error

definition UNKNOWN :: string where
  "UNKNOWN = ''Not known whether the instance got this answer. Answer again from the web app.''"

text \<open>The options of a notification that asks for an approval, and the decision each one gives.\<close>

definition APPROVAL_OPTIONS :: "(string, approval_decision) dict" where
  "APPROVAL_OPTIONS = [(''Approve'', Approve_It), (''Always allow in this routine'', Allow_In_Routine),
     (''Deny'', Deny_It)]"

definition DECIDED :: "(approval_decision, string) dict" where
  "DECIDED = [(Approve_It, ''Approved.''), (Allow_In_Routine, ''Always allowed in this routine.''),
     (Deny_It, ''Denied.'')]"

section \<open>Recording\<close>

definition start_replies :: "received_reply list \<Rightarrow> moment \<Rightarrow> desk \<Rightarrow> desk" where
  "start_replies rs now d = d\<lparr>dk_tasks := dk_tasks d @ map (\<lambda>r. Applying r 0 now) rs\<rparr>"

definition record_answer ::
  "moment \<Rightarrow> uuid \<Rightarrow> uuid \<Rightarrow> uuid option \<Rightarrow> string option \<Rightarrow> desk \<Rightarrow> (reply_error + notification_reply) \<times> desk" where
  "record_answer now reply_id n c option_text d =
     (case record_reply (dk_db d) reply_id n c option_text now of
        Inl err \<Rightarrow> (Inl (Reply_Registry_Error err), d)
      | Inr db \<Rightarrow>
          (Inr \<lparr>nl_option = option_text, nl_channel = c, nl_received = now, nl_status = Reply_Received,
                nl_outcome = None\<rparr>,
           start_replies (received_replies db (Some reply_id)) now (d\<lparr>dk_db := db\<rparr>)))"

text \<open>Answer a notification from the web app.\<close>

definition reply_from_web ::
  "moment \<Rightarrow> uuid \<Rightarrow> uuid \<Rightarrow> string \<Rightarrow> desk \<Rightarrow> (reply_error + notification_reply) \<times> desk" where
  "reply_from_web now reply_id n option_text d =
     (case notifications (dk_db d) None None (Some n) None None of
        [] \<Rightarrow> (Inl (Notification_Not_Found n), d)
      | found # _ \<Rightarrow>
          if option_text \<notin> set (no_options found) then (Inl (Option_Not_Offered option_text), d)
          else record_answer now reply_id (no_id found) None (Some option_text) d)"

text \<open>
  Take the reply to a message of a channel: the place of one of the options it was sent with, with
  "Mute this instance" after the notification's own.
\<close>

definition take_reply :: "moment \<Rightarrow> uuid \<Rightarrow> uuid \<Rightarrow> string \<Rightarrow> int \<Rightarrow> desk \<Rightarrow> (reply_error + unit) \<times> desk" where
  "take_reply now reply_id c message place d =
     (case sent_notification (dk_db d) c message of
        None \<Rightarrow> (Inr (), d)
      | Some n \<Rightarrow>
         (let options = map Some (no_options n) @ [None]
          in if 0 \<le> place \<and> place < int (length options)
             then (case record_answer now reply_id (no_id n) (Some c) (options ! nat place) d of
                     (Inl err, d') \<Rightarrow> (Inl err, d') | (Inr _, d') \<Rightarrow> (Inr (), d'))
             else (Inr (), d)))"

definition resume_replies :: "moment \<Rightarrow> desk \<Rightarrow> desk" where
  "resume_replies now d = start_replies (received_replies (dk_db d) None) now d"

section \<open>Applying\<close>

text \<open>How Python writes a text with no quote, backslash or control character in it (\<open>repr\<close>).\<close>

definition quoted :: "string \<Rightarrow> string" where
  "quoted s = CHR 0x27 # s @ [CHR 0x27]"

text \<open>What applying a reply comes to before it waits: an outcome, or something to ask.\<close>

datatype applied = Settled reply_status string | To_Ask ask

text \<open>
  An answer to an instance is asked for at most once: the row says that it is being asked before it
  is, and an ask that may have landed is never repeated. An option of an approval that no decision
  belongs to raises a \<open>KeyError\<close>, which clears the mark again.
\<close>

definition apply_reply :: "received_reply \<Rightarrow> notice_db \<Rightarrow> applied \<times> notice_db" where
  "apply_reply r db =
     (case rv_option r of
        None \<Rightarrow>
          (case Option.bind (rv_channel r) (channel db) of
             None \<Rightarrow> (Settled Reply_Stale ''The channel was deleted.'', db)
           | Some c \<Rightarrow>
               if rv_instance r \<in> set (ch_muted c)
               then (Settled Reply_Stale ''This instance was already muted on this channel.'', db)
               else (case mute db (ch_id c) (rv_instance r) of
                       Inl err \<Rightarrow> (Settled Reply_Failed ''Not answered: FOREIGN KEY constraint failed'', db)
                     | Inr db' \<Rightarrow> (Settled Reply_Applied ''Muted this instance on this channel.'', db')))
      | Some option_text \<Rightarrow>
        (case rv_stop r of
           Some stop \<Rightarrow> (To_Ask (Ask_Stop stop option_text), db)
         | None \<Rightarrow>
          (case rv_thread r of
             None \<Rightarrow> (Settled Reply_Stale ''No thread takes this answer.'', db)
           | Some thread \<Rightarrow>
               if answered_by_option db (cm_id (rv_notification r))
               then (Settled Reply_Stale ''Already answered.'', db)
               else if rv_calling r then (Settled Reply_Failed UNKNOWN, db)
               else
                 (let called = reply_calling db (rv_id r) True
                  in case rv_approval r of
                       None \<Rightarrow> (To_Ask (Ask_Turn (rv_instance r) thread option_text), called)
                     | Some approval \<Rightarrow>
                        (case map_of APPROVAL_OPTIONS option_text of
                           None \<Rightarrow> (Settled Reply_Failed (''Not answered: '' @ quoted option_text),
                                    reply_calling called (rv_id r) False)
                         | Some decision \<Rightarrow>
                             (To_Ask (Ask_Approval (rv_instance r) thread approval decision), called))))))"

text \<open>What a reply comes to once its ask ended: an outcome, or another try for the error it raised.\<close>

datatype concluded = Concluded reply_status string | Raised bool string

definition ask_ends :: "ask \<Rightarrow> ask_end \<Rightarrow> received_reply \<Rightarrow> notice_db \<Rightarrow> concluded \<times> notice_db" where
  "ask_ends a result r db =
     (case a of
        Ask_Stop stop option_text \<Rightarrow>
          (case result of
             Ask_Done outcome \<Rightarrow> (Concluded Reply_Applied outcome, db)
           | Ask_Late \<Rightarrow> (Concluded Reply_Stale ''The run already moved.'', db)
           | Ask_Lost \<Rightarrow> (Raised True [], db)
           | Ask_Raised retryable error \<Rightarrow> (Raised retryable error, db))
      | _ \<Rightarrow>
          (case result of
             Ask_Done _ \<Rightarrow>
               (Concluded Reply_Applied
                 (case a of
                    Ask_Approval _ _ _ decision \<Rightarrow> dict_get DECIDED decision []
                  | _ \<Rightarrow> ''Answered \"'' @ (case rv_option r of None \<Rightarrow> [] | Some t \<Rightarrow> t) @ ''\".''), db)
           | Ask_Late \<Rightarrow> (Concluded Reply_Stale ''No longer waiting.'', db)
           | Ask_Lost \<Rightarrow> (Concluded Reply_Failed UNKNOWN, db)
           | Ask_Raised retryable error \<Rightarrow> (Raised retryable error, reply_calling db (rv_id r) False)))"

text \<open>The wait before another try, in seconds, as the outbox waits.\<close>

definition drop_reply :: "nat \<Rightarrow> desk \<Rightarrow> desk" where
  "drop_reply k d = d\<lparr>dk_tasks := take k (dk_tasks d) @ drop (Suc k) (dk_tasks d)\<rparr>"

definition settle_task :: "nat \<Rightarrow> received_reply \<Rightarrow> reply_status \<Rightarrow> string \<Rightarrow> desk \<Rightarrow> desk" where
  "settle_task k r status outcome d =
     drop_reply k (d\<lparr>dk_db := settle_reply (dk_db d) (rv_id r) status outcome\<rparr>)"

text \<open>A task's turn of the lock comes. The lock is free when no task is asking.\<close>

definition lock_free :: "desk \<Rightarrow> bool" where
  "lock_free d \<longleftrightarrow> list_all (\<lambda>t. case t of Applying _ _ _ \<Rightarrow> True | Asking _ _ _ \<Rightarrow> False) (dk_tasks d)"

definition reply_turn :: "moment \<Rightarrow> nat \<Rightarrow> desk \<Rightarrow> desk" where
  "reply_turn now k d =
     (if length (dk_tasks d) \<le> k \<or> \<not> lock_free d then d
      else case dk_tasks d ! k of
        Asking r attempts a \<Rightarrow> d
      | Applying r attempts due \<Rightarrow>
          if now < due then d
          else case apply_reply r (dk_db d) of
            (Settled status outcome, db) \<Rightarrow> settle_task k r status outcome (d\<lparr>dk_db := db\<rparr>)
          | (To_Ask a, db) \<Rightarrow> d\<lparr>dk_db := db, dk_tasks := (dk_tasks d)[k := Asking r attempts a]\<rparr>)"

text \<open>
  What a task asked ends. An error that may be tried again, within a day of the reply, leaves the
  reply to another try after a backoff; any other ends it.
\<close>

definition ask_answered :: "moment \<Rightarrow> nat \<Rightarrow> ask_end \<Rightarrow> desk \<Rightarrow> desk" where
  "ask_answered now k result d =
     (if length (dk_tasks d) \<le> k then d
      else case dk_tasks d ! k of
        Applying r attempts due \<Rightarrow> d
      | Asking r attempts a \<Rightarrow>
          (case ask_ends a result r (dk_db d) of
             (Concluded status outcome, db) \<Rightarrow> settle_task k r status outcome (d\<lparr>dk_db := db\<rparr>)
           | (Raised retryable error, db) \<Rightarrow>
               if retryable \<and> now - rv_received r < GIVE_UP_AFTER
               then d\<lparr>dk_db := db, dk_tasks := (dk_tasks d)[k :=
                 Applying r (Suc attempts) (now + int (send_backoff (Suc attempts)) * SECOND)]\<rparr>
               else settle_task k r Reply_Failed (''Not answered: '' @ error) (d\<lparr>dk_db := db\<rparr>)))"

text \<open>The message a settled reply's outcome is shown on, if its channel is there.\<close>

definition edited_message :: "notice_db \<Rightarrow> received_reply \<Rightarrow> (uuid \<times> string) option" where
  "edited_message db r =
     (case (Option.bind (rv_channel r) (channel db), rv_message r) of
        (Some c, Some message) \<Rightarrow> Some (ch_id c, message) | _ \<Rightarrow> None)"

end
