(* ===== verification/Setup_Values.thy ===== *)
theory Setup_Values
  imports Hub_Tables
begin

text \<open>
  Setup fields and the values that fill them (src/src/kinby/setup/__init__.py): the fields every
  instance asks for, with the defaults its template gives them, and whether a value fits a field's
  type. \<open>urlsplit\<close> is Python's own: the scheme and the host it finds, or \<open>None\<close> where it raises.
\<close>

section \<open>Text\<close>

text \<open>What \<open>str.strip\<close> strips and \<open>\s\<close> matches, among the model's characters.\<close>

definition py_space :: "char \<Rightarrow> bool" where
  "py_space c \<longleftrightarrow> (let n = of_char c :: nat in 9 \<le> n \<and> n \<le> 13 \<or> 28 \<le> n \<and> n \<le> 32 \<or> n = 133 \<or> n = 160)"

definition strip :: "string \<Rightarrow> string" where
  "strip s = rev (dropWhile py_space (rev (dropWhile py_space s)))"

definition is_email :: "string \<Rightarrow> bool" where
  "is_email s =
     (case partition_at CHR ''@'' s of
        (name, domain) \<Rightarrow>
          CHR ''@'' \<in> set s \<and> name \<noteq> [] \<and> CHR ''@'' \<notin> set domain \<and> \<not> list_ex py_space s \<and>
          2 \<le> length (split_on CHR ''.'' domain) \<and> list_all (\<lambda>w. w \<noteq> []) (split_on CHR ''.'' domain))"

type_synonym url_reader = "string \<Rightarrow> (string \<times> string option) option"

definition is_url :: "url_reader \<Rightarrow> string \<Rightarrow> bool" where
  "is_url urlsplit s =
     (case urlsplit s of
        None \<Rightarrow> False
      | Some (scheme, host) \<Rightarrow> scheme \<noteq> [] \<and> (case host of None \<Rightarrow> False | Some h \<Rightarrow> h \<noteq> []))"

section \<open>Fields\<close>

definition MODEL_FIELD :: setup_field where
  "MODEL_FIELD = \<lparr>sf_name = ''model'', sf_label = ''Model'',
     sf_description = ''The model the instance calls, as provider:model, like openai:gpt-5.'',
     sf_kind = Config_Field, sf_type = Text_Field, sf_required = True, sf_default = None,
     sf_choices = None, sf_target = None\<rparr>"

definition API_KEY_FIELD :: setup_field where
  "API_KEY_FIELD = \<lparr>sf_name = ''api_key'', sf_label = ''API key'',
     sf_description = ''The key your model provider issued. The hub keeps it with the instance's secrets and never shows it again.'',
     sf_kind = Secret_Field, sf_type = Text_Field, sf_required = True, sf_default = None,
     sf_choices = None, sf_target = None\<rparr>"

definition BUILT_IN_FIELDS :: "setup_field list" where
  "BUILT_IN_FIELDS = [MODEL_FIELD, API_KEY_FIELD]"

text \<open>The fields a template adds, leaving out those that override a built-in field's default.\<close>

definition template_fields :: "setup_field list \<Rightarrow> setup_field list" where
  "template_fields own = filter (\<lambda>f. sf_name f \<notin> sf_name ` set BUILT_IN_FIELDS) own"

definition default_overrides :: "setup_field list \<Rightarrow> (string, step_value) dict" where
  "default_overrides own = fold (\<lambda>f d. case sf_default f of None \<Rightarrow> d | Some v \<Rightarrow> dict_set (sf_name f) v d) own []"

definition with_built_in_fields :: "setup_field list \<Rightarrow> setup_field list" where
  "with_built_in_fields own =
     map (\<lambda>f. case map_of (default_overrides own) (sf_name f) of None \<Rightarrow> f | Some v \<Rightarrow> f\<lparr>sf_default := Some v\<rparr>)
       BUILT_IN_FIELDS @ template_fields own"

definition search_key_field :: "string \<Rightarrow> setup_field" where
  "search_key_field variable = \<lparr>sf_name = variable, sf_label = ''Web search key'',
     sf_description = ''The key of the search backend the instance's web search queries.'',
     sf_kind = Secret_Field, sf_type = Text_Field, sf_required = True, sf_default = None,
     sf_choices = None, sf_target = None\<rparr>"

definition with_search_key :: "declared_setup \<Rightarrow> string option \<Rightarrow> declared_setup" where
  "with_search_key setup key_variable =
     (case key_variable of
        None \<Rightarrow> setup
      | Some v \<Rightarrow>
          if v \<in> sf_name ` set (ds_setup_fields setup)
          then setup\<lparr>ds_setup_fields := map (\<lambda>f. if sf_name f = v then f\<lparr>sf_required := True\<rparr> else f)
                 (ds_setup_fields setup)\<rparr>
          else setup\<lparr>ds_setup_fields := ds_setup_fields setup @ [search_key_field v]\<rparr>)"

section \<open>Values\<close>

text \<open>Why a value does not fit a field's type. \<open>True == 1\<close> aside, a choice is a text.\<close>

definition value_problem :: "url_reader \<Rightarrow> setup_field \<Rightarrow> step_value \<Rightarrow> string option" where
  "value_problem urlsplit f v =
     (let choices = (case sf_choices f of None \<Rightarrow> [] | Some cs \<Rightarrow> cs)
      in case sf_type f of
        Text_Field \<Rightarrow> (case v of VStr _ \<Rightarrow> None | _ \<Rightarrow> Some ''is not text'')
      | Multiline_Field \<Rightarrow> (case v of VStr _ \<Rightarrow> None | _ \<Rightarrow> Some ''is not text'')
      | Boolean_Field \<Rightarrow> (case v of VBool _ \<Rightarrow> None | _ \<Rightarrow> Some ''is not true or false'')
      | Integer_Field \<Rightarrow> (case v of VInt _ \<Rightarrow> None | _ \<Rightarrow> Some ''is not a whole number'')
      | Choice_Field \<Rightarrow>
          (if (case v of VStr s \<Rightarrow> s \<in> set choices | _ \<Rightarrow> False) then None
           else Some (''is not one of '' @ joined '', '' choices))
      | Email_Field \<Rightarrow>
          (if (case v of VStr s \<Rightarrow> is_email s | _ \<Rightarrow> False) then None
           else Some ''is not an email address, like someone@example.com'')
      | Url_Field \<Rightarrow>
          (if (case v of VStr s \<Rightarrow> is_url urlsplit s | _ \<Rightarrow> False) then None
           else Some ''is not a URL with a scheme and a host, like https://example.com''))"

text \<open>Each field's value: the one sent, else its default. Blank text counts as nothing sent.\<close>

definition sent_value :: "(string, step_value) dict \<Rightarrow> setup_field \<Rightarrow> step_value option" where
  "sent_value vals f =
     (case map_of vals (sf_name f) of
        Some (VStr s) \<Rightarrow> if strip s = [] then sf_default f else Some (VStr s)
      | Some v \<Rightarrow> Some v
      | None \<Rightarrow> sf_default f)"

definition resolved_values :: "setup_field list \<Rightarrow> (string, step_value) dict \<Rightarrow> (string, step_value) dict" where
  "resolved_values flds vals =
     fold (\<lambda>f d. case sent_value vals f of None \<Rightarrow> d | Some v \<Rightarrow> dict_set (sf_name f) v d) flds []"

end
