(* ===== verification/Shell_Reads.thy ===== *)
theory Shell_Reads
  imports Prelude
begin

text \<open>
  Telling a shell read: a bash command that only runs programs that read, on paths inside the
  workspace (src/src/kinby/core/shell_reads.py). A command is cut into tokens as the source's regular
  expression cuts it, alternative by alternative, and its words lose their quotes as the source's
  second one reads them. Paths are pathlib's. What the file system says, where a path leads through
  its links and what a glob matches, is an argument.
\<close>

section \<open>Characters\<close>

definition BACKSLASH :: char where "BACKSLASH = CHR 0x5C"
definition NEWLINE :: char where "NEWLINE = CHR 0x0A"
definition TAB :: char where "TAB = CHR 0x09"
definition SINGLE_QUOTE :: char where "SINGLE_QUOTE = CHR 0x27"
definition DOUBLE_QUOTE :: char where "DOUBLE_QUOTE = CHR 0x22"

text \<open>The characters \<open>\s\<close>, \<open>\d\<close> and \<open>\w\<close> match, among the model's.\<close>

definition re_space :: "char \<Rightarrow> bool" where
  "re_space c \<longleftrightarrow> (let n = of_char c :: nat in 9 \<le> n \<and> n \<le> 13 \<or> 28 \<le> n \<and> n \<le> 32 \<or> n = 133 \<or> n = 160)"

definition re_digit :: "char \<Rightarrow> bool" where
  "re_digit c \<longleftrightarrow> char_between CHR ''0'' CHR ''9'' c"

definition re_word :: "char \<Rightarrow> bool" where
  "re_word c \<longleftrightarrow> re_digit c \<or> char_between CHR ''a'' CHR ''z'' c \<or> char_between CHR ''A'' CHR ''Z'' c \<or>
     c = CHR ''_'' \<or>
     (let n = of_char c :: nat
      in n \<in> {170, 178, 179, 181, 185, 186, 188, 189, 190} \<or> 192 \<le> n \<and> n \<noteq> 215 \<and> n \<noteq> 247)"

section \<open>Tokens\<close>

datatype token = T_Space | T_Separator | T_Redirect string | T_Word string

text \<open>What \<open>"(?:[^"\\]|\\.)*"\<close> matches after its first quote: the text between the quotes, and what follows.\<close>

fun double_quoted :: "string \<Rightarrow> (string \<times> string) option" where
  "double_quoted [] = None"
| "double_quoted (c # cs) =
     (if c = DOUBLE_QUOTE then Some ([], cs)
      else if c = BACKSLASH then
        (case cs of
           [] \<Rightarrow> None
         | d # ds \<Rightarrow> map_option (\<lambda>(a, b). (c # d # a, b)) (double_quoted ds))
      else map_option (\<lambda>(a, b). (c # a, b)) (double_quoted cs))"

fun single_quoted :: "string \<Rightarrow> (string \<times> string) option" where
  "single_quoted [] = None"
| "single_quoted (c # cs) =
     (if c = SINGLE_QUOTE then Some ([], cs) else map_option (\<lambda>(a, b). (c # a, b)) (single_quoted cs))"

definition plain_char :: "char \<Rightarrow> bool" where
  "plain_char c \<longleftrightarrow> \<not> re_space c \<and>
     c \<notin> {CHR ''|'', CHR '';'', CHR ''&'', CHR ''<'', CHR ''>'', SINGLE_QUOTE, DOUBLE_QUOTE, BACKSLASH}"

text \<open>One piece of a word: its text, and what follows.\<close>

definition word_piece :: "string \<Rightarrow> (string \<times> string) option" where
  "word_piece s =
     (case s of
        [] \<Rightarrow> None
      | c # cs \<Rightarrow>
          if c = SINGLE_QUOTE then map_option (\<lambda>(a, b). (c # a @ [c], b)) (single_quoted cs)
          else if c = DOUBLE_QUOTE then map_option (\<lambda>(a, b). (c # a @ [c], b)) (double_quoted cs)
          else if c = BACKSLASH then (case cs of [] \<Rightarrow> None | d # ds \<Rightarrow> Some ([c, d], ds))
          else if plain_char c then Some ([c], cs) else None)"

lemma double_quoted_shorter: "double_quoted s = Some (a, b) \<Longrightarrow> length b < length s"
proof (induction s arbitrary: a b rule: double_quoted.induct)
  case (2 c cs)
  then show ?case
    by (cases "c = DOUBLE_QUOTE"; cases "c = BACKSLASH"; cases cs) fastforce+
qed simp

lemma single_quoted_shorter: "single_quoted s = Some (a, b) \<Longrightarrow> length b < length s"
  by (induction s arbitrary: a b rule: single_quoted.induct) (auto split: if_splits)

lemma word_piece_shorter:
  assumes "word_piece s = Some (a, b)"
  shows "length b < length s"
proof (cases s)
  case (Cons c cs)
  consider "c = SINGLE_QUOTE" | "c \<noteq> SINGLE_QUOTE" "c = DOUBLE_QUOTE"
    | "c \<noteq> SINGLE_QUOTE" "c \<noteq> DOUBLE_QUOTE" "c = BACKSLASH"
    | "c \<noteq> SINGLE_QUOTE" "c \<noteq> DOUBLE_QUOTE" "c \<noteq> BACKSLASH" by blast
  then show ?thesis
  proof cases
    case 1
    then obtain x where "single_quoted cs = Some (x, b)" using assms Cons by (auto simp: word_piece_def)
    then show ?thesis using Cons single_quoted_shorter by fastforce
  next
    case 2
    then obtain x where "double_quoted cs = Some (x, b)" using assms Cons by (auto simp: word_piece_def)
    then show ?thesis using Cons double_quoted_shorter by fastforce
  next
    case 3
    then show ?thesis using assms Cons by (cases cs) (simp_all add: word_piece_def)
  next
    case 4
    then show ?thesis using assms Cons by (simp add: word_piece_def split: if_split_asm)
  qed
qed (use assms in \<open>simp add: word_piece_def\<close>)

function word_run :: "string \<Rightarrow> string \<times> string" where
  "word_run s =
     (case word_piece s of
        None \<Rightarrow> ([], s)
      | Some (a, b) \<Rightarrow> (case word_run b of (w, rest) \<Rightarrow> (a @ w, rest)))"
  by pat_completeness auto
termination
  by (relation "measure length") (auto dest: word_piece_shorter)

declare word_run.simps [simp del]

text \<open>\<open>(?:\d+|&)?>>?(?:&\d+(?![^\s|;&]))?\<close>, from the redirection's \<open>>\<close> on.\<close>

definition redirect_target :: "string \<Rightarrow> string \<times> string" where
  "redirect_target s =
     (case s of
        c # cs \<Rightarrow>
          (let digits = takeWhile re_digit cs; rest = dropWhile re_digit cs
           in if c = CHR ''&'' \<and> digits \<noteq> [] \<and>
                 (case rest of [] \<Rightarrow> True | d # _ \<Rightarrow> re_space d \<or> d \<in> {CHR ''|'', CHR '';'', CHR ''&''})
              then (c # digits, rest) else ([], s))
      | [] \<Rightarrow> ([], s))"

definition redirect_arrows :: "string \<Rightarrow> (string \<times> string) option" where
  "redirect_arrows s =
     (case s of
        c # cs \<Rightarrow>
          if c \<noteq> CHR ''>'' then None
          else (case cs of
                  d # ds \<Rightarrow>
                    if d = CHR ''>'' then (case redirect_target ds of (t, rest) \<Rightarrow> Some (c # d # t, rest))
                    else (case redirect_target cs of (t, rest) \<Rightarrow> Some (c # t, rest))
                | [] \<Rightarrow> Some ([c], []))
      | [] \<Rightarrow> None)"

definition redirect :: "string \<Rightarrow> (string \<times> string) option" where
  "redirect s =
     (let digits = takeWhile re_digit s; rest = dropWhile re_digit s
      in if digits \<noteq> [] then map_option (\<lambda>(a, b). (digits @ a, b)) (redirect_arrows rest)
         else (case s of
                 c # cs \<Rightarrow>
                   if c = CHR ''&'' then map_option (\<lambda>(a, b). (c # a, b)) (redirect_arrows cs)
                   else redirect_arrows s
               | [] \<Rightarrow> None))"

text \<open>The token a position starts with, the first alternative that matches there, and what follows.\<close>

definition next_token :: "string \<Rightarrow> (token \<times> string) option" where
  "next_token s =
     (case s of
        [] \<Rightarrow> None
      | c # cs \<Rightarrow>
          if c = CHR '' '' \<or> c = TAB
          then Some (T_Space, dropWhile (\<lambda>d. d = CHR '' '' \<or> d = TAB) cs)
          else if starts_with s ''||'' \<or> starts_with s ''&&'' then Some (T_Separator, tl cs)
          else if c = CHR ''|'' \<or> c = CHR '';'' \<or> c = NEWLINE then Some (T_Separator, cs)
          else case redirect s of
            Some (r, rest) \<Rightarrow> Some (T_Redirect r, rest)
          | None \<Rightarrow> (case word_run s of (w, rest) \<Rightarrow> if w = [] then None else Some (T_Word w, rest)))"

lemma redirect_target_short: "redirect_target s = (t, rest) \<Longrightarrow> length rest \<le> length s"
  using length_dropWhile_le [of re_digit "tl s"]
  by (cases s) (auto simp: redirect_target_def Let_def split: if_splits)

lemma redirect_arrows_shorter: "redirect_arrows s = Some (t, rest) \<Longrightarrow> length rest < length s"
  by (auto simp: redirect_arrows_def split: list.splits if_splits prod.splits dest!: redirect_target_short)

lemma redirect_shorter: "redirect s = Some (t, rest) \<Longrightarrow> length rest < length s"
  using length_dropWhile_le [of re_digit s]
  by (auto simp: redirect_def Let_def split: list.splits if_splits dest!: redirect_arrows_shorter)

lemma word_run_short: "word_run s = (w, rest) \<Longrightarrow> length rest + (if w = [] then 0 else 1) \<le> length s"
proof (induction s arbitrary: w rule: word_run.induct)
  case (1 s)
  show ?case
  proof (cases "word_piece s")
    case None
    then show ?thesis using "1.prems" by (simp add: word_run.simps [of s])
  next
    case (Some p)
    obtain a b where p: "p = (a, b)" by (cases p)
    obtain v r where v: "word_run b = (v, r)" by fastforce
    have "length r \<le> length b" using "1.IH" [of "(a, b)" a b v] Some p v "1.prems"
      by (simp add: word_run.simps [of s] split: if_splits)
    moreover have "rest = r" using "1.prems" Some p v by (simp add: word_run.simps [of s])
    ultimately show ?thesis using word_piece_shorter [OF Some [unfolded p]] by auto
  qed
qed

lemma next_token_shorter:
  assumes "next_token s = Some (t, rest)"
  shows "length rest < length s"
proof -
  obtain c cs where s: "s = c # cs" using assms by (cases s) (auto simp: next_token_def)
  have blanks: "length (dropWhile (\<lambda>d. d = CHR '' '' \<or> d = TAB) cs) < length s"
    using s length_dropWhile_le [of "\<lambda>d. d = CHR '' '' \<or> d = TAB" cs] by simp
  have word: "\<And>w r. word_run s = (w, r) \<Longrightarrow> w \<noteq> [] \<Longrightarrow> length r < length s"
    using word_run_short by fastforce
  have red: "\<And>r q. redirect s = Some (r, q) \<Longrightarrow> length q < length s" by (rule redirect_shorter)
  have tails: "length (tl cs) < length s" "length cs < length s" using s by simp_all
  show ?thesis
    using assms blanks word red tails
    by (simp add: next_token_def s [symmetric] split: list.splits if_splits option.splits prod.splits)
      (auto simp: s)
qed

section \<open>Words\<close>

text \<open>\<open>\\([\\"\n])\<close> between double quotes: what was escaped, and nothing for a newline.\<close>

fun unescaped :: "string \<Rightarrow> string" where
  "unescaped (c # d # cs) =
     (if c = BACKSLASH \<and> d \<in> {BACKSLASH, DOUBLE_QUOTE, NEWLINE}
      then (if d = NEWLINE then [] else [d]) @ unescaped cs
      else c # unescaped (d # cs))"
| "unescaped cs = cs"

text \<open>A word as bash hands it to a program. Text no part matches is skipped, as \<open>findall\<close> skips it.\<close>

definition word_part :: "string \<Rightarrow> string \<times> string" where
  "word_part s =
     (case s of
        [] \<Rightarrow> ([], [])
      | c # cs \<Rightarrow>
          if c = SINGLE_QUOTE then (case single_quoted cs of Some (a, b) \<Rightarrow> (a, b) | None \<Rightarrow> ([], cs))
          else if c = DOUBLE_QUOTE then
            (case double_quoted cs of Some (a, b) \<Rightarrow> (unescaped a, b) | None \<Rightarrow> ([], cs))
          else if c = BACKSLASH then
            (case cs of [] \<Rightarrow> ([], []) | d # ds \<Rightarrow> (if d = NEWLINE then [] else [d], ds))
          else ([c], cs))"

lemma word_part_shorter: "s \<noteq> [] \<Longrightarrow> length (snd (word_part s)) < length s"
proof (cases s)
  case (Cons c cs)
  consider "c = SINGLE_QUOTE" | "c \<noteq> SINGLE_QUOTE" "c = DOUBLE_QUOTE"
    | "c \<noteq> SINGLE_QUOTE" "c \<noteq> DOUBLE_QUOTE" "c = BACKSLASH"
    | "c \<noteq> SINGLE_QUOTE" "c \<noteq> DOUBLE_QUOTE" "c \<noteq> BACKSLASH" by blast
  then show ?thesis
  proof cases
    case 1
    then show ?thesis using single_quoted_shorter [of cs]
      by (cases "single_quoted cs") (fastforce simp: word_part_def Cons)+
  next
    case 2
    then show ?thesis using double_quoted_shorter [of cs]
      by (cases "double_quoted cs") (fastforce simp: word_part_def Cons)+
  next
    case 3
    then show ?thesis using Cons by (cases cs) (simp_all add: word_part_def)
  next
    case 4
    then show ?thesis using Cons by (simp add: word_part_def)
  qed
qed simp

function unquoted :: "string \<Rightarrow> string" where
  "unquoted s = (if s = [] then [] else (case word_part s of (a, b) \<Rightarrow> a @ unquoted b))"
  by pat_completeness auto
termination
  using word_part_shorter by (relation "measure length") (auto, metis length_greater_0_conv snd_conv)

declare unquoted.simps [simp del]

section \<open>Simple commands\<close>

definition UNSUPPORTED :: "char set" where
  "UNSUPPORTED = set (''$`(){}<'')"

text \<open>Whether a redirection awaits its target: it names no other output.\<close>

definition awaits_target :: "string \<Rightarrow> bool" where
  "awaits_target r \<longleftrightarrow> CHR ''&'' \<notin> set (dropWhile (\<lambda>c. c = CHR ''&'') r)"

definition DEV_NULL :: string where "DEV_NULL = ''/dev/null''"

text \<open>The loop of \<open>_commands\<close>: the commands so far, the words of the last, and whether a target is awaited.\<close>

function commands_from :: "string \<Rightarrow> bool \<Rightarrow> string list list \<Rightarrow> string list \<Rightarrow> string list list option" where
  "commands_from s awaiting past words =
     (if s = [] then (if awaiting then None else Some (past @ [words]))
      else case next_token s of
        None \<Rightarrow> None
      | Some (t, rest) \<Rightarrow>
          (case t of
             T_Space \<Rightarrow> commands_from rest awaiting past words
           | T_Separator \<Rightarrow>
               if awaiting then None else commands_from rest False (past @ [words]) []
           | T_Redirect r \<Rightarrow>
               if awaiting then None else commands_from rest (awaits_target r) past words
           | T_Word w \<Rightarrow>
               if awaiting then
                 (if unquoted w = DEV_NULL then commands_from rest False past words else None)
               else if starts_with w ''#'' then None
               else commands_from rest False past (words @ [unquoted w])))"
  by pat_completeness auto
termination
  by (relation "measure (\<lambda>(s, _). length s)") (auto dest: next_token_shorter)

declare commands_from.simps [simp del]

definition commands :: "string \<Rightarrow> string list list option" where
  "commands s =
     (if UNSUPPORTED \<inter> set s \<noteq> {} then None
      else map_option (filter (\<lambda>ws. ws \<noteq> [])) (commands_from s False [] []))"

section \<open>Paths\<close>

text \<open>An absolute path as pathlib holds it: whether two slashes lead it, and its parts.\<close>

record path =
  two_slashes :: bool
  parts :: "string list"

definition path_parts :: "string \<Rightarrow> string list" where
  "path_parts name = filter (\<lambda>p. p \<noteq> [] \<and> p \<noteq> ''.'') (split_on CHR ''/'' name)"

definition joined_path :: "path \<Rightarrow> string \<Rightarrow> path" where
  "joined_path d name =
     (if starts_with name ''/''
      then \<lparr>two_slashes = starts_with name ''//'' \<and> \<not> starts_with name ''///'', parts = path_parts name\<rparr>
      else d\<lparr>parts := parts d @ path_parts name\<rparr>)"

definition is_relative_to :: "path \<Rightarrow> path \<Rightarrow> bool" where
  "is_relative_to p root \<longleftrightarrow> two_slashes p = two_slashes root \<and> take (length (parts root)) (parts p) = parts root"

text \<open>The file system: where a path leads through its links, and what it matches as a glob.\<close>

record files =
  resolved :: "path \<Rightarrow> path"
  globbed :: "path \<Rightarrow> path list"

section \<open>Programs and their arguments\<close>

definition PROGRAMS :: "string list" where
  "PROGRAMS = [''cd'', ''pwd'', ''ls'', ''cat'', ''head'', ''tail'', ''wc'', ''grep'', ''find'', ''stat'',
     ''file'', ''du'', ''tree'', ''diff'', ''cut'', ''tr'', ''sort'', ''echo'', ''printf'', ''date'',
     ''basename'', ''dirname'', ''realpath'', ''jq'', ''bc'', ''expr'', ''true'']"

definition FIND_UNSAFE :: "string list" where
  "FIND_UNSAFE = [''-exec'', ''-execdir'', ''-ok'', ''-okdir'', ''-delete'', ''-fprint'', ''-fprint0'',
     ''-fprintf'', ''-fls'', ''-L'', ''-follow'']"

definition UNSAFE_FLAGS :: "(string, string \<times> string list) dict" where
  "UNSAFE_FLAGS = [(''sort'', (''o'', [''--o'', ''--co'', ''--fi''])), (''tree'', (''oRl'', [''--o''])),
     (''date'', (''s'', [''--s''])), (''file'', (''C'', [''--co''])), (''grep'', (''R'', [''--de''])),
     (''ls'', (''L'', [''--de''])), (''du'', (''L'', [''--de''])), (''diff'', (''r'', [''--rec''])),
     (''jq'', (''f'', [''--f'']))]"

definition unsafe :: "string \<Rightarrow> string \<Rightarrow> bool" where
  "unsafe program a =
     (if program = ''find'' then a \<in> set FIND_UNSAFE
      else case dict_get UNSAFE_FLAGS program ([], []) of
        (letters, prefixes) \<Rightarrow>
          if starts_with a ''--'' then list_ex (starts_with a) prefixes
          else starts_with a ''-'' \<and> list_ex (\<lambda>l. l \<in> set (tl a)) letters)"

fun holds :: "string \<Rightarrow> string \<Rightarrow> bool" where
  "holds s [] = starts_with [] s"
| "holds s (c # cs) = (starts_with (c # cs) s \<or> holds s cs)"

definition GLOB_CHARS :: "char list" where "GLOB_CHARS = ''*?[''"

text \<open>Whether a name, read from each directory, leads inside the root, and so does all it matches as a glob.\<close>

definition inside :: "files \<Rightarrow> string \<Rightarrow> path list \<Rightarrow> path \<Rightarrow> bool" where
  "inside fs name directories root \<longleftrightarrow>
     \<not> list_ex (\<lambda>p. starts_with p ''.'' \<and> list_ex (\<lambda>c. c \<in> set GLOB_CHARS) p) (split_on CHR ''/'' name) \<and>
     list_all (\<lambda>d.
       (let p = joined_path d name
        in list_all (\<lambda>q. is_relative_to (resolved fs q) root) (case globbed fs p of [] \<Rightarrow> [p] | qs \<Rightarrow> qs)))
       directories"

definition confined :: "files \<Rightarrow> string \<Rightarrow> path list \<Rightarrow> path \<Rightarrow> bool" where
  "confined fs a directories root =
     (if starts_with a ''~'' \<or> holds ''=~'' a \<or> holds '':~'' a then False
      else if \<not> starts_with a ''-'' then inside fs a directories root
      else if CHR ''/'' \<in> set a then False
      else (let glued = (if starts_with a ''--'' then snd (partition_at CHR ''='' a) else drop 2 a)
            in glued = [] \<or> inside fs glued directories root))"

text \<open>Whether \<open>\b(env|include|import)\b\<close> matches anywhere.\<close>

fun word_at :: "bool \<Rightarrow> string \<Rightarrow> string \<Rightarrow> bool" where
  "word_at inner w [] = False"
| "word_at inner w (c # cs) =
     (\<not> inner \<and> starts_with (c # cs) w \<and>
        (case drop (length w) (c # cs) of [] \<Rightarrow> True | d # _ \<Rightarrow> \<not> re_word d) \<or>
      word_at (re_word c) w cs)"

definition jq_loads :: "string \<Rightarrow> bool" where
  "jq_loads a \<longleftrightarrow> list_ex (\<lambda>w. word_at False w a) [''env'', ''include'', ''import'']"

definition reads :: "files \<Rightarrow> string \<Rightarrow> string list \<Rightarrow> path list \<Rightarrow> path \<Rightarrow> bool" where
  "reads fs program arguments directories root =
     (if program \<notin> set PROGRAMS \<or> list_ex (unsafe program) arguments then False
      else if \<not> list_all (\<lambda>a. confined fs a directories root) arguments then False
      else if program = ''cd'' then
        (case arguments of [a] \<Rightarrow> starts_with a ''/'' \<or> starts_with a ''.'' | _ \<Rightarrow> False)
      else if program = ''jq'' then \<not> list_ex jq_loads arguments
      else True)"

fun all_read :: "files \<Rightarrow> string list list \<Rightarrow> path list \<Rightarrow> path \<Rightarrow> bool" where
  "all_read fs [] directories root = True"
| "all_read fs ([] # cs) directories root = all_read fs cs directories root"
| "all_read fs ((program # arguments) # cs) directories root =
     (reads fs program arguments directories root \<and>
      all_read fs cs
        (if program = ''cd''
         then directories @ map (\<lambda>d. resolved fs (joined_path d (hd arguments))) directories
         else directories) root)"

definition is_shell_read :: "files \<Rightarrow> string \<Rightarrow> path \<Rightarrow> bool" where
  "is_shell_read fs command workspace =
     (case commands command of
        None \<Rightarrow> False
      | Some cs \<Rightarrow> cs \<noteq> [] \<and> (let root = resolved fs workspace in all_read fs cs [root] root))"

end
