(* ===== verification/Gate.thy ===== *)
theory Gate
  imports Shell_Reads
begin

text \<open>
  The permission gate (src/src/kinby/core/gate.py) and the policy it applies
  (src/src/kinby/instance/permissions.py): whether a tool call runs, asks the user first, or is denied,
  and under which rule. A pattern of the policy is matched by \<open>re.search\<close>, which is an argument, and
  so is \<open>re.compile\<close>, which gives the error of a pattern that is no regular expression. The text of
  a \<open>permissions.toml\<close> is left to its parser.
\<close>

section \<open>Modes and actions\<close>

datatype permission_mode = Read_Only | Ask_Mode | Auto | Full_Access

datatype gate_action = Gate_Allow | Gate_Ask | Gate_Deny

text \<open>The modes in the order of \<open>_MODE_ORDER\<close>, from the one that allows least to the one that allows most.\<close>

definition MODE_ORDER :: "permission_mode list" where
  "MODE_ORDER = [Read_Only, Ask_Mode, Auto, Full_Access]"

fun mode_index :: "permission_mode \<Rightarrow> nat" where
  "mode_index Read_Only = 0"
| "mode_index Ask_Mode = 1"
| "mode_index Auto = 2"
| "mode_index Full_Access = 3"

lemma mode_index_is_its_place: "MODE_ORDER ! mode_index m = m" "mode_index m < length MODE_ORDER"
  by (cases m; simp add: MODE_ORDER_def)+

instantiation permission_mode :: linorder
begin

definition less_eq_permission_mode :: "permission_mode \<Rightarrow> permission_mode \<Rightarrow> bool" where
  "less_eq_permission_mode a b \<longleftrightarrow> mode_index a \<le> mode_index b"

definition less_permission_mode :: "permission_mode \<Rightarrow> permission_mode \<Rightarrow> bool" where
  "less_permission_mode a b \<longleftrightarrow> mode_index a < mode_index b"

instance
proof
  fix a b :: permission_mode
  show "a \<le> b \<Longrightarrow> b \<le> a \<Longrightarrow> a = b"
    by (cases a; cases b; simp add: less_eq_permission_mode_def)
qed (auto simp: less_eq_permission_mode_def less_permission_mode_def)

end

text \<open>The answers of the gate by how much they permit: a denial least, then a question, then a run.\<close>

fun action_index :: "gate_action \<Rightarrow> nat" where
  "action_index Gate_Deny = 0"
| "action_index Gate_Ask = 1"
| "action_index Gate_Allow = 2"

instantiation gate_action :: linorder
begin

definition less_eq_gate_action :: "gate_action \<Rightarrow> gate_action \<Rightarrow> bool" where
  "less_eq_gate_action a b \<longleftrightarrow> action_index a \<le> action_index b"

definition less_gate_action :: "gate_action \<Rightarrow> gate_action \<Rightarrow> bool" where
  "less_gate_action a b \<longleftrightarrow> action_index a < action_index b"

instance
proof
  fix a b :: gate_action
  show "a \<le> b \<Longrightarrow> b \<le> a \<Longrightarrow> a = b"
    by (cases a; cases b; simp add: less_eq_gate_action_def)
qed (auto simp: less_eq_gate_action_def less_gate_action_def)

end

lemma deny_least [simp]: "Gate_Deny \<le> a" "a \<le> Gate_Deny \<longleftrightarrow> a = Gate_Deny"
  by (cases a; simp add: less_eq_gate_action_def)+

lemma allow_most [simp]: "a \<le> Gate_Allow" "Gate_Allow \<le> a \<longleftrightarrow> a = Gate_Allow"
  by (cases a; simp add: less_eq_gate_action_def)+

lemma read_only_least [simp]: "Read_Only \<le> m" "m \<le> Read_Only \<longleftrightarrow> m = Read_Only"
  by (cases m; simp add: less_eq_permission_mode_def)+

definition mode_value :: "permission_mode \<Rightarrow> string" where
  "mode_value m = (case m of Read_Only \<Rightarrow> ''read-only'' | Ask_Mode \<Rightarrow> ''ask'' | Auto \<Rightarrow> ''auto''
     | Full_Access \<Rightarrow> ''full-access'')"

definition exceeds_ceiling :: "permission_mode \<Rightarrow> permission_mode \<Rightarrow> bool" where
  "exceeds_ceiling m ceiling \<longleftrightarrow> mode_index ceiling < mode_index m"

definition constrain_mode :: "permission_mode \<Rightarrow> permission_mode \<Rightarrow> permission_mode" where
  "constrain_mode m ceiling = (if exceeds_ceiling m ceiling then ceiling else m)"

section \<open>The policy\<close>

text \<open>A pattern as the source writes it, with % where the source has a backslash.\<close>

definition pattern :: "string \<Rightarrow> string" where
  "pattern s = map (\<lambda>c. if c = CHR ''%'' then BACKSLASH else c) s"

definition SHIPPED_BASH_DENY :: "string list" where
  "SHIPPED_BASH_DENY =
     [pattern ''(?:^|[;&|%n]%s*)rm%s+-rf%s+(?:/instance|%$%{?KINBY_INSTANCE%}?)(?:/|%s|$)'',
      pattern ''%bgit%s+(?:reset%s+--hard|rebase|filter-branch)%b'',
      pattern ''%bgit%s+push%b[^%n]*(?:--force(?:-with-lease)?|-f(?:%s|$))'']"

record bash_policy =
  bp_deny :: "string list"
  bp_ask :: "string list"

fun first_of_each :: "string list \<Rightarrow> string list" where
  "first_of_each [] = []"
| "first_of_each (x # xs) = x # filter (\<lambda>y. y \<noteq> x) (first_of_each xs)"

definition denylist :: "bash_policy \<Rightarrow> string list" where
  "denylist b = first_of_each (SHIPPED_BASH_DENY @ bp_deny b)"

record gate_policy =
  gp_mode :: permission_mode
  gp_ceiling :: permission_mode
  gp_tools :: "(string, gate_action) dict"
  gp_bash :: bash_policy

definition SHIPPED_POLICY :: gate_policy where
  "SHIPPED_POLICY = \<lparr>gp_mode = Ask_Mode, gp_ceiling = Full_Access, gp_tools = [],
     gp_bash = \<lparr>bp_deny = [], bp_ask = []\<rparr>\<rparr>"

fun tier_errors :: "(string \<Rightarrow> string option) \<Rightarrow> string \<Rightarrow> nat \<Rightarrow> string list \<Rightarrow> (string, string) dict" where
  "tier_errors compile tier k [] = []"
| "tier_errors compile tier k (p # ps) =
     (case compile p of
        None \<Rightarrow> tier_errors compile tier (Suc k) ps
      | Some exc \<Rightarrow> (''bash.'' @ tier @ ''.'' @ str_nat k, ''invalid regex: '' @ exc) #
          tier_errors compile tier (Suc k) ps)"

definition bash_regex_errors :: "(string \<Rightarrow> string option) \<Rightarrow> bash_policy \<Rightarrow> (string, string) dict" where
  "bash_regex_errors compile b =
     tier_errors compile ''deny'' 0 (bp_deny b) @ tier_errors compile ''ask'' 0 (bp_ask b)"

text \<open>What the settings panel refuses of a policy before it writes it.\<close>

definition policy_errors :: "(string \<Rightarrow> string option) \<Rightarrow> gate_policy \<Rightarrow> (string, string) dict" where
  "policy_errors compile p =
     (let errors = bash_regex_errors compile (gp_bash p)
      in if exceeds_ceiling (gp_mode p) (gp_ceiling p)
         then dict_set ''mode'' (mode_value (gp_mode p) @ '' is above the ceiling, '' @
                mode_value (gp_ceiling p) @ ''.'') errors
         else errors)"

section \<open>A tool call\<close>

record tool =
  tl_write :: bool
  tl_paths :: "string list"
  tl_hub :: bool
  tl_consolidation :: bool
  tl_notify :: bool
  tl_view :: bool
  tl_authored :: bool

record tool_call =
  tc_name :: string
  tc_arguments :: "(string, json) dict"

definition text_argument :: "tool_call \<Rightarrow> string \<Rightarrow> string option" where
  "text_argument c name = (case map_of (tc_arguments c) name of Some (J_Str s) \<Rightarrow> Some s | _ \<Rightarrow> None)"

text \<open>What the gate reads outside the call: regular expressions and the file system.\<close>

record gate_env =
  ge_search :: "string \<Rightarrow> string \<Rightarrow> bool"
  ge_files :: files
  ge_workspace :: path

section \<open>The decision\<close>

record gate_decision =
  gd_action :: gate_action
  gd_rule :: string

definition AUTHORED_RULE :: string where "AUTHORED_RULE = ''authored.write''"

definition URL_READS :: "string list" where "URL_READS = [''web_fetch'', ''browser_open'']"

definition BASH :: string where "BASH = ''bash''"

fun preset :: "permission_mode \<Rightarrow> bool \<Rightarrow> gate_action" where
  "preset Read_Only w = (if w then Gate_Deny else Gate_Allow)"
| "preset Ask_Mode w = (if w then Gate_Ask else Gate_Allow)"
| "preset Auto w = (if w then Gate_Ask else Gate_Allow)"
| "preset Full_Access w = Gate_Allow"

definition paths_are_inside_workspace :: "gate_env \<Rightarrow> tool \<Rightarrow> tool_call \<Rightarrow> bool" where
  "paths_are_inside_workspace g t c \<longleftrightarrow> tl_paths t \<noteq> [] \<and>
     (let root = resolved (ge_files g) (ge_workspace g)
      in list_all (\<lambda>p. case text_argument c p of
            None \<Rightarrow> False
          | Some s \<Rightarrow> is_relative_to (resolved (ge_files g) (joined_path root s)) root) (tl_paths t))"

text \<open>The first pattern of a list that matches the command, and its place.\<close>

fun first_match :: "(string \<Rightarrow> string \<Rightarrow> bool) \<Rightarrow> string \<Rightarrow> nat \<Rightarrow> string list \<Rightarrow> nat option" where
  "first_match search command k [] = None"
| "first_match search command k (p # ps) =
     (if search p command then Some k else first_match search command (Suc k) ps)"

definition denied_unless :: "permission_mode \<Rightarrow> gate_action \<Rightarrow> gate_action" where
  "denied_unless m a = (if m = Read_Only then Gate_Deny else a)"

text \<open>What the patterns for bash decide, if any of them matches.\<close>

definition pattern_decision :: "gate_env \<Rightarrow> gate_policy \<Rightarrow> string \<Rightarrow> gate_decision option" where
  "pattern_decision g policy command =
     (case first_match (ge_search g) command 0 (denylist (gp_bash policy)) of
        Some k \<Rightarrow> Some \<lparr>gd_action = Gate_Deny, gd_rule = ''bash.deny['' @ str_nat k @ '']''\<rparr>
      | None \<Rightarrow>
          (case first_match (ge_search g) command 0 (bp_ask (gp_bash policy)) of
             Some k \<Rightarrow> Some \<lparr>gd_action = Gate_Ask, gd_rule = ''bash.ask['' @ str_nat k @ '']''\<rparr>
           | None \<Rightarrow> None))"

text \<open>What is decided once no flag of the tool, no pattern, no rule and no grant decided.\<close>

definition mode_decision ::
  "gate_env \<Rightarrow> permission_mode \<Rightarrow> tool_call \<Rightarrow> tool option \<Rightarrow> bool \<Rightarrow> string list \<Rightarrow> gate_decision" where
  "mode_decision g m c t marked seen =
     (if (m = Ask_Mode \<or> m = Auto) \<and> tc_name c = BASH \<and>
         (case t of None \<Rightarrow> False | Some x \<Rightarrow> \<not> tl_authored x) \<and>
         (case text_argument c ''command'' of None \<Rightarrow> False
          | Some s \<Rightarrow> is_shell_read (ge_files g) s (ge_workspace g))
      then \<lparr>gd_action = Gate_Allow, gd_rule = ''bash.read''\<rparr>
      else if (case t of None \<Rightarrow> False | Some x \<Rightarrow> tl_authored x) \<and> \<not> marked
      then \<lparr>gd_action = preset m True, gd_rule = AUTHORED_RULE\<rparr>
      else if tc_name c \<in> set URL_READS
      then (case text_argument c ''url'' of
              Some url \<Rightarrow>
                if url \<in> set seen then \<lparr>gd_action = Gate_Allow, gd_rule = ''web.seen_url''\<rparr>
                else \<lparr>gd_action = preset m True, gd_rule = ''web.unseen_url''\<rparr>
            | None \<Rightarrow> \<lparr>gd_action = preset m True, gd_rule = ''web.unseen_url''\<rparr>)
      else
        (let writes = (case t of None \<Rightarrow> False | Some x \<Rightarrow> tl_write x \<and> \<not> tl_authored x)
         in if m = Auto \<and> writes \<and> (case t of None \<Rightarrow> False | Some x \<Rightarrow> paths_are_inside_workspace g x c)
            then \<lparr>gd_action = Gate_Allow, gd_rule = ''mode.auto.workspace''\<rparr>
            else \<lparr>gd_action = preset m writes,
                  gd_rule = ''mode.'' @ mode_value m @ (if writes then ''.write'' else ''.read'')\<rparr>))"

text \<open>What is decided where no flag of the tool decides: the patterns, then a rule, then a grant.\<close>

definition rule_decision ::
  "gate_env \<Rightarrow> gate_policy \<Rightarrow> permission_mode \<Rightarrow> tool_call \<Rightarrow> tool option \<Rightarrow> bool \<Rightarrow> bool \<Rightarrow> string list \<Rightarrow>
   gate_decision" where
  "rule_decision g policy m c t granted marked seen =
     (case (if m \<noteq> Read_Only \<and> tc_name c = BASH
            then Option.bind (text_argument c ''command'') (pattern_decision g policy) else None) of
        Some d \<Rightarrow> d
      | None \<Rightarrow>
          (case map_of (gp_tools policy) (tc_name c) of
             Some a \<Rightarrow> \<lparr>gd_action = a, gd_rule = ''tools.'' @ tc_name c\<rparr>
           | None \<Rightarrow>
               if granted \<and> m \<noteq> Read_Only then \<lparr>gd_action = Gate_Allow, gd_rule = ''routine.grant''\<rparr>
               else mode_decision g m c t marked seen))"

definition evaluate ::
  "gate_env \<Rightarrow> gate_policy \<Rightarrow> permission_mode \<Rightarrow> tool_call \<Rightarrow> tool option \<Rightarrow> bool \<Rightarrow> bool \<Rightarrow> string list \<Rightarrow>
   gate_decision" where
  "evaluate g policy m c t granted marked seen =
     (let named = map_of (gp_tools policy) (tc_name c)
      in case t of
           None \<Rightarrow> rule_decision g policy m c t granted marked seen
         | Some x \<Rightarrow>
             if tl_hub x \<and> tl_write x
             then \<lparr>gd_action = denied_unless m Gate_Ask, gd_rule = ''hub.write''\<rparr>
             else if tl_consolidation x
             then \<lparr>gd_action = denied_unless m Gate_Allow, gd_rule = ''consolidation.write''\<rparr>
             else if tl_notify x \<and> named = None
             then \<lparr>gd_action = denied_unless m Gate_Allow, gd_rule = ''notify''\<rparr>
             else if tl_view x \<and> named = None
             then \<lparr>gd_action = denied_unless m Gate_Allow, gd_rule = ''view''\<rparr>
             else rule_decision g policy m c t granted marked seen)"

end
