(* ===== verification/Shell_Reads_Laws.thy ===== *)
theory Shell_Reads_Laws
  imports Shell_Reads Factory_File "HOL-Library.Sublist"
begin

text \<open>
  What a shell read comes to: every argument of its commands leads inside the workspace from every
  directory a \<open>cd\<close> before it may have reached, and words quoted for a shell are read back as they
  were. The last theorems are what the classifier lets through that it should not.
\<close>

section \<open>Directories a command may run in\<close>








section \<open>Words that were quoted\<close>



lemma quote_characters [simp]:
  "SINGLE_QUOTE \<noteq> DOUBLE_QUOTE" "DOUBLE_QUOTE \<noteq> SINGLE_QUOTE" "SINGLE_QUOTE \<noteq> BACKSLASH"
  "BACKSLASH \<noteq> SINGLE_QUOTE" "DOUBLE_QUOTE \<noteq> BACKSLASH" "BACKSLASH \<noteq> DOUBLE_QUOTE"
  by (simp_all add: SINGLE_QUOTE_def DOUBLE_QUOTE_def BACKSLASH_def)





definition requoted :: "string \<Rightarrow> string" where
  "requoted s = concat (map (\<lambda>c. if c = SINGLE_QUOTE
     then [SINGLE_QUOTE, DOUBLE_QUOTE, SINGLE_QUOTE, DOUBLE_QUOTE, SINGLE_QUOTE] else [c]) s)"

lemma requoted_simps [simp]:
  "requoted [] = []"
  "requoted (c # s) = (if c = SINGLE_QUOTE
     then [SINGLE_QUOTE, DOUBLE_QUOTE, SINGLE_QUOTE, DOUBLE_QUOTE, SINGLE_QUOTE] else [c]) @ requoted s"
  by (simp_all add: requoted_def)





lemma unquoted_Nil [simp]: "unquoted [] = []"
  by (simp add: unquoted.simps)






















section \<open>A concrete workspace\<close>

text \<open>A file system without links, whose globs match nothing: a path leads where its parts do.\<close>

fun without_parents :: "string list \<Rightarrow> string list \<Rightarrow> string list" where
  "without_parents up [] = rev up"
| "without_parents up (p # ps) = (if p = ''..'' then without_parents (tl up) ps else without_parents (p # up) ps)"

definition plain_files :: files where
  "plain_files = \<lparr>resolved = (\<lambda>p. p\<lparr>parts := without_parents [] (parts p)\<rparr>), globbed = (\<lambda>p. [])\<rparr>"

definition sample_workspace :: path where
  "sample_workspace = \<lparr>two_slashes = False, parts = [''instance'', ''workspace'']\<rparr>"


section \<open>What is let through\<close>


text \<open>A command that reads the names of its inputs from a file is a shell read when its program is wc, du,
  find or file, though it is none when its program is sort.
\<close>

theorem names_can_come_from_a_file:
  "is_shell_read plain_files ''wc --files0-from=list'' sample_workspace \<and>
   is_shell_read plain_files ''du --files0-from=list'' sample_workspace \<and>
   is_shell_read plain_files ''find -files0-from list'' sample_workspace \<and>
   is_shell_read plain_files ''file -f list'' sample_workspace \<and>
   \<not> is_shell_read plain_files ''sort --files0-from=list'' sample_workspace"
  by code_simp

end
