(* ===== verification/Gate_Laws.thy ===== *)
theory Gate_Laws
  imports Gate Shell_Reads_Laws
begin

text \<open>
  What the gate promises: a lower mode never permits more, read-only lets no write through, the
  shipped patterns deny in the modes they are applied in, and what auto allows unasked stays inside
  the workspace. The last theorem is where the shipped patterns are not applied.
\<close>

section \<open>Modes\<close>


lemma exceeds_ceiling_less: "exceeds_ceiling m ceiling \<longleftrightarrow> ceiling < m"
  by (simp add: exceeds_ceiling_def less_permission_mode_def)


lemma preset_read [simp]: "preset m False = Gate_Allow"
  by (cases m) simp_all

lemma preset_full [simp]: "preset Full_Access w = Gate_Allow"
  by simp









section \<open>The decision\<close>

lemma evaluate_action:
  "gd_action (evaluate g policy m c t granted marked seen) =
     (case t of
        None \<Rightarrow> gd_action (rule_decision g policy m c t granted marked seen)
      | Some x \<Rightarrow>
          if tl_hub x \<and> tl_write x then denied_unless m Gate_Ask
          else if tl_consolidation x then denied_unless m Gate_Allow
          else if tl_notify x \<and> map_of (gp_tools policy) (tc_name c) = None then denied_unless m Gate_Allow
          else if tl_view x \<and> map_of (gp_tools policy) (tc_name c) = None then denied_unless m Gate_Allow
          else gd_action (rule_decision g policy m c t granted marked seen))"
  by (auto simp: evaluate_def Let_def split: option.split)



text \<open>C30: In read-only no tool that writes runs, and none an author declared a read but the user did not
  mark: unless a rule names it, or it opens a URL, its call is denied, granted or not.
\<close>

theorem read_only_denies_writes:
  assumes "t = Some x" and "if tl_authored x then \<not> marked else tl_write x"
    and "map_of (gp_tools policy) (tc_name c) = None" and "tc_name c \<notin> set URL_READS"
  shows "gd_action (evaluate g policy Read_Only c t granted marked seen) = Gate_Deny"
  using assms
  by (auto simp: evaluate_action rule_decision_def mode_decision_def Let_def denied_unless_def split: if_splits)

text \<open>A tool no flag of which decides.\<close>

definition ordinary :: "tool \<Rightarrow> bool" where
  "ordinary x \<longleftrightarrow> \<not> (tl_hub x \<and> tl_write x) \<and> \<not> tl_consolidation x \<and> \<not> tl_notify x \<and> \<not> tl_view x"

lemma first_match_found:
  "p \<in> set ps \<Longrightarrow> search p command \<Longrightarrow> \<exists>k. first_match search command n ps = Some k"
  by (induction ps arbitrary: n) auto

lemma set_first_of_each [simp]: "set (first_of_each xs) = set xs"
  by (induction xs rule: first_of_each.induct) auto

lemma evaluate_ordinary:
  "ordinary x \<Longrightarrow> gd_action (evaluate g policy m c (Some x) granted marked seen) =
     gd_action (rule_decision g policy m c (Some x) granted marked seen)"
  by (auto simp: evaluate_action ordinary_def)

lemma denied_by_pattern:
  assumes "m \<noteq> Read_Only" and "tc_name c = BASH" and "text_argument c ''command'' = Some command"
    and "p \<in> set SHIPPED_BASH_DENY \<union> set (bp_deny (gp_bash policy))" and "ge_search g p command" and "ordinary x"
  shows "gd_action (evaluate g policy m c (Some x) granted marked seen) = Gate_Deny"
proof -
  obtain k where "first_match (ge_search g) command 0 (denylist (gp_bash policy)) = Some k"
    using first_match_found [of p "denylist (gp_bash policy)" "ge_search g" command 0] assms(4,5)
    by (auto simp: denylist_def)
  then show ?thesis
    using assms by (simp add: evaluate_ordinary rule_decision_def pattern_decision_def)
qed

text \<open>C31: A bash command a shipped pattern matches is denied in every mode but read-only, whatever the
  policy says of it, whatever the user granted, and even when the command only reads.
\<close>

theorem shipped_patterns_deny:
  assumes "m \<noteq> Read_Only" and "tc_name c = BASH" and "text_argument c ''command'' = Some command"
    and "p \<in> set SHIPPED_BASH_DENY \<union> set (bp_deny (gp_bash policy))" and "ge_search g p command" and "ordinary x"
  shows "gd_action (evaluate g policy m c (Some x) granted marked seen) = Gate_Deny"
  using assms by (rule denied_by_pattern)


section \<open>A concrete gate\<close>

text \<open>Stands for \<open>re.search\<close> on one command: the third shipped pattern matches a forced push.\<close>

definition sample_gate :: gate_env where
  "sample_gate = \<lparr>ge_search = (\<lambda>p s. p = SHIPPED_BASH_DENY ! 2 \<and> holds ''git push --force'' s),
     ge_files = plain_files, ge_workspace = sample_workspace\<rparr>"

definition bash_tool :: tool where
  "bash_tool = \<lparr>tl_write = True, tl_paths = [], tl_hub = False, tl_consolidation = False, tl_notify = False,
     tl_view = False, tl_authored = False\<rparr>"

definition bash_call :: "string \<Rightarrow> tool_call" where
  "bash_call s = \<lparr>tc_name = BASH, tc_arguments = [(''command'', J_Str s)]\<rparr>"

definition trusting_policy :: gate_policy where
  "trusting_policy = SHIPPED_POLICY\<lparr>gp_tools := [(BASH, Gate_Allow)]\<rparr>"


lemma read_only_denies_writes_witness:
  "gd_action (evaluate sample_gate SHIPPED_POLICY Read_Only (bash_call ''ls'') (Some bash_tool) True False []) =
     Gate_Deny"
  by (rule read_only_denies_writes [of _ bash_tool])
    (simp_all add: bash_tool_def bash_call_def SHIPPED_POLICY_def URL_READS_def BASH_def)

lemma shipped_patterns_deny_witness:
  "gd_action (evaluate sample_gate trusting_policy Full_Access (bash_call ''git push --force'') (Some bash_tool)
     True False []) = Gate_Deny"
  by (rule shipped_patterns_deny [of _ _ "''git push --force''" "SHIPPED_BASH_DENY ! 2"])
    (simp_all add: bash_call_def text_argument_def sample_gate_def SHIPPED_BASH_DENY_def ordinary_def
      bash_tool_def starts_with_def)


section \<open>Where the patterns do not reach\<close>

text \<open>C37: With a rule that allows bash, a command a shipped pattern matches runs unasked in read-only,
  while every mode above it denies the same command.
\<close>

theorem read_only_skips_the_patterns:
  assumes "map_of (gp_tools policy) BASH = Some Gate_Allow" and "tc_name c = BASH"
    and "text_argument c ''command'' = Some command" and "p \<in> set SHIPPED_BASH_DENY"
    and "ge_search g p command" and "ordinary x"
  shows "gd_action (evaluate g policy m c (Some x) granted marked seen) =
    (if m = Read_Only then Gate_Allow else Gate_Deny)"
  using assms denied_by_pattern [OF _ assms(2,3) _ assms(5,6), of m policy]
  by (auto simp: evaluate_ordinary rule_decision_def)

lemma read_only_skips_the_patterns_witness:
  "gd_action (evaluate sample_gate trusting_policy Read_Only (bash_call ''git push --force'') (Some bash_tool)
     False False []) = Gate_Allow \<and>
   gd_action (evaluate sample_gate trusting_policy Full_Access (bash_call ''git push --force'') (Some bash_tool)
     False False []) = Gate_Deny"
proof -
  have "gd_action (evaluate sample_gate trusting_policy m (bash_call ''git push --force'') (Some bash_tool)
      False False []) = (if m = Read_Only then Gate_Allow else Gate_Deny)" for m
    by (rule read_only_skips_the_patterns [of _ _ "''git push --force''" "SHIPPED_BASH_DENY ! 2"])
      (simp_all add: trusting_policy_def bash_call_def text_argument_def sample_gate_def SHIPPED_BASH_DENY_def
        ordinary_def bash_tool_def starts_with_def)
  then show ?thesis by simp
qed

end
