(* ===== verification/Notice_Laws.thy ===== *)
theory Notice_Laws
  imports Replies
begin

text \<open>
  The tables of channels, notifications, deliveries and replies keep their keys and references, and
  the tasks of the outbox and of the replies serve their rows: a row with work left has exactly one
  task, and a row that ended has none. What tasks need of their table is the locale
  \<open>served_table\<close>, which both tables give.
\<close>

section \<open>Keys and references\<close>

definition delivery_key :: "delivery_row \<Rightarrow> uuid \<times> uuid" where
  "delivery_key d = (dl_notification d, dl_channel d)"

definition raised_key :: "notification_row \<Rightarrow> uuid \<times> string" where
  "raised_key r = (nr_instance r, nr_key r)"

abbreviation channel_ids :: "notice_db \<Rightarrow> uuid set" where
  "channel_ids db \<equiv> cn_id ` set (channel_rows db)"

abbreviation notification_ids :: "notice_db \<Rightarrow> uuid set" where
  "notification_ids db \<equiv> nr_id ` set (notification_rows db)"

definition notice_ok :: "notice_db \<Rightarrow> bool" where
  "notice_ok db \<longleftrightarrow>
     distinct (map cn_id (channel_rows db)) \<and> distinct (mute_rows db) \<and>
     distinct (map nr_id (notification_rows db)) \<and> distinct (map raised_key (notification_rows db)) \<and>
     distinct (map delivery_key (delivery_rows db)) \<and> distinct (map rp_id (reply_rows db)) \<and>
     (\<forall>(c, _) \<in> set (mute_rows db). c \<in> channel_ids db) \<and>
     (\<forall>d \<in> set (delivery_rows db). dl_channel d \<in> channel_ids db \<and> dl_notification d \<in> notification_ids db) \<and>
     (\<forall>p \<in> set (reply_rows db). rp_notification p \<in> notification_ids db) \<and>
     (\<forall>p \<in> set (reply_rows db). \<forall>c. rp_channel p = Some c \<longrightarrow> c \<in> channel_ids db)"

lemma ball_row_update:
  assumes "\<And>r. q (f r) = q r"
  shows "(\<forall>r \<in> set (row_update p f rows). q r) \<longleftrightarrow> (\<forall>r \<in> set rows. q r)"
  using assms by (induction rows) auto

lemma set_channel_ok:
  assumes "notice_ok db" and "\<And>c. cn_id (f c) = cn_id c"
  shows "notice_ok (set_channel i f db)"
  using assms by (simp add: notice_ok_def set_channel_def table_simps)

lemma create_channel_ok:
  "notice_ok db \<Longrightarrow> create_channel db i name kind settings pair = Inr db' \<Longrightarrow> notice_ok db'"
  by (auto simp: notice_ok_def create_channel_def split: if_splits)

lemma update_channel_ok: "notice_ok db \<Longrightarrow> notice_ok (update_channel db i name enabled settings)"
  by (simp add: update_channel_def set_channel_ok)

lemma channel_sent_ok: "notice_ok db \<Longrightarrow> notice_ok (channel_sent db i at)"
  by (simp add: channel_sent_def set_channel_ok)

lemma channel_failed_ok: "notice_ok db \<Longrightarrow> notice_ok (channel_failed db i error at)"
  by (simp add: channel_failed_def set_channel_ok)

lemma pair_channel_ok: "notice_ok db \<Longrightarrow> notice_ok (pair_channel db i code user)"
  by (simp add: notice_ok_def pair_channel_def table_simps)

lemma delete_channel_ok:
  assumes "notice_ok db"
  shows "notice_ok (delete_channel db i)"
proof -
  let ?f = "row_update (\<lambda>r. rp_channel r = Some i) (\<lambda>r. r\<lparr>rp_channel := None\<rparr>) (reply_rows db)"
  have "map rp_id ?f = map rp_id (reply_rows db)" by (simp add: map_row_update)
  moreover have "(\<forall>p \<in> set ?f. rp_notification p \<in> notification_ids db) \<longleftrightarrow>
      (\<forall>p \<in> set (reply_rows db). rp_notification p \<in> notification_ids db)" by (rule ball_row_update) simp
  moreover have "\<forall>p \<in> set ?f. \<forall>c. rp_channel p = Some c \<longrightarrow> c \<in> channel_ids db \<and> c \<noteq> i"
    using assms by (auto simp: notice_ok_def set_row_update)
  moreover have "cn_id ` {x \<in> set (channel_rows db). cn_id x \<noteq> i} = channel_ids db - {i}" by auto
  ultimately show ?thesis
    using assms
    by (auto simp: notice_ok_def delete_channel_def row_delete_def distinct_map_filter)
qed

lemma mute_ok: "notice_ok db \<Longrightarrow> mute db i inst = Inr db' \<Longrightarrow> notice_ok db'"
  by (auto simp: notice_ok_def mute_def split: if_splits)

lemma unmute_ok: "notice_ok db \<Longrightarrow> notice_ok (unmute db i inst)"
  by (auto simp: notice_ok_def unmute_def row_delete_def)

lemma set_delivery_ok:
  assumes "notice_ok db" and "\<And>d. delivery_key (f d) = delivery_key d"
  shows "notice_ok (set_delivery n c f db)"
proof -
  have "\<And>d. dl_channel (f d) = dl_channel d" "\<And>d. dl_notification (f d) = dl_notification d"
    using assms(2) by (simp_all add: delivery_key_def)
  then show ?thesis using assms by (simp add: notice_ok_def set_delivery_def table_simps ball_row_update)
qed

lemma end_delivery_ok: "notice_ok db \<Longrightarrow> notice_ok (end_delivery db n c status ref error)"
  by (simp add: end_delivery_def set_delivery_ok delivery_key_def)

lemma delivery_retried_ok: "notice_ok db \<Longrightarrow> notice_ok (delivery_retried db n c error next_attempt)"
  by (simp add: delivery_retried_def set_delivery_ok delivery_key_def)

lemma set_reply_ok:
  assumes "notice_ok db" and "\<And>p. rp_id (f p) = rp_id p" "\<And>p. rp_notification (f p) = rp_notification p"
    "\<And>p. rp_channel (f p) = rp_channel p"
  shows "notice_ok (set_reply i f db)"
proof -
  have "\<forall>p \<in> set (row_update (\<lambda>p. rp_id p = i) f (reply_rows db)). \<forall>c. rp_channel p = Some c \<longrightarrow> c \<in> channel_ids db"
    using assms(1,4) by (auto simp: notice_ok_def set_row_update)
  then show ?thesis using assms(1-3) by (simp add: notice_ok_def set_reply_def table_simps ball_row_update)
qed

lemma reply_calling_ok: "notice_ok db \<Longrightarrow> notice_ok (reply_calling db i calling)"
  by (simp add: reply_calling_def set_reply_ok)

lemma settle_reply_ok: "notice_ok db \<Longrightarrow> notice_ok (settle_reply db i status outcome)"
  by (simp add: settle_reply_def set_reply_ok)

lemma record_reply_ok:
  "notice_ok db \<Longrightarrow> record_reply db i n c option_text at = Inr db' \<Longrightarrow> notice_ok db'"
  by (auto simp: notice_ok_def record_reply_def split: if_splits)

lemma notification_id_None:
  "notification_id db inst key = None \<longleftrightarrow> (inst, key) \<notin> raised_key ` set (notification_rows db)"
  by (auto simp: notification_id_def find_None_iff named_def raised_key_def)

lemma raise_notification_ok:
  assumes "notice_ok db" and "distinct (map fst deliveries)"
    and "raise_notification db inst key thread n approval stop at deliveries = Inr (db', i)"
  shows "notice_ok db'"
proof (cases "notification_id db inst key")
  case (Some j)
  then show ?thesis using assms by (simp add: raise_notification_def split: if_splits)
next
  case None
  then have db': "db' = db\<lparr>
      notification_rows := notification_rows db @ [notification_row_of inst key thread n approval stop at],
      delivery_rows := delivery_rows db @ map (new_delivery (cm_id n) at) deliveries\<rparr>"
    and new: "cm_id n \<notin> notification_ids db" and known: "fst ` set deliveries \<subseteq> channel_ids db"
    using assms(3) by (auto simp: raise_notification_def split: if_splits)
  have "distinct (map delivery_key (map (new_delivery (cm_id n) at) deliveries))"
    using assms(2) by (induction deliveries) (auto simp: delivery_key_def new_delivery_def)
  moreover have "delivery_key ` set (map (new_delivery (cm_id n) at) deliveries) \<inter> delivery_key ` set (delivery_rows db) = {}"
    using assms(1) new by (auto simp: notice_ok_def delivery_key_def new_delivery_def)
  ultimately have "distinct (map delivery_key (delivery_rows db'))"
    using assms(1) db' by (simp add: notice_ok_def Int_commute image_image)
  then show ?thesis
    using assms(1) db' new known None
    by (auto simp: notice_ok_def notification_id_None notification_row_of_def raised_key_def new_delivery_def)
qed

section \<open>Tasks that serve the rows of a table\<close>

text \<open>
  What tasks need of a table whose rows they work on: \<open>rows\<close> are the keys of its rows, \<open>due\<close> those
  with work left, and \<open>closing\<close> ends the work on one of them.
\<close>

locale served_table =
  fixes ok :: "'d \<Rightarrow> bool" and rows :: "'d \<Rightarrow> 'k list" and due :: "'d \<Rightarrow> 'k list"
    and closing :: "'k \<Rightarrow> 'x \<Rightarrow> 'd \<Rightarrow> 'd" and ends :: "'x \<Rightarrow> bool"
  assumes rows_distinct: "ok d \<Longrightarrow> distinct (rows d)"
    and due_rows: "k \<in> set (due d) \<Longrightarrow> k \<in> set (rows d)"
    and due_distinct: "ok d \<Longrightarrow> distinct (due d)"
    and closing_rows: "rows (closing k x d) = rows d"
    and closing_due: "ends x \<Longrightarrow> set (due (closing k x d)) = set (due d) - {k}"
begin

definition served :: "'d \<Rightarrow> 'k list \<Rightarrow> bool" where
  "served d ks \<longleftrightarrow> distinct ks \<and> (\<forall>k \<in> set (rows d). k \<in> set ks \<longleftrightarrow> k \<in> set (due d))"

lemma served_afresh: "ok d \<Longrightarrow> served d (due d)"
  by (simp add: served_def due_distinct)

lemma served_closing:
  assumes "served d (ks @ k # ks')" and "ends x"
  shows "served (closing k x d) (ks @ ks')"
  using assms by (auto simp: served_def closing_rows closing_due)

lemma served_same:
  assumes "served d ks" and "set (rows d') = set (rows d)" and "set (due d') = set (due d)"
  shows "served d' ks"
  using assms by (simp add: served_def)

text \<open>Rows that go away leave their tasks behind, which find no row to work on.\<close>

lemma served_fewer:
  assumes "served d ks" and "set (rows d') \<subseteq> set (rows d)" and "set (due d') = set (due d) \<inter> set (rows d')"
  shows "served d' ks"
  using assms by (auto simp: served_def)

lemma served_leaving:
  assumes "served d (ks @ k # ks')" and "k \<notin> set (rows d)"
  shows "served d (ks @ ks')"
  using assms by (auto simp: served_def)

text \<open>New rows get the tasks of those of them that have work.\<close>

lemma served_more:
  assumes "served d ks" and "set (rows d') = set (rows d) \<union> new" and "set (due d') = set (due d) \<union> set js"
    and "distinct js" and "set js \<subseteq> new" and "new \<inter> (set ks \<union> set (rows d)) = {}"
  shows "served d' (ks @ js)"
  using assms by (auto simp: served_def dest: due_rows)

lemma one_task_each:
  assumes "served d ks" and "k \<in> set (rows d)"
  shows "count_list ks k = (if k \<in> set (due d) then 1 else 0)"
proof -
  have "distinct ks \<Longrightarrow> count_list ks k = (if k \<in> set ks then 1 else 0)"
    by (induction ks) auto
  then show ?thesis using assms by (simp add: served_def)
qed

end

text \<open>The deliveries, and the ways one ends.\<close>

definition due_deliveries :: "notice_db \<Rightarrow> (uuid \<times> uuid) list" where
  "due_deliveries db = map delivery_key (filter (\<lambda>d. dl_status d = Delivery_Pending) (delivery_rows db))"

definition ended_delivery :: "uuid \<times> uuid \<Rightarrow> string + string \<Rightarrow> notice_db \<Rightarrow> notice_db" where
  "ended_delivery k x db =
     (case x of Inl error \<Rightarrow> delivery_failed db (fst k) (snd k) error | Inr ref \<Rightarrow> delivery_sent db (fst k) (snd k) ref)"

lemma end_delivery_rows:
  "map delivery_key (delivery_rows (end_delivery db n c status ref error)) = map delivery_key (delivery_rows db)"
  by (simp add: end_delivery_def set_delivery_def map_row_update delivery_key_def)

lemma due_after_end:
  assumes "\<And>r. key (f r) = key r" and "\<And>r. \<not> p (f r)"
  shows "set (map key (filter p (row_update (\<lambda>r. key r = k) f xs))) = set (map key (filter p xs)) - {k}"
  using assms by (induction xs) auto

lemma end_delivery_due:
  "status \<noteq> Delivery_Pending \<Longrightarrow>
     set (due_deliveries (end_delivery db n c status ref error)) = set (due_deliveries db) - {(n, c)}"
  using due_after_end [of delivery_key "\<lambda>d. d\<lparr>dl_status := status, dl_sent_ref := ref,
      dl_last_error := (case error of None \<Rightarrow> dl_last_error d | Some e \<Rightarrow> Some e)\<rparr>"
      "\<lambda>d. dl_status d = Delivery_Pending" "(n, c)" "delivery_rows db"]
  by (simp add: due_deliveries_def end_delivery_def set_delivery_def delivery_key_def)

interpretation deliveries: served_table notice_ok "\<lambda>db. map delivery_key (delivery_rows db)" due_deliveries
  ended_delivery "\<lambda>_. True"
proof
  fix db k and x :: "string + string"
  show "notice_ok db \<Longrightarrow> distinct (map delivery_key (delivery_rows db))" by (simp add: notice_ok_def)
  show "k \<in> set (due_deliveries db) \<Longrightarrow> k \<in> set (map delivery_key (delivery_rows db))"
    by (auto simp: due_deliveries_def)
  show "notice_ok db \<Longrightarrow> distinct (due_deliveries db)"
    by (simp add: notice_ok_def due_deliveries_def distinct_map_filter)
  show "map delivery_key (delivery_rows (ended_delivery k x db)) = map delivery_key (delivery_rows db)"
    by (simp add: ended_delivery_def delivery_failed_def delivery_sent_def end_delivery_rows split: sum.split)
  show "set (due_deliveries (ended_delivery k x db)) = set (due_deliveries db) - {k}"
    by (simp add: ended_delivery_def delivery_failed_def delivery_sent_def end_delivery_due split: sum.split)
qed

text \<open>The replies, and the ways one is settled.\<close>

definition due_replies :: "notice_db \<Rightarrow> uuid list" where
  "due_replies db = map rp_id (filter (\<lambda>p. rp_status p = Reply_Received) (reply_rows db))"

definition settled_reply :: "uuid \<Rightarrow> reply_status \<times> string \<Rightarrow> notice_db \<Rightarrow> notice_db" where
  "settled_reply i x db = settle_reply db i (fst x) (snd x)"

interpretation replies: served_table notice_ok "\<lambda>db. map rp_id (reply_rows db)" due_replies settled_reply
  "\<lambda>x. fst x \<noteq> Reply_Received"
proof
  fix db k and x :: "reply_status \<times> string"
  show "notice_ok db \<Longrightarrow> distinct (map rp_id (reply_rows db))" by (simp add: notice_ok_def)
  show "k \<in> set (due_replies db) \<Longrightarrow> k \<in> set (map rp_id (reply_rows db))" by (auto simp: due_replies_def)
  show "notice_ok db \<Longrightarrow> distinct (due_replies db)"
    by (simp add: notice_ok_def due_replies_def distinct_map_filter)
  show "map rp_id (reply_rows (settled_reply k x db)) = map rp_id (reply_rows db)"
    by (simp add: settled_reply_def settle_reply_def set_reply_def map_row_update)
  show "fst x \<noteq> Reply_Received \<Longrightarrow> set (due_replies (settled_reply k x db)) = set (due_replies db) - {k}"
    using due_after_end [of rp_id "\<lambda>p. p\<lparr>rp_status := fst x, rp_outcome := Some (snd x)\<rparr>"
        "\<lambda>p. rp_status p = Reply_Received" k "reply_rows db"]
    by (simp add: settled_reply_def due_replies_def settle_reply_def set_reply_def)
qed

end
