(* ===== verification/Mail_System.thy ===== *)
theory Mail_System
  imports Notice_Laws
begin

text \<open>
  The outbox and the replies on one registry, as one system: what instances, the hub and the user ask
  of them, what their tasks do, changes of the registry's instances, and the end of the hub process
  at any moment between two of these, after which it starts anew on what the tables hold. The log
  keeps what was asked for each reply and what came of it, for statements about the past.
\<close>

datatype reply_event = Asked uuid ask | Ask_Over uuid ask_end

record mail =
  ml_post :: post
  ml_replies :: "reply_task list"
  ml_log :: "reply_event list"

abbreviation ml_db :: "mail \<Rightarrow> notice_db" where
  "ml_db m \<equiv> po_db (ml_post m)"

definition on_post :: "(post \<Rightarrow> post) \<Rightarrow> mail \<Rightarrow> mail" where
  "on_post f m = m\<lparr>ml_post := f (ml_post m)\<rparr>"

definition on_table :: "(notice_db \<Rightarrow> notice_db) \<Rightarrow> mail \<Rightarrow> mail" where
  "on_table f m = on_post (\<lambda>p. p\<lparr>po_db := f (po_db p)\<rparr>) m"

definition desk_of :: "mail \<Rightarrow> desk" where
  "desk_of m = \<lparr>dk_db = ml_db m, dk_tasks = ml_replies m\<rparr>"

definition on_desk :: "(desk \<Rightarrow> desk) \<Rightarrow> mail \<Rightarrow> mail" where
  "on_desk f m =
     (let d = f (desk_of m) in (on_table (\<lambda>_. dk_db d) m)\<lparr>ml_replies := dk_tasks d\<rparr>)"

text \<open>A statement of the registry that fails leaves its tables alone.\<close>

definition unless_refused :: "(notice_db \<Rightarrow> hub_error + notice_db) \<Rightarrow> notice_db \<Rightarrow> notice_db" where
  "unless_refused f db = (case f db of Inl _ \<Rightarrow> db | Inr db' \<Rightarrow> db')"

text \<open>What happens to the outbox and the replies, each with the clock it reads.\<close>

datatype mail_event =
    Instance_Raises uuid uuid raise_command
  | Hub_Notifies uuid uuid string notice_content
  | Sleep_Ends nat
  | Send_Ends nat "string + string"
  | Channel_Created uuid string string "(string, step_value) dict" "pairing option"
  | Channel_Updated uuid string bool "(string, step_value) dict"
  | Channel_Deleted uuid
  | Channel_Paired uuid string string
  | Channel_Muted uuid uuid
  | Channel_Unmuted uuid uuid
  | Channel_Tested uuid "string option"
  | Web_Reply uuid uuid string
  | Channel_Reply uuid uuid string int
  | Reply_Turn nat
  | Ask_Ends nat ask_end
  | Registry_Changes hub_db

definition asked_now :: "nat \<Rightarrow> reply_task list \<Rightarrow> reply_task list \<Rightarrow> reply_event list" where
  "asked_now k ts ts' =
     (if k < length ts \<and> k < length ts'
      then (case (ts ! k, ts' ! k) of
              (Applying _ _ _, Asking r _ a) \<Rightarrow> [Asked (rv_id r) a] | _ \<Rightarrow> [])
      else [])"

definition ended_now :: "nat \<Rightarrow> ask_end \<Rightarrow> reply_task list \<Rightarrow> reply_event list" where
  "ended_now k result ts =
     (if k < length ts then (case ts ! k of Asking r _ _ \<Rightarrow> [Ask_Over (rv_id r) result] | _ \<Rightarrow> []) else [])"

text \<open>What the hub itself raises comes from no thread and asks for no approval.\<close>

definition from_hub :: "notice_content \<Rightarrow> notice_content" where
  "from_hub content = content\<lparr>ct_thread := None, ct_approval := None\<rparr>"

fun happens :: "post_env \<Rightarrow> moment \<Rightarrow> mail_event \<Rightarrow> mail \<Rightarrow> mail" where
  "happens pv now (Instance_Raises i inst c) m = on_post (\<lambda>p. snd (raise_for pv now i inst c p)) m"
| "happens pv now (Hub_Notifies i inst key content) m =
     on_post (\<lambda>p. snd (notify pv now i inst key (from_hub content) p)) m"
| "happens pv now (Sleep_Ends k) m = on_post (task_wakes pv now k) m"
| "happens pv now (Send_Ends k sent) m = on_post (send_ends now k sent) m"
| "happens pv now (Channel_Created i name kind settings pair) m =
     on_table (unless_refused (\<lambda>db. create_channel db i name kind settings pair)) m"
| "happens pv now (Channel_Updated i name enabled settings) m =
     on_table (\<lambda>db. update_channel db i name enabled settings) m"
| "happens pv now (Channel_Deleted i) m = on_table (\<lambda>db. delete_channel db i) m"
| "happens pv now (Channel_Paired i code user) m = on_table (\<lambda>db. pair_channel db i code user) m"
| "happens pv now (Channel_Muted i inst) m = on_table (unless_refused (\<lambda>db. mute db i inst)) m"
| "happens pv now (Channel_Unmuted i inst) m = on_table (\<lambda>db. unmute db i inst) m"
| "happens pv now (Channel_Tested i failed) m =
     on_table (\<lambda>db. case failed of None \<Rightarrow> channel_sent db i now | Some e \<Rightarrow> channel_failed db i e now) m"
| "happens pv now (Web_Reply r n option_text) m = on_desk (\<lambda>d. snd (reply_from_web now r n option_text d)) m"
| "happens pv now (Channel_Reply r c message pick) m = on_desk (\<lambda>d. snd (take_reply now r c message pick d)) m"
| "happens pv now (Reply_Turn k) m =
     (let m' = on_desk (reply_turn now k) m
      in m'\<lparr>ml_log := ml_log m @ asked_now k (ml_replies m) (ml_replies m')\<rparr>)"
| "happens pv now (Ask_Ends k result) m =
     (on_desk (ask_answered now k result) m)\<lparr>ml_log := ml_log m @ ended_now k result (ml_replies m)\<rparr>"
| "happens pv now (Registry_Changes h) m = on_post (\<lambda>p. p\<lparr>po_hub := h\<rparr>) m"

text \<open>The hub process ends, and the next one takes up what the tables hold.\<close>

definition started_again :: "moment \<Rightarrow> mail \<Rightarrow> mail" where
  "started_again now m =
     on_desk (resume_replies now) (on_post resume_outbox
       (m\<lparr>ml_post := (ml_post m)\<lparr>po_tasks := []\<rparr>, ml_replies := []\<rparr>))"

definition empty_notices :: notice_db where
  "empty_notices = \<lparr>channel_rows = [], mute_rows = [], notification_rows = [], delivery_rows = [], reply_rows = []\<rparr>"

definition first_mail :: "hub_db \<Rightarrow> mail" where
  "first_mail h = \<lparr>ml_post = \<lparr>po_db = empty_notices, po_hub = h, po_tasks = []\<rparr>, ml_replies = [], ml_log = []\<rparr>"

inductive mail_step :: "post_env \<Rightarrow> mail \<Rightarrow> mail \<Rightarrow> bool" for pv where
  event: "mail_step pv m (happens pv now ev m)"
| restart: "mail_step pv m (started_again now m)"

inductive mail_reachable :: "post_env \<Rightarrow> mail \<Rightarrow> bool" for pv where
  start: "mail_reachable pv (first_mail h)"
| step: "mail_reachable pv m \<Longrightarrow> mail_step pv m m' \<Longrightarrow> mail_reachable pv m'"

inductive_cases mail_stepE: "mail_step pv m m'"

text \<open>A run of events, each with its clock, for concrete states.\<close>

fun happen_all :: "post_env \<Rightarrow> (moment \<times> mail_event) list \<Rightarrow> mail \<Rightarrow> mail" where
  "happen_all pv [] m = m"
| "happen_all pv ((now, ev) # evs) m = happen_all pv evs (happens pv now ev m)"

lemma happen_all_reachable: "mail_reachable pv m \<Longrightarrow> mail_reachable pv (happen_all pv evs m)"
  by (induction pv evs m rule: happen_all.induct) (auto intro: mail_reachable.step mail_step.event)

section \<open>What an event leaves alone\<close>

lemma on_post_simps [simp]:
  "ml_post (on_post f m) = f (ml_post m)" "ml_replies (on_post f m) = ml_replies m" "ml_log (on_post f m) = ml_log m"
  by (simp_all add: on_post_def)

lemma on_table_simps [simp]:
  "ml_db (on_table f m) = f (ml_db m)" "po_tasks (ml_post (on_table f m)) = po_tasks (ml_post m)"
  "po_hub (ml_post (on_table f m)) = po_hub (ml_post m)"
  "ml_replies (on_table f m) = ml_replies m" "ml_log (on_table f m) = ml_log m"
  by (simp_all add: on_table_def)

lemma on_desk_simps [simp]:
  "ml_db (on_desk f m) = dk_db (f (desk_of m))" "ml_replies (on_desk f m) = dk_tasks (f (desk_of m))"
  "po_tasks (ml_post (on_desk f m)) = po_tasks (ml_post m)" "po_hub (ml_post (on_desk f m)) = po_hub (ml_post m)"
  "ml_log (on_desk f m) = ml_log m"
  by (simp_all add: on_desk_def Let_def)

lemma desk_of_simps [simp]: "dk_db (desk_of m) = ml_db m" "dk_tasks (desk_of m) = ml_replies m"
  by (simp_all add: desk_of_def)

lemma unless_refused_cases: "unless_refused f db = db \<or> f db = Inr (unless_refused f db)"
  by (cases "f db") (simp_all add: unless_refused_def)

end
