(* ===== verification/Mail_Laws.thy ===== *)
theory Mail_Laws
  imports Mail_System
begin

text \<open>
  What holds of the outbox and the replies in every reachable state: their tables keep their keys and
  references, every delivery that is pending and every reply that is not settled has exactly one
  task, and no other has one.
\<close>

section \<open>The keys of tasks\<close>

definition pending_key :: "pending_delivery \<Rightarrow> uuid \<times> uuid" where
  "pending_key d = (cm_id (pe_notification d), pe_channel d)"

definition task_key :: "delivery_task \<Rightarrow> uuid \<times> uuid" where
  "task_key t = (case t of Sleeping d _ _ \<Rightarrow> pending_key d | Sending_On d _ _ \<Rightarrow> pending_key d)"

definition reply_of_task :: "reply_task \<Rightarrow> received_reply" where
  "reply_of_task t = (case t of Applying r _ _ \<Rightarrow> r | Asking r _ _ \<Rightarrow> r)"

abbreviation reply_key :: "reply_task \<Rightarrow> uuid" where
  "reply_key t \<equiv> rv_id (reply_of_task t)"

lemma task_key_simps [simp]:
  "task_key (Sleeping d a t) = pending_key d" "task_key (Sending_On d a msg) = pending_key d"
  by (simp_all add: task_key_def)

lemma reply_of_task_simps [simp]:
  "reply_of_task (Applying r a t) = r" "reply_of_task (Asking r a x) = r"
  by (simp_all add: reply_of_task_def)

abbreviation reply_ids :: "notice_db \<Rightarrow> uuid set" where
  "reply_ids db \<equiv> rp_id ` set (reply_rows db)"

abbreviation task_keys :: "post \<Rightarrow> (uuid \<times> uuid) list" where
  "task_keys p \<equiv> map task_key (po_tasks p)"

definition deliveries_ok :: "post \<Rightarrow> bool" where
  "deliveries_ok p \<longleftrightarrow> notice_ok (po_db p) \<and> deliveries.served (po_db p) (task_keys p) \<and>
     (\<forall>k \<in> set (task_keys p). fst k \<in> notification_ids (po_db p))"

definition replies_ok :: "notice_db \<Rightarrow> reply_task list \<Rightarrow> bool" where
  "replies_ok db ts \<longleftrightarrow> notice_ok db \<and> replies.served db (map reply_key ts) \<and>
     set (map reply_key ts) \<subseteq> reply_ids db"

section \<open>The tasks a start makes\<close>

lemma notification_by_id_known:
  "i \<in> notification_ids db \<Longrightarrow> \<exists>r. notification_by_id db i = Some r \<and> nr_id r = i"
  by (cases "notification_by_id db i") (auto simp: notification_by_id_def find_None_iff dest!: find_Some_key)

lemma pending_keys:
  assumes "notice_ok db"
  shows "map pending_key (pending_deliveries db only) =
    filter (\<lambda>k. only = None \<or> only = Some (fst k)) (due_deliveries db)"
proof -
  have "\<forall>d \<in> set ds. dl_notification d \<in> notification_ids db \<Longrightarrow>
      map pending_key (concat (map (\<lambda>d. case notification_by_id db (dl_notification d) of
         None \<Rightarrow> []
       | Some r \<Rightarrow> [\<lparr>pe_notification = message_of r, pe_channel = dl_channel d, pe_raised = nr_raised r,
                     pe_attempts = dl_attempts d, pe_next = dl_next d\<rparr>])
       (filter (\<lambda>d. dl_status d = Delivery_Pending \<and> (only = None \<or> only = Some (dl_notification d))) ds))) =
      filter (\<lambda>k. only = None \<or> only = Some (fst k))
        (map delivery_key (filter (\<lambda>d. dl_status d = Delivery_Pending) ds))" for ds
  proof (induction ds)
    case (Cons d ds)
    obtain r where "notification_by_id db (dl_notification d) = Some r" "nr_id r = dl_notification d"
      using Cons.prems notification_by_id_known [of "dl_notification d" db] by auto
    then show ?case using Cons by (auto simp: pending_key_def delivery_key_def message_of_def)
  qed simp
  then show ?thesis using assms by (auto simp: pending_deliveries_def due_deliveries_def notice_ok_def)
qed

lemma received_keys:
  assumes "notice_ok db"
  shows "map rv_id (received_replies db only) = filter (\<lambda>i. only = None \<or> only = Some i) (due_replies db)"
proof -
  have "\<forall>p \<in> set ps. rp_notification p \<in> notification_ids db \<Longrightarrow>
      map rv_id (concat (map (\<lambda>p. case notification_by_id db (rp_notification p) of
         None \<Rightarrow> []
       | Some r \<Rightarrow> [\<lparr>rv_id = rp_id p, rv_notification = message_of r, rv_instance = nr_instance r,
           rv_thread = nr_thread r, rv_option = rp_option p, rv_received = rp_received p,
           rv_channel = rp_channel p, rv_message = answered_message db p, rv_calling = rp_calling p,
           rv_approval = nr_approval r, rv_stop = nr_stop r\<rparr>])
       (filter (\<lambda>p. rp_status p = Reply_Received \<and> (only = None \<or> only = Some (rp_id p))) ps))) =
      filter (\<lambda>i. only = None \<or> only = Some i) (map rp_id (filter (\<lambda>p. rp_status p = Reply_Received) ps))" for ps
  proof (induction ps)
    case (Cons p ps)
    obtain r where "notification_by_id db (rp_notification p) = Some r"
      using Cons.prems notification_by_id_known [of "rp_notification p" db] by auto
    then show ?case using Cons by auto
  qed simp
  then show ?thesis using assms by (auto simp: received_replies_def due_replies_def notice_ok_def)
qed

lemma start_deliveries_simps [simp]:
  "po_db (start_deliveries ds p) = po_db p" "po_hub (start_deliveries ds p) = po_hub p"
  "task_keys (start_deliveries ds p) = task_keys p @ map pending_key ds"
  by (simp_all add: start_deliveries_def)

lemma start_replies_simps [simp]:
  "dk_db (start_replies rs now d) = dk_db d"
  "map reply_key (dk_tasks (start_replies rs now d)) = map reply_key (dk_tasks d) @ map rv_id rs"
  by (simp_all add: start_replies_def)

section \<open>Frames\<close>

lemma delivery_frames [simp]:
  "delivery_rows (set_channel i fc db) = delivery_rows db" "notification_rows (set_channel i fc db) = notification_rows db"
  "delivery_rows (set_reply i fr db) = delivery_rows db" "notification_rows (set_reply i fr db) = notification_rows db"
  "notification_rows (set_delivery n c fd db) = notification_rows db"
  "reply_rows (set_channel i fc db) = reply_rows db" "reply_rows (set_delivery n c fd db) = reply_rows db"
  by (simp_all add: set_channel_def set_reply_def set_delivery_def)

text \<open>Statements that leave the deliveries and the notifications, or the replies, as they were.\<close>

definition same_deliveries :: "notice_db \<Rightarrow> notice_db \<Rightarrow> bool" where
  "same_deliveries db db' \<longleftrightarrow> delivery_rows db' = delivery_rows db \<and> notification_rows db' = notification_rows db"

definition same_replies :: "notice_db \<Rightarrow> notice_db \<Rightarrow> bool" where
  "same_replies db db' \<longleftrightarrow> map rp_id (reply_rows db') = map rp_id (reply_rows db) \<and>
     map rp_status (reply_rows db') = map rp_status (reply_rows db)"

lemma same_due_replies:
  assumes "same_replies db db'"
  shows "due_replies db' = due_replies db"
proof -
  have *: "map rp_id ps = map rp_id qs \<Longrightarrow> map rp_status ps = map rp_status qs \<Longrightarrow>
      map rp_id (filter (\<lambda>p. rp_status p = Reply_Received) ps) =
      map rp_id (filter (\<lambda>p. rp_status p = Reply_Received) qs)" for ps qs
    by (induction ps arbitrary: qs) auto
  show ?thesis using assms * [of "reply_rows db'" "reply_rows db"] by (simp add: same_replies_def due_replies_def)
qed

lemma deliveries_ok_same:
  assumes "deliveries_ok p" and "notice_ok (po_db p')" and "same_deliveries (po_db p) (po_db p')"
    and "task_keys p' = task_keys p"
  shows "deliveries_ok p'"
  using assms unfolding deliveries_ok_def same_deliveries_def
  by (auto simp: due_deliveries_def intro: deliveries.served_same)

lemma replies_ok_same:
  assumes "replies_ok db ts" and "notice_ok db'" and "same_replies db db'" and "map reply_key ts' = map reply_key ts"
  shows "replies_ok db' ts'"
proof -
  have rows: "map rp_id (reply_rows db') = map rp_id (reply_rows db)" using assms(3) by (simp add: same_replies_def)
  have "replies.served db' (map reply_key ts)"
    by (rule replies.served_same [of db]) (use assms(1,3) same_due_replies rows in \<open>auto simp: replies_ok_def\<close>)
  moreover have "reply_ids db' = reply_ids db" using rows by (metis set_map)
  ultimately show ?thesis using assms by (simp add: replies_ok_def)
qed

section \<open>Raising\<close>

lemma raise_new:
  assumes "raise_notification db inst key thread n approval stop at ds = Inr (db', i)"
  shows "(db' = db \<and> notification_id db inst key = Some i \<and> i \<noteq> cm_id n) \<or>
    (i = cm_id n \<and> i \<notin> notification_ids db \<and> notification_id db inst key = None \<and>
     db' = db\<lparr>notification_rows := notification_rows db @ [notification_row_of inst key thread n approval stop at],
       delivery_rows := delivery_rows db @ map (new_delivery i at) ds\<rparr>)"
proof (cases "notification_id db inst key")
  case (Some j)
  then obtain r where "find (named inst key) (notification_rows db) = Some r" "j = nr_id r"
    by (auto simp: notification_id_def)
  then have "j \<in> notification_ids db" by (auto simp: find_Some_iff)
  moreover have "cm_id n \<notin> notification_ids db"
    using assms by (auto simp: raise_notification_def split: if_splits)
  ultimately have "j \<noteq> cm_id n" by metis
  then show ?thesis using assms Some by (simp add: raise_notification_def split: if_splits)
next
  case None
  then show ?thesis using assms by (auto simp: raise_notification_def split: if_splits)
qed

lemma statuses_distinct: "notice_ok db \<Longrightarrow> distinct (map fst (delivery_statuses db inst))"
  by (auto simp: notice_ok_def delivery_statuses_def channels_def channel_record_of_def comp_def filter_map
      distinct_map_filter)

lemma started_for_new:
  assumes ok: "deliveries_ok p" and db': "notice_ok db'" and new: "i \<notin> notification_ids (po_db p)"
    and rows: "delivery_rows db' = delivery_rows (po_db p) @ map (new_delivery i at) ds"
    and known: "notification_ids db' = insert i (notification_ids (po_db p))"
  shows "deliveries_ok (start_deliveries (pending_deliveries db' (Some i)) (p\<lparr>po_db := db'\<rparr>))"
proof -
  let ?old = "map delivery_key (delivery_rows (po_db p))" and ?new = "delivery_key ` new_delivery i at ` set ds"
  let ?js = "filter (\<lambda>k. Some i = Some (fst k)) (due_deliveries db')"
  have of_i: "fst k = i" if "k \<in> ?new" for k using that by (auto simp: delivery_key_def new_delivery_def)
  have not_i: "fst k \<noteq> i" if "k \<in> set ?old" for k
    using that ok new by (auto simp: deliveries_ok_def notice_ok_def delivery_key_def)
  have due': "due_deliveries db' = due_deliveries (po_db p) @
      map delivery_key (filter (\<lambda>d. dl_status d = Delivery_Pending) (map (new_delivery i at) ds))"
    by (simp add: due_deliveries_def rows)
  have due_old: "fst k \<noteq> i" if "k \<in> set (due_deliveries (po_db p))" for k
    using that not_i deliveries.due_rows by blast
  have "deliveries.served db' (task_keys p @ ?js)"
  proof (rule deliveries.served_more [of "po_db p" "task_keys p" db' ?new ?js])
    show "deliveries.served (po_db p) (task_keys p)" using ok by (simp add: deliveries_ok_def)
    show "set (map delivery_key (delivery_rows db')) = set ?old \<union> ?new" by (simp add: rows image_image)
    show "set (due_deliveries db') = set (due_deliveries (po_db p)) \<union> set ?js"
    proof -
      have "\<forall>k \<in> set (map delivery_key (filter (\<lambda>d. dl_status d = Delivery_Pending) (map (new_delivery i at) ds))).
          fst k = i" by (auto simp: delivery_key_def new_delivery_def)
      then show ?thesis using due_old unfolding due' by auto
    qed
    show "distinct ?js" using db' deliveries.due_distinct by simp
    show "set ?js \<subseteq> ?new" using due_old unfolding due' by auto
    show "?new \<inter> (set (task_keys p) \<union> set ?old) = {}"
    proof -
      have "fst k \<noteq> i" if "k \<in> set (task_keys p)" for k
        using that ok new by (auto simp: deliveries_ok_def)
      then show ?thesis using of_i not_i by blast
    qed
  qed
  moreover have "map pending_key (pending_deliveries db' (Some i)) = ?js"
    by (simp add: pending_keys [OF db'])
  moreover have "\<forall>k \<in> set ?js. fst k \<in> notification_ids db'" using known by simp
  ultimately show ?thesis using ok db' known by (simp add: deliveries_ok_def) blast
qed

lemma notify_cases:
  fixes p pv now i inst key content
  defines "p' \<equiv> snd (notify pv now i inst key content p)"
  obtains "p' = p"
  | m where "fst (notify pv now i inst key content p) = Inr i"
      "i \<notin> notification_ids (po_db p)" "notification_id (po_db p) inst key = None" "cm_id m = i"
      "p' = start_deliveries (pending_deliveries (po_db p') (Some i)) (p\<lparr>po_db := po_db p'\<rparr>)"
      "po_db p' = (po_db p)\<lparr>
         notification_rows := notification_rows (po_db p) @
           [notification_row_of inst key (ct_thread content) m (ct_approval content) (ct_stop content) now],
         delivery_rows := delivery_rows (po_db p) @
           map (new_delivery i now) (delivery_statuses (po_db p) inst)\<rparr>"
      "raise_notification (po_db p) inst key (ct_thread content) m (ct_approval content) (ct_stop content)
         now (delivery_statuses (po_db p) inst) = Inr (po_db p', i)"
proof (cases "instance_record (po_hub p) inst")
  case None
  then show ?thesis using that(1) by (simp add: p'_def notify_def)
next
  case (Some rec)
  define m where "m = \<lparr>cm_id = i, cm_header = name_of_instance rec @ '' '' @ [MIDDLE_DOT] @ '' '' @ ct_source content,
      cm_title = ct_title content, cm_text = ct_text content,
      cm_link = map_option (\<lambda>url. url @ ct_page content) (pv_public_url pv), cm_options = ct_options content\<rparr>"
  have id: "cm_id m = i" by (simp add: m_def)
  show ?thesis
  proof (cases "raise_notification (po_db p) inst key (ct_thread content) m (ct_approval content) (ct_stop content)
      now (delivery_statuses (po_db p) inst)")
    case (Inl err)
    then show ?thesis using that(1) Some by (simp add: p'_def notify_def m_def Let_def)
  next
    case (Inr r)
    obtain db' j where r: "r = (db', j)" by (cases r)
    have p': "p' = (if j = i then start_deliveries (pending_deliveries db' (Some j)) (p\<lparr>po_db := db'\<rparr>) else p\<lparr>po_db := db'\<rparr>)"
      "fst (notify pv now i inst key content p) = Inr j"
      using Some Inr r by (simp_all add: p'_def notify_def m_def Let_def)
    from raise_new [OF Inr [unfolded r]] show ?thesis
    proof
      assume "db' = po_db p \<and> notification_id (po_db p) inst key = Some j \<and> j \<noteq> cm_id m"
      then show ?thesis using that(1) p' id by simp
    next
      assume new: "j = cm_id m \<and> j \<notin> notification_ids (po_db p) \<and> notification_id (po_db p) inst key = None \<and>
        db' = (po_db p)\<lparr>notification_rows := notification_rows (po_db p) @
          [notification_row_of inst key (ct_thread content) m (ct_approval content) (ct_stop content) now],
          delivery_rows := delivery_rows (po_db p) @ map (new_delivery j now) (delivery_statuses (po_db p) inst)\<rparr>"
      then have "po_db p' = db'" using p'(1) id by simp
      show ?thesis
      proof (rule that(2) [of m])
        show "i \<notin> notification_ids (po_db p)" using new id by metis
      qed (use \<open>po_db p' = db'\<close> new p' id Inr r in simp_all)
    qed
  qed
qed

lemma notify_ok:
  assumes "deliveries_ok p"
  shows "deliveries_ok (snd (notify pv now i inst key content p))"
proof (cases rule: notify_cases [of pv now i inst key content p])
  case 1
  then show ?thesis using assms by simp
next
  case (2 m)
  let ?p = "snd (notify pv now i inst key content p)"
  have "notice_ok (po_db ?p)"
    using raise_notification_ok [OF _ statuses_distinct 2(7)] assms by (simp add: deliveries_ok_def)
  from started_for_new [OF assms this 2(2)] show ?thesis
    using 2(4-6) by (simp add: notification_row_of_def)
qed

lemma notify_reply_rows: "reply_rows (po_db (snd (notify pv now i inst key content p))) = reply_rows (po_db p)"
  by (cases rule: notify_cases [of pv now i inst key content p]) simp_all

lemma snd_told_apart: "snd (case r of (Inl err, q) \<Rightarrow> (Inl (f err), q) | (Inr x, q) \<Rightarrow> (Inl (g x), q)) = snd r"
  by (auto split: prod.split sum.split)

lemma raise_for_cases:
  obtains "snd (raise_for pv now i inst c p) = p"
  | key content where "snd (raise_for pv now i inst c p) = snd (notify pv now i inst key content p)"
  by (cases "instance_record (po_hub p) inst"; cases "notification_id (po_db p) inst (rc_key c)";
    cases "over_cap (po_db p) now inst c")
    (simp_all add: raise_for_def snd_told_apart that)

lemma raise_for_ok: "deliveries_ok p \<Longrightarrow> deliveries_ok (snd (raise_for pv now i inst c p))"
  by (cases rule: raise_for_cases [of pv now i inst c p]) (simp_all add: notify_ok)

lemma raise_for_reply_rows: "reply_rows (po_db (snd (raise_for pv now i inst c p))) = reply_rows (po_db p)"
  by (cases rule: raise_for_cases [of pv now i inst c p]) (simp_all add: notify_reply_rows)

section \<open>Delivering\<close>

lemma at_place: "k < length xs \<Longrightarrow> xs = take k xs @ xs ! k # drop (Suc k) xs"
  by (rule id_take_nth_drop)

lemma drop_task_simps [simp]:
  "po_db (drop_task k p) = po_db p" "po_hub (drop_task k p) = po_hub p"
  "task_keys (drop_task k p) = take k (task_keys p) @ drop (Suc k) (task_keys p)"
  by (simp_all add: drop_task_def take_map drop_map)

lemma set_task_simps [simp]:
  "po_db (set_task k t p) = po_db p" "po_hub (set_task k t p) = po_hub p"
  "task_keys (set_task k t p) = (task_keys p)[k := task_key t]"
  by (simp_all add: set_task_def map_update)

lemma drop_keys: "set (take k xs @ drop (Suc k) xs) \<subseteq> set xs"
  by (auto dest: in_set_takeD in_set_dropD)

text \<open>A task ends as its delivery does, or because its delivery is gone.\<close>

lemma ended_ok:
  assumes ok: "deliveries_ok p" and k: "k < length (po_tasks p)"
    and db': "po_db p' = ended_delivery (task_key (po_tasks p ! k)) x db"
    and db: "same_deliveries (po_db p) db" "notice_ok db" and tasks: "po_tasks p' = po_tasks p"
  shows "deliveries_ok (drop_task k p')"
proof -
  let ?ks = "task_keys p"
  have split: "?ks = take k ?ks @ ?ks ! k # drop (Suc k) ?ks" using k by (intro at_place) simp
  have "deliveries.served db ?ks"
    using ok db(1) by (auto simp: deliveries_ok_def same_deliveries_def due_deliveries_def intro: deliveries.served_same)
  with split have "deliveries.served db (take k ?ks @ ?ks ! k # drop (Suc k) ?ks)" by simp
  from deliveries.served_closing [OF this, of x]
  have "deliveries.served (po_db p') (take k ?ks @ drop (Suc k) ?ks)" using db' k by simp
  moreover have "notice_ok (po_db p')" "notification_ids (po_db p') = notification_ids (po_db p)"
    using db db' by (auto simp: ended_delivery_def delivery_failed_def delivery_sent_def end_delivery_def
        same_deliveries_def set_delivery_ok delivery_key_def split: sum.split)
  ultimately show ?thesis
    using ok tasks drop_keys [of k ?ks] by (auto simp: deliveries_ok_def)
qed

lemma gone_ok:
  assumes ok: "deliveries_ok p" and k: "k < length (po_tasks p)"
    and gone: "snd (task_key (po_tasks p ! k)) \<notin> channel_ids (po_db p)"
  shows "deliveries_ok (drop_task k p)"
proof -
  let ?ks = "task_keys p"
  have split: "?ks = take k ?ks @ ?ks ! k # drop (Suc k) ?ks" using k by (intro at_place) simp
  have "?ks ! k \<notin> set (map delivery_key (delivery_rows (po_db p)))"
    using gone k ok by (auto simp: deliveries_ok_def notice_ok_def delivery_key_def)
  moreover have "deliveries.served (po_db p) (take k ?ks @ ?ks ! k # drop (Suc k) ?ks)"
    using ok split by (simp add: deliveries_ok_def)
  ultimately have "deliveries.served (po_db p) (take k ?ks @ drop (Suc k) ?ks)"
    using deliveries.served_leaving by blast
  then show ?thesis using ok drop_keys [of k ?ks] by (auto simp: deliveries_ok_def)
qed

lemma changed_ok:
  assumes ok: "deliveries_ok p" and k: "k < length (po_tasks p)" and t: "task_key t = task_key (po_tasks p ! k)"
    and db': "map delivery_key (delivery_rows db') = map delivery_key (delivery_rows (po_db p))"
      "due_deliveries db' = due_deliveries (po_db p)" "notification_rows db' = notification_rows (po_db p)"
      "notice_ok db'"
  shows "deliveries_ok (set_task k t (p\<lparr>po_db := db'\<rparr>))"
proof -
  have "task_keys (set_task k t (p\<lparr>po_db := db'\<rparr>)) = task_keys p"
    using k t by (simp add: list_update_same_conv)
  moreover have "deliveries.served db' (task_keys p)"
    by (rule deliveries.served_same [of "po_db p"]) (use ok db'(1,2) in \<open>simp_all add: deliveries_ok_def del: set_map\<close>)
  ultimately show ?thesis using ok db' by (simp add: deliveries_ok_def)
qed

lemma retried_rows:
  "map delivery_key (delivery_rows (delivery_retried db n c error next)) = map delivery_key (delivery_rows db)"
  "due_deliveries (delivery_retried db n c error next) = due_deliveries db"
  "notification_rows (delivery_retried db n c error next) = notification_rows db"
proof -
  define f where "f = (\<lambda>d :: delivery_row. d\<lparr>dl_attempts := Suc (dl_attempts d), dl_last_error := Some error, dl_next := next\<rparr>)"
  have f: "delivery_key (f d) = delivery_key d" "dl_status (f d) = dl_status d" for d
    by (simp_all add: f_def delivery_key_def)
  have db': "delivery_retried db n c error next = set_delivery n c f db" by (simp add: delivery_retried_def f_def)
  have "map delivery_key (filter (\<lambda>d. dl_status d = Delivery_Pending) (row_update q f ds)) =
      map delivery_key (filter (\<lambda>d. dl_status d = Delivery_Pending) ds)" for q ds
    by (induction ds) (simp_all add: f)
  then show "due_deliveries (delivery_retried db n c error next) = due_deliveries db"
    by (simp add: db' set_delivery_def due_deliveries_def)
  show "map delivery_key (delivery_rows (delivery_retried db n c error next)) = map delivery_key (delivery_rows db)"
    by (simp add: db' set_delivery_def map_row_update f)
qed (simp add: delivery_retried_def)

lemma channel_failed_same: "same_deliveries db (channel_failed db c error at)"
  by (simp add: same_deliveries_def channel_failed_def)

lemma failed_as_ended: "delivery_failed db n c error = ended_delivery (n, c) (Inl error) db"
  by (simp add: ended_delivery_def)

lemma channel_failed_rows [simp]:
  "delivery_rows (channel_failed db c error at) = delivery_rows db"
  "notification_rows (channel_failed db c error at) = notification_rows db"
  "due_deliveries (channel_failed db c error at) = due_deliveries db"
  by (simp_all add: channel_failed_def due_deliveries_def)

lemma send_failed_ok:
  assumes ok: "deliveries_ok p" and k: "k < length (po_tasks p)" and t: "task_key (po_tasks p ! k) = pending_key d"
  shows "deliveries_ok (send_failed now k d attempts error p)"
proof -
  let ?n = "cm_id (pe_notification d)" and ?c = "pe_channel d"
  let ?db = "channel_failed (po_db p) ?c error now"
  have db: "notice_ok ?db" using ok channel_failed_ok by (simp add: deliveries_ok_def)
  have "deliveries_ok (drop_task k (p\<lparr>po_db := delivery_failed ?db ?n ?c error\<rparr>))"
    by (rule ended_ok [OF ok k, of _ "Inl error" ?db])
      (simp_all add: t pending_key_def failed_as_ended channel_failed_same db)
  moreover have "deliveries_ok (set_task k (Sleeping d a due) (p\<lparr>po_db := delivery_retried ?db ?n ?c error due\<rparr>))" for a due
    by (rule changed_ok [OF ok k]) (simp_all add: t retried_rows delivery_retried_ok db)
  ultimately show ?thesis by (simp add: send_failed_def Let_def)
qed

lemma channel_missing: "channel db c = None \<longleftrightarrow> c \<notin> channel_ids db"
  by (auto simp: channel_def channels_def channel_record_of_def find_None_iff)

lemma channel_found: "channel db c = Some r \<Longrightarrow> ch_id r = c"
  by (auto simp: channel_def dest: find_Some_key)

lemma task_wakes_ok:
  assumes ok: "deliveries_ok p"
  shows "deliveries_ok (task_wakes pv now k p)"
proof (cases "k < length (po_tasks p)")
  case False
  then show ?thesis using ok by (simp add: task_wakes_def)
next
  case k: True
  show ?thesis
  proof (cases "po_tasks p ! k")
    case (Sending_On d a msg)
    then show ?thesis using ok by (simp add: task_wakes_def)
  next
    case (Sleeping d a due)
    then have t: "task_key (po_tasks p ! k) = pending_key d" by simp
    have wakes: "task_wakes pv now k p = (if now < due then p
          else case channel (po_db p) (pe_channel d) of
            None \<Rightarrow> drop_task k p
          | Some c \<Rightarrow>
              if \<not> sends c
              then drop_task k (p\<lparr>po_db := delivery_failed (po_db p) (cm_id (pe_notification d)) (ch_id c)
                     ''The channel was disabled.''\<rparr>)
              else case pv_limit pv (ch_kind c) of
                None \<Rightarrow> send_failed now k d a (''The hub has no channel kind \"'' @ ch_kind c @ ''\" any more.'') p
              | Some limit \<Rightarrow>
                  set_task k (Sending_On d a ((pe_notification d)\<lparr>
                    cm_text := cut (cm_text (pe_notification d)) limit,
                    cm_options := cm_options (pe_notification d) @ [MUTE_OPTION]\<rparr>)) p)"
      using k Sleeping by (simp add: task_wakes_def)
    show ?thesis
    proof (cases "channel (po_db p) (pe_channel d)")
      case None
      then have "deliveries_ok (drop_task k p)"
        using gone_ok [OF ok k] t by (simp add: channel_missing pending_key_def)
      then show ?thesis using wakes None ok by simp
    next
      case (Some c)
      have disabled: "deliveries_ok (drop_task k (p\<lparr>po_db := delivery_failed (po_db p) (cm_id (pe_notification d)) (ch_id c)
          ''The channel was disabled.''\<rparr>))"
        by (rule ended_ok [OF ok k, of _ "Inl ''The channel was disabled.''" "po_db p"])
          (use ok channel_found [OF Some] in \<open>simp_all add: t pending_key_def failed_as_ended same_deliveries_def deliveries_ok_def\<close>)
      have sending: "deliveries_ok (set_task k (Sending_On d a msg) p)" for msg
        using changed_ok [OF ok k, of "Sending_On d a msg" "po_db p"] ok t by (simp add: deliveries_ok_def)
      show ?thesis
        using wakes Some ok disabled sending send_failed_ok [OF ok k t] by (simp split: option.split)
    qed
  qed
qed

lemma send_ends_ok:
  assumes ok: "deliveries_ok p"
  shows "deliveries_ok (send_ends now k sent p)"
proof (cases "k < length (po_tasks p)")
  case False
  then show ?thesis using ok by (simp add: send_ends_def)
next
  case k: True
  show ?thesis
  proof (cases "po_tasks p ! k")
    case (Sleeping d a due)
    then show ?thesis using ok by (simp add: send_ends_def)
  next
    case (Sending_On d a msg)
    then have t: "task_key (po_tasks p ! k) = pending_key d" by simp
    show ?thesis
    proof (cases sent)
      case (Inl error)
      then show ?thesis using k Sending_On send_failed_ok [OF ok k t] by (simp add: send_ends_def)
    next
      case (Inr ref)
      let ?p = "p\<lparr>po_db := delivery_sent (po_db p) (cm_id (pe_notification d)) (pe_channel d) ref\<rparr>"
      have ended: "deliveries_ok (drop_task k ?p)"
        by (rule ended_ok [OF ok k, of _ "Inr ref" "po_db p"])
          (use ok in \<open>simp_all add: t pending_key_def ended_delivery_def same_deliveries_def deliveries_ok_def\<close>)
      have "deliveries_ok (drop_task k (?p\<lparr>po_db := channel_sent (po_db ?p) (pe_channel d) now\<rparr>))"
        by (rule deliveries_ok_same [OF ended])
          (use ended channel_sent_ok in \<open>simp_all add: deliveries_ok_def same_deliveries_def channel_sent_def drop_task_def\<close>)
      then show ?thesis using k Sending_On Inr by (simp add: send_ends_def)
    qed
  qed
qed

lemma resume_outbox_ok:
  assumes "notice_ok (po_db p)" and "po_tasks p = []"
  shows "deliveries_ok (resume_outbox p)"
proof -
  have "map pending_key (pending_deliveries (po_db p) None) = due_deliveries (po_db p)"
    by (simp add: pending_keys [OF assms(1)])
  moreover have "fst k \<in> notification_ids (po_db p)" if "k \<in> set (due_deliveries (po_db p))" for k
    using that assms(1) by (auto simp: due_deliveries_def notice_ok_def delivery_key_def)
  ultimately show ?thesis
    using assms deliveries.served_afresh [OF assms(1)] by (simp add: deliveries_ok_def resume_outbox_def)
qed

end
