(* ===== verification/Reply_Laws.thy ===== *)
theory Reply_Laws
  imports Mail_Laws
begin

text \<open>
  What holds of the replies in every reachable state: each that is not settled has one task, one task
  at a time asks, an answer that may have reached an instance is never asked for again, and a
  notification is answered by one of its options once.
\<close>

section \<open>Rows of replies\<close>

definition reply_row_of :: "notice_db \<Rightarrow> uuid \<Rightarrow> reply_row option" where
  "reply_row_of db i = find (\<lambda>p. rp_id p = i) (reply_rows db)"

lemma reply_row_of_set_reply:
  "(\<And>p. rp_id (f p) = rp_id p) \<Longrightarrow>
     reply_row_of (set_reply j f db) i = map_option (\<lambda>p. if i = j then f p else p) (reply_row_of db i)"
  by (simp add: reply_row_of_def set_reply_def find_row_update_key)

lemma reply_row_of_known: "i \<in> reply_ids db \<longleftrightarrow> (\<exists>p. reply_row_of db i = Some p)"
  using find_None_key [of rp_id i "reply_rows db"] by (cases "reply_row_of db i") (auto simp: reply_row_of_def)

lemma reply_row_of_id: "reply_row_of db i = Some p \<Longrightarrow> rp_id p = i \<and> p \<in> set (reply_rows db)"
  unfolding reply_row_of_def by (rule find_Some_key)

lemma reply_row_of_same: "reply_rows db' = reply_rows db \<Longrightarrow> reply_row_of db' i = reply_row_of db i"
  by (simp add: reply_row_of_def)

text \<open>The replies that answered a notification with one of its options.\<close>

definition option_answers :: "notice_db \<Rightarrow> uuid \<Rightarrow> reply_row list" where
  "option_answers db n =
     filter (\<lambda>p. rp_notification p = n \<and> rp_status p = Reply_Applied \<and> rp_option p \<noteq> None) (reply_rows db)"

lemma answered_iff: "answered_by_option db n \<longleftrightarrow> option_answers db n \<noteq> []"
  by (auto simp: answered_by_option_def option_answers_def list_ex_iff filter_empty_conv)

text \<open>What an update of one row does to a count of rows.\<close>

lemma count_after_update:
  assumes "distinct (map rp_id ps)" and "\<And>p. rp_id (f p) = rp_id p"
  shows "length (filter q (row_update (\<lambda>p. rp_id p = i) f ps)) \<le>
    (case find (\<lambda>p. rp_id p = i) ps of
       None \<Rightarrow> length (filter q ps)
     | Some p \<Rightarrow> if q (f p) \<and> \<not> q p then Suc (length (filter q ps)) else length (filter q ps))"
  using assms(1)
proof (induction ps)
  case (Cons p ps)
  show ?case
  proof (cases "rp_id p = i")
    case True
    then have "row_update (\<lambda>p. rp_id p = i) f ps = ps"
      using Cons.prems by (intro row_update_id) (metis distinct.simps(2) imageI list.simps(9) set_map)
    then show ?thesis using True by simp
  next
    case False
    then show ?thesis using Cons by (simp split: option.splits if_splits)
  qed
qed simp

section \<open>The past\<close>

text \<open>Whether an answer asked of an instance may have reached it: no later error said it did not.\<close>

fun is_stop :: "ask \<Rightarrow> bool" where
  "is_stop (Ask_Stop _ _) = True"
| "is_stop _ = False"

definition landed_after :: "uuid \<Rightarrow> reply_event \<Rightarrow> bool \<Rightarrow> bool" where
  "landed_after i ev landed =
     (case ev of
        Asked j a \<Rightarrow> if j = i \<and> \<not> is_stop a then True else landed
      | Ask_Over j result \<Rightarrow> if j = i \<and> (\<exists>retryable error. result = Ask_Raised retryable error) then False else landed)"

definition may_have_landed :: "reply_event list \<Rightarrow> uuid \<Rightarrow> bool" where
  "may_have_landed log i = fold (landed_after i) log False"

lemma may_have_landed_append [simp]:
  "may_have_landed [] i = False"
  "may_have_landed (log @ [ev]) i = landed_after i ev (may_have_landed log i)"
  by (simp_all add: may_have_landed_def)

fun event_of :: "reply_event \<Rightarrow> uuid" where
  "event_of (Asked i _) = i"
| "event_of (Ask_Over i _) = i"

lemma nothing_landed: "i \<notin> event_of ` set log \<Longrightarrow> \<not> may_have_landed log i"
proof (induction log rule: rev_induct)
  case (snoc ev log)
  then show ?case by (cases ev) (auto simp: landed_after_def)
qed simp

text \<open>No answer was asked of an instance that may already have had it.\<close>

definition asked_safely :: "reply_event list \<Rightarrow> bool" where
  "asked_safely log \<longleftrightarrow>
     (\<forall>xs i a ys. log = xs @ Asked i a # ys \<and> \<not> is_stop a \<longrightarrow> \<not> may_have_landed xs i)"

lemma asked_safely_snoc:
  "asked_safely (log @ [ev]) \<longleftrightarrow>
     asked_safely log \<and> (\<forall>i a. ev = Asked i a \<and> \<not> is_stop a \<longrightarrow> \<not> may_have_landed log i)"
proof
  assume all: "asked_safely (log @ [ev])"
  show "asked_safely log \<and> (\<forall>i a. ev = Asked i a \<and> \<not> is_stop a \<longrightarrow> \<not> may_have_landed log i)"
    unfolding asked_safely_def
  proof (intro conjI allI impI)
    fix xs i a ys assume "log = xs @ Asked i a # ys \<and> \<not> is_stop a"
    then have "log @ [ev] = xs @ Asked i a # (ys @ [ev])" "\<not> is_stop a" by simp_all
    with all show "\<not> may_have_landed xs i" unfolding asked_safely_def by blast
  next
    fix i a assume "ev = Asked i a \<and> \<not> is_stop a"
    then have "log @ [ev] = log @ Asked i a # []" "\<not> is_stop a" by simp_all
    with all show "\<not> may_have_landed log i" unfolding asked_safely_def by blast
  qed
next
  assume both: "asked_safely log \<and> (\<forall>i a. ev = Asked i a \<and> \<not> is_stop a \<longrightarrow> \<not> may_have_landed log i)"
  show "asked_safely (log @ [ev])"
    unfolding asked_safely_def
  proof (intro allI impI)
    fix xs i a ys assume at: "log @ [ev] = xs @ Asked i a # ys \<and> \<not> is_stop a"
    show "\<not> may_have_landed xs i"
    proof (cases ys rule: rev_cases)
      case Nil
      then show ?thesis using at both by auto
    next
      case (snoc zs z)
      then have "log = xs @ Asked i a # zs" using at by (metis append_Cons append_assoc butlast_snoc)
      then show ?thesis using at both unfolding asked_safely_def by blast
    qed
  qed
qed

section \<open>The invariant\<close>

definition is_asking :: "reply_task \<Rightarrow> bool" where
  "is_asking t \<longleftrightarrow> (case t of Applying _ _ _ \<Rightarrow> False | Asking _ _ _ \<Rightarrow> True)"

lemma is_asking_simps [simp]: "\<not> is_asking (Applying r a t)" "is_asking (Asking r a x)"
  by (simp_all add: is_asking_def)

lemma lock_free_iff: "lock_free d \<longleftrightarrow> (\<forall>t \<in> set (dk_tasks d). \<not> is_asking t)"
  by (auto simp: lock_free_def is_asking_def list_all_iff split: reply_task.splits)

text \<open>A task's copy of its reply tells what the tables say of it.\<close>

definition matches_row :: "notice_db \<Rightarrow> received_reply \<Rightarrow> bool" where
  "matches_row db r \<longleftrightarrow>
     (\<exists>p. reply_row_of db (rv_id r) = Some p \<and> rp_option p = rv_option r \<and>
        rp_notification p = cm_id (rv_notification r) \<and>
        (\<exists>n \<in> set (notification_rows db). nr_id n = cm_id (rv_notification r) \<and> nr_stop n = rv_stop r))"

definition called :: "notice_db \<Rightarrow> uuid \<Rightarrow> bool" where
  "called db i \<longleftrightarrow> (\<exists>p. reply_row_of db i = Some p \<and> rp_calling p)"

definition task_ok :: "notice_db \<Rightarrow> reply_task \<Rightarrow> bool" where
  "task_ok db t \<longleftrightarrow> matches_row db (reply_of_task t) \<and>
     (case t of
        Applying r _ _ \<Rightarrow> rv_stop r = None \<and> \<not> rv_calling r \<longrightarrow> \<not> called db (rv_id r)
      | Asking r _ a \<Rightarrow>
          (is_stop a \<longleftrightarrow> rv_stop r \<noteq> None) \<and>
          (\<not> is_stop a \<longrightarrow> \<not> rv_calling r \<and> \<not> answered_by_option db (cm_id (rv_notification r))))"

definition asks_ok :: "notice_db \<Rightarrow> reply_task list \<Rightarrow> reply_event list \<Rightarrow> bool" where
  "asks_ok db ts log \<longleftrightarrow>
     (\<forall>t \<in> set ts. task_ok db t) \<and>
     length (filter is_asking ts) \<le> 1 \<and>
     (\<forall>i. may_have_landed log i \<longrightarrow> called db i) \<and>
     event_of ` set log \<subseteq> reply_ids db \<and>
     asked_safely log \<and>
     (\<forall>n \<in> set (notification_rows db). nr_stop n = None \<longrightarrow> length (option_answers db (nr_id n)) \<le> 1)"

section \<open>Steps that settle or change a reply\<close>

lemma drop_reply_simps [simp]:
  "dk_db (drop_reply k d) = dk_db d" "dk_tasks (drop_reply k d) = take k (dk_tasks d) @ drop (Suc k) (dk_tasks d)"
  by (simp_all add: drop_reply_def)

lemma settle_task_simps [simp]:
  "dk_db (settle_task k r status outcome d) = settle_reply (dk_db d) (rv_id r) status outcome"
  "dk_tasks (settle_task k r status outcome d) = take k (dk_tasks d) @ drop (Suc k) (dk_tasks d)"
  by (simp_all add: settle_task_def)

lemma reply_frames [simp]:
  "reply_rows (channel_failed db c e t) = reply_rows db" "reply_rows (channel_sent db c t) = reply_rows db"
  "notification_rows (reply_calling db i b) = notification_rows db"
  "notification_rows (settle_reply db i st out) = notification_rows db"
  by (simp_all add: channel_failed_def channel_sent_def reply_calling_def settle_reply_def)

lemma replies_ok_settled:
  assumes ok: "replies_ok db ts" and k: "k < length ts" and status: "status \<noteq> Reply_Received"
    and same: "same_replies db db'" "notice_ok db'"
  shows "replies_ok (settle_reply db' (reply_key (ts ! k)) status outcome) (take k ts @ drop (Suc k) ts)"
proof -
  let ?ks = "map reply_key ts"
  have split: "?ks = take k ?ks @ ?ks ! k # drop (Suc k) ?ks" using k by (intro at_place) simp
  have "replies_ok db' ts" by (rule replies_ok_same [OF ok same(2,1) refl])
  then have "replies.served db' (take k ?ks @ ?ks ! k # drop (Suc k) ?ks)" using split by (simp add: replies_ok_def)
  from replies.served_closing [OF this, of "(status, outcome)"] status
  have "replies.served (settle_reply db' (reply_key (ts ! k)) status outcome) (take k ?ks @ drop (Suc k) ?ks)"
    using k by (simp add: settled_reply_def)
  moreover have "reply_ids (settle_reply db' (reply_key (ts ! k)) status outcome) = reply_ids db'"
    by (simp add: settle_reply_def set_reply_def image_row_update)
  moreover have "set (take k ?ks @ drop (Suc k) ?ks) \<subseteq> reply_ids db'"
    using \<open>replies_ok db' ts\<close> drop_keys [of k ?ks] by (auto simp: replies_ok_def)
  ultimately show ?thesis
    using settle_reply_ok [OF same(2)] by (simp add: replies_ok_def take_map drop_map)
qed

lemma replies_ok_changed:
  assumes ok: "replies_ok db ts" and k: "k < length ts" and t: "reply_key t = reply_key (ts ! k)"
    and same: "same_replies db db'" "notice_ok db'"
  shows "replies_ok db' (ts[k := t])"
  by (rule replies_ok_same [OF ok same(2,1)]) (use k t in \<open>simp add: map_update list_update_same_conv\<close>)

lemma calling_same: "same_replies db (reply_calling db i b)"
  by (simp add: same_replies_def reply_calling_def set_reply_def map_row_update)

lemma same_replies_refl [simp]: "same_replies db db" by (simp add: same_replies_def)

lemma same_replies_trans: "same_replies a b \<Longrightarrow> same_replies b c \<Longrightarrow> same_replies a c"
  by (simp add: same_replies_def)

lemma mute_frames:
  "mute db c inst = Inr db' \<Longrightarrow> reply_rows db' = reply_rows db \<and> notification_rows db' = notification_rows db \<and>
     delivery_rows db' = delivery_rows db \<and> channel_rows db' = channel_rows db"
  by (auto simp: mute_def split: if_splits)

text \<open>What applying a reply writes before it waits.\<close>

lemma apply_reply_cases:
  assumes "apply_reply r db = (x, db')"
  obtains (muted) status outcome where "x = Settled status outcome" "rv_option r = None"
      "db' = db \<or> (\<exists>c. mute db c (rv_instance r) = Inr db')" "status \<noteq> Reply_Received"
  | (stale) status outcome where "x = Settled status outcome" "status = Reply_Stale \<or> status = Reply_Failed"
      "db' = db \<or> (db' = reply_calling (reply_calling db (rv_id r) True) (rv_id r) False \<and> \<not> rv_calling r \<and> rv_stop r = None)"
  | (stop) stop option_text where "x = To_Ask (Ask_Stop stop option_text)" "rv_stop r \<noteq> None" "db' = db"
  | (asks) a where "x = To_Ask a" "\<not> is_stop a" "rv_stop r = None" "\<not> rv_calling r"
      "\<not> answered_by_option db (cm_id (rv_notification r))" "db' = reply_calling db (rv_id r) True"
proof (cases "rv_option r")
  case None
  show ?thesis
  proof (cases "Option.bind (rv_channel r) (channel db)")
    case no_channel: None
    then show ?thesis using assms None muted by (auto simp: apply_reply_def)
  next
    case (Some c)
    then show ?thesis
      using assms None muted
      by (cases "rv_instance r \<in> set (ch_muted c)"; cases "mute db (ch_id c) (rv_instance r)")
        (auto simp: apply_reply_def)
  qed
next
  case option: (Some t)
  show ?thesis
  proof (cases "rv_stop r")
    case (Some st)
    then show ?thesis using assms option stop by (auto simp: apply_reply_def)
  next
    case no_stop: None
    show ?thesis
    proof (cases "rv_thread r")
      case None
      then show ?thesis using assms option no_stop stale by (auto simp: apply_reply_def)
    next
      case (Some th)
      note here = assms option no_stop Some
      show ?thesis
      proof (cases "answered_by_option db (cm_id (rv_notification r)) \<or> rv_calling r")
        case True
        then show ?thesis using here stale by (auto simp: apply_reply_def split: if_splits)
      next
        case False
        then show ?thesis
          using here stale asks
          by (cases "rv_approval r"; cases "map_of APPROVAL_OPTIONS t") (auto simp: apply_reply_def Let_def)
      qed
    qed
  qed
qed

lemma apply_reply_frames:
  assumes "apply_reply r db = (x, db')"
  shows "same_replies db db'" and "same_deliveries db db'" and "notice_ok db \<Longrightarrow> notice_ok db'"
proof -
  have calling: "same_replies db (reply_calling (reply_calling db i b) i c)" for i b c
    by (rule same_replies_trans [OF calling_same calling_same])
  have called: "same_deliveries db (reply_calling db i b)" "same_deliveries db (reply_calling (reply_calling db i b) i c)" for i b c
    by (simp_all add: same_deliveries_def reply_calling_def)
  have "same_replies db db' \<and> same_deliveries db db' \<and> (notice_ok db \<longrightarrow> notice_ok db')"
    using assms
  proof (cases rule: apply_reply_cases)
    case (muted status outcome)
    then show ?thesis by (auto simp: same_replies_def same_deliveries_def dest: mute_frames mute_ok)
  next
    case (stale status outcome)
    then show ?thesis using calling called by (auto simp: reply_calling_ok same_deliveries_def)
  next
    case (stop st t)
    then show ?thesis by (simp add: same_deliveries_def)
  next
    case (asks a)
    then show ?thesis using calling_same called by (simp add: reply_calling_ok)
  qed
  then show "same_replies db db'" "same_deliveries db db'" "notice_ok db \<Longrightarrow> notice_ok db'" by simp_all
qed

section \<open>Changes that leave the answers alone\<close>

definition answer_of :: "reply_row \<Rightarrow> uuid \<times> uuid \<times> string option \<times> reply_status \<times> bool" where
  "answer_of p = (rp_id p, rp_notification p, rp_option p, rp_status p, rp_calling p)"

definition same_answers :: "notice_db \<Rightarrow> notice_db \<Rightarrow> bool" where
  "same_answers db db' \<longleftrightarrow> map answer_of (reply_rows db') = map answer_of (reply_rows db) \<and>
     (\<exists>new. notification_rows db' = notification_rows db @ new \<and>
        (\<forall>n \<in> set new. nr_id n \<notin> notification_ids db))"

lemma same_answers_replies:
  assumes "same_answers db db'"
  shows "same_replies db db'"
proof -
  have "map (fst \<circ> answer_of) (reply_rows db') = map (fst \<circ> answer_of) (reply_rows db)"
    "map (fst \<circ> snd \<circ> snd \<circ> snd \<circ> answer_of) (reply_rows db') =
     map (fst \<circ> snd \<circ> snd \<circ> snd \<circ> answer_of) (reply_rows db)"
    using assms by (simp_all add: same_answers_def flip: map_map)
  then show ?thesis by (simp add: same_replies_def comp_def answer_of_def)
qed

lemma same_answer_row:
  assumes "same_answers db db'"
  shows "map_option answer_of (reply_row_of db' i) = map_option answer_of (reply_row_of db i)"
proof -
  have "map_option answer_of (find (\<lambda>p. rp_id p = i) ps) = map_option answer_of (find (\<lambda>p. rp_id p = i) qs)"
    if "map answer_of ps = map answer_of qs" for ps qs
    using that
  proof (induction ps arbitrary: qs)
    case (Cons p ps)
    then obtain q qs' where qs: "qs = q # qs'" "answer_of p = answer_of q" "map answer_of ps = map answer_of qs'"
      by (cases qs) simp_all
    from Cons.IH [OF qs(3)] qs(2) show ?case unfolding qs(1) by (simp add: answer_of_def)
  qed simp
  from this [of "reply_rows db'" "reply_rows db"] show ?thesis
    using assms by (simp add: same_answers_def reply_row_of_def)
qed

lemma same_row_cases:
  assumes "same_answers db db'"
  obtains "reply_row_of db' i = None" "reply_row_of db i = None"
  | p p' where "reply_row_of db' i = Some p'" "reply_row_of db i = Some p" "answer_of p' = answer_of p"
  using same_answer_row [OF assms, of i]
  by (cases "reply_row_of db' i"; cases "reply_row_of db i") auto

lemma same_called: "same_answers db db' \<Longrightarrow> called db' i \<longleftrightarrow> called db i"
  by (cases rule: same_row_cases [of db db' i]) (auto simp: called_def answer_of_def)

lemma same_reply_ids: "same_answers db db' \<Longrightarrow> reply_ids db' = reply_ids db"
  using same_answers_replies [of db db'] unfolding same_replies_def by (metis set_map)

lemma same_matches: "same_answers db db' \<Longrightarrow> matches_row db r \<Longrightarrow> matches_row db' r"
  by (cases rule: same_row_cases [of db db' "rv_id r"])
    (auto simp: matches_row_def answer_of_def same_answers_def)

lemma same_option_answers:
  assumes "same_answers db db'"
  shows "length (option_answers db' n) = length (option_answers db n)"
proof -
  have "length (filter (\<lambda>p. rp_notification p = n \<and> rp_status p = Reply_Applied \<and> rp_option p \<noteq> None) ps) =
      length (filter (\<lambda>p. rp_notification p = n \<and> rp_status p = Reply_Applied \<and> rp_option p \<noteq> None) qs)"
    if "map answer_of ps = map answer_of qs" for ps qs
    using that
  proof (induction ps arbitrary: qs)
    case (Cons p ps)
    then obtain q qs' where qs: "qs = q # qs'" "answer_of p = answer_of q" "map answer_of ps = map answer_of qs'"
      by (cases qs) simp_all
    from Cons.IH [OF qs(3)] qs(2) show ?case unfolding qs(1) by (simp add: answer_of_def)
  qed simp
  from this [of "reply_rows db'" "reply_rows db"] show ?thesis
    using assms by (simp add: same_answers_def option_answers_def)
qed

lemma no_answers_unknown:
  assumes "notice_ok db" and "n \<notin> notification_ids db"
  shows "option_answers db n = []"
  using assms by (auto simp: option_answers_def notice_ok_def filter_empty_conv)

lemma asks_ok_same:
  assumes ok: "asks_ok db ts log" and db: "notice_ok db" and same: "same_answers db db'"
  shows "asks_ok db' ts log"
proof -
  have answered: "answered_by_option db' n \<longleftrightarrow> answered_by_option db n" for n
    unfolding answered_iff using same_option_answers [OF same, of n] by (metis length_0_conv)
  have "task_ok db' t" if "task_ok db t" for t
    using that same_matches [OF same]
    by (cases t) (simp_all add: task_ok_def same_called [OF same] answered)
  moreover have "length (option_answers db' (nr_id n)) \<le> 1" if "n \<in> set (notification_rows db')" "nr_stop n = None" for n
  proof (cases "n \<in> set (notification_rows db)")
    case True
    then show ?thesis using ok that(2) same_option_answers [OF same] by (simp add: asks_ok_def)
  next
    case False
    then have "nr_id n \<notin> notification_ids db" using same that(1) by (auto simp: same_answers_def)
    then show ?thesis using no_answers_unknown [OF db] same_option_answers [OF same] by simp
  qed
  ultimately show ?thesis
    using ok by (simp add: asks_ok_def same_called [OF same] same_reply_ids [OF same])
qed

definition reply_side :: "notice_db \<Rightarrow> reply_task list \<Rightarrow> reply_event list \<Rightarrow> bool" where
  "reply_side db ts log \<longleftrightarrow> replies_ok db ts \<and> asks_ok db ts log"

lemma reply_side_same:
  assumes "reply_side db ts log" and "same_answers db db'" and "notice_ok db'"
  shows "reply_side db' ts log"
  using assms asks_ok_same replies_ok_same [OF _ assms(3) same_answers_replies [OF assms(2)] refl]
  by (auto simp: reply_side_def replies_ok_def)

lemma same_answers_frame:
  "reply_rows db' = reply_rows db \<Longrightarrow> notification_rows db' = notification_rows db \<Longrightarrow> same_answers db db'"
  by (simp add: same_answers_def)

lemma delete_channel_answers: "same_answers db (delete_channel db i)"
  by (simp add: same_answers_def delete_channel_def map_row_update answer_of_def)

lemma notify_answers: "same_answers (po_db p) (po_db (snd (notify pv now i inst key content p)))"
  by (cases rule: notify_cases [of pv now i inst key content p])
    (simp_all add: same_answers_def notification_row_of_def)

lemma raise_for_answers: "same_answers (po_db p) (po_db (snd (raise_for pv now i inst c p)))"
  by (cases rule: raise_for_cases [of pv now i inst c p]) (simp_all add: notify_answers same_answers_frame)

lemma send_failed_answers: "same_answers (po_db p) (po_db (send_failed now k d a error p))"
  by (rule same_answers_frame)
    (simp_all add: send_failed_def Let_def delivery_failed_def delivery_retried_def end_delivery_def)

lemma task_wakes_answers: "same_answers (po_db p) (po_db (task_wakes pv now k p))"
  by (auto simp: task_wakes_def delivery_failed_def end_delivery_def send_failed_answers
      intro: same_answers_frame split: delivery_task.split option.split)

lemma send_ends_answers: "same_answers (po_db p) (po_db (send_ends now k sent p))"
  by (auto simp: send_ends_def delivery_sent_def end_delivery_def send_failed_answers channel_sent_def
      intro!: same_answers_frame split: delivery_task.split sum.split)

section \<open>Changes of one reply\<close>

lemma matches_set_reply:
  assumes "\<And>p. rp_id (f p) = rp_id p" "\<And>p. rp_notification (f p) = rp_notification p" "\<And>p. rp_option (f p) = rp_option p"
  shows "matches_row (set_reply j f db) r \<longleftrightarrow> matches_row db r"
  by (cases "reply_row_of db (rv_id r)") (simp_all add: matches_row_def reply_row_of_set_reply assms)

lemma called_set_reply:
  assumes "\<And>p. rp_id (f p) = rp_id p"
  shows "called (set_reply j f db) i \<longleftrightarrow>
    (if i = j then (\<exists>p. reply_row_of db i = Some p \<and> rp_calling (f p)) else called db i)"
  by (cases "reply_row_of db i") (auto simp: called_def reply_row_of_set_reply assms)

lemma change_simps [simp]:
  "matches_row (reply_calling db j b) r \<longleftrightarrow> matches_row db r"
  "matches_row (settle_reply db j status outcome) r \<longleftrightarrow> matches_row db r"
  "called (settle_reply db j status outcome) i \<longleftrightarrow> called db i"
  "called (reply_calling db j b) i \<longleftrightarrow> (if i = j then b \<and> j \<in> reply_ids db else called db i)"
  "reply_ids (reply_calling db j b) = reply_ids db" "reply_ids (settle_reply db j status outcome) = reply_ids db"
proof -
  show "called (settle_reply db j status outcome) i \<longleftrightarrow> called db i"
    unfolding settle_reply_def by (simp add: called_set_reply) (auto simp: called_def)
  show "called (reply_calling db j b) i \<longleftrightarrow> (if i = j then b \<and> j \<in> reply_ids db else called db i)"
    using reply_row_of_known [of j db] unfolding reply_calling_def by (auto simp: called_set_reply)
  show "reply_ids (reply_calling db j b) = reply_ids db" "reply_ids (settle_reply db j status outcome) = reply_ids db"
    by (simp_all add: reply_calling_def settle_reply_def set_reply_def image_row_update)
qed (simp_all add: reply_calling_def settle_reply_def matches_set_reply)

lemma option_answers_calling: "length (option_answers (reply_calling db j b) n) = length (option_answers db n)"
proof -
  have "length (filter q (row_update P (\<lambda>p. p\<lparr>rp_calling := b\<rparr>) ps)) = length (filter q ps)"
    if "\<And>p. q (p\<lparr>rp_calling := b\<rparr>) = q p" for P q and ps :: "reply_row list"
    using that by (induction ps) simp_all
  then show ?thesis by (simp add: option_answers_def reply_calling_def set_reply_def)
qed

lemma answered_calling [simp]: "answered_by_option (reply_calling db j b) n \<longleftrightarrow> answered_by_option db n"
  unfolding answered_iff using option_answers_calling [of db j b n] by (metis length_0_conv)

lemma option_answers_settled:
  assumes "notice_ok db" and "matches_row db r"
  shows "length (option_answers (settle_reply db (rv_id r) status outcome) n) \<le>
    (if status = Reply_Applied \<and> rv_option r \<noteq> None \<and> n = cm_id (rv_notification r)
     then Suc (length (option_answers db n)) else length (option_answers db n))"
proof -
  obtain p where p: "find (\<lambda>p. rp_id p = rv_id r) (reply_rows db) = Some p" "rp_option p = rv_option r"
      "rp_notification p = cm_id (rv_notification r)"
    using assms(2) by (auto simp: matches_row_def reply_row_of_def)
  have "distinct (map rp_id (reply_rows db))" using assms(1) by (simp add: notice_ok_def)
  from count_after_update [OF this, of "\<lambda>p. p\<lparr>rp_status := status, rp_outcome := Some outcome\<rparr>"
      "\<lambda>p. rp_notification p = n \<and> rp_status p = Reply_Applied \<and> rp_option p \<noteq> None" "rv_id r"] p
  show ?thesis by (auto simp: option_answers_def settle_reply_def set_reply_def split: if_splits)
qed

lemma one_asking:
  assumes "length (filter is_asking ts) \<le> 1" and "k < length ts" and "is_asking (ts ! k)"
  shows "\<forall>t \<in> set (take k ts @ drop (Suc k) ts). \<not> is_asking t"
proof -
  have "filter is_asking ts = filter is_asking (take k ts) @ ts ! k # filter is_asking (drop (Suc k) ts)"
    using at_place [OF assms(2)] assms(3) by (metis filter.simps(2) filter_append)
  then have "length (filter is_asking (take k ts)) + length (filter is_asking (drop (Suc k) ts)) = 0"
    using assms(1) by simp
  then show ?thesis by (simp add: filter_empty_conv ball_Un)
qed

lemma others_after_update:
  assumes "k < length ts" and "t \<in> set (ts[k := x])"
  shows "t = x \<or> t \<in> set (take k ts @ drop (Suc k) ts)"
  using assms by (auto simp: upd_conv_take_nth_drop)

lemma asking_after_update:
  assumes "k < length ts" and "\<forall>t \<in> set (take k ts @ drop (Suc k) ts). \<not> is_asking t"
  shows "length (filter is_asking (ts[k := x])) \<le> 1"
proof -
  have "filter is_asking (take k ts) = []" "filter is_asking (drop (Suc k) ts) = []"
    using assms(2) by (auto simp: filter_empty_conv)
  then show ?thesis using assms(1) by (simp add: upd_conv_take_nth_drop)
qed

lemma none_asking: "\<forall>t \<in> set ts. \<not> is_asking t \<Longrightarrow> filter is_asking ts = []"
  by (simp add: filter_empty_conv)

lemma other_key:
  assumes "replies_ok db ts" and "k < length ts" and "t \<in> set (take k ts @ drop (Suc k) ts)"
  shows "reply_key t \<noteq> reply_key (ts ! k)"
proof -
  have "distinct (map reply_key ts)" using assms(1) by (simp add: replies_ok_def replies.served_def)
  then have "distinct (map reply_key (take k ts @ ts ! k # drop (Suc k) ts))"
    using at_place [OF assms(2)] by simp
  then show ?thesis using assms(3) by (auto simp: image_iff)
qed

text \<open>A task that is not asking only depends on its own row.\<close>

lemma task_ok_other:
  assumes "task_ok db t" and "\<not> is_asking t" and "matches_row db' (reply_of_task t)"
    and "called db' (reply_key t) \<longleftrightarrow> called db (reply_key t)"
  shows "task_ok db' t"
  using assms by (cases t) (simp_all add: task_ok_def)

lemma notification_of_reply:
  assumes "notice_ok db" and "matches_row db r" and "n \<in> set (notification_rows db)"
    and "nr_id n = cm_id (rv_notification r)"
  shows "nr_stop n = rv_stop r"
proof -
  obtain m where "m \<in> set (notification_rows db)" "nr_id m = cm_id (rv_notification r)" "nr_stop m = rv_stop r"
    using assms(2) by (auto simp: matches_row_def)
  moreover have "inj_on nr_id (set (notification_rows db))" using assms(1) by (simp add: notice_ok_def distinct_map)
  ultimately have "m = n" using assms(3,4) by (metis inj_onD)
  then show ?thesis using \<open>nr_stop m = rv_stop r\<close> by simp
qed

text \<open>
  Settling a reply and ending its task. A reply applied with an option is one of a stop, or the first
  of its notification.
\<close>

lemma settled_side:
  assumes side: "reply_side db ts log" and k: "k < length ts" and r: "reply_of_task (ts ! k) = r"
    and rest: "\<forall>t \<in> set (take k ts @ drop (Suc k) ts). \<not> is_asking t"
    and status: "status \<noteq> Reply_Received"
      "status = Reply_Applied \<Longrightarrow> rv_option r = None \<or> rv_stop r \<noteq> None \<or>
         \<not> answered_by_option db (cm_id (rv_notification r))"
  shows "reply_side (settle_reply db (rv_id r) status outcome) (take k ts @ drop (Suc k) ts) log"
proof -
  let ?db = "settle_reply db (rv_id r) status outcome" and ?ts = "take k ts @ drop (Suc k) ts"
  have ok: "replies_ok db ts" "asks_ok db ts log" and db: "notice_ok db"
    using side by (simp_all add: reply_side_def replies_ok_def)
  have "ts ! k \<in> set ts" using k by simp
  then have row: "matches_row db r" using ok(2) r by (auto simp: asks_ok_def task_ok_def)
  have "replies_ok ?db ?ts"
    using replies_ok_settled [OF ok(1) k status(1) same_replies_refl db] r by simp
  moreover have "task_ok ?db t" if "t \<in> set ?ts" for t
  proof -
    have "t \<in> set ts" using that by (auto dest: in_set_takeD in_set_dropD)
    then have "task_ok db t" using ok(2) by (simp add: asks_ok_def)
    then show ?thesis
      by (rule task_ok_other) (use rest that \<open>task_ok db t\<close> in \<open>auto simp: task_ok_def\<close>)
  qed
  moreover have "length (option_answers ?db (nr_id n)) \<le> 1" if n: "n \<in> set (notification_rows db)" "nr_stop n = None" for n
  proof -
    have one: "length (option_answers db (nr_id n)) \<le> 1" using ok(2) n by (simp add: asks_ok_def)
    have "length (option_answers ?db (nr_id n)) \<le> length (option_answers db (nr_id n)) \<or>
        (status = Reply_Applied \<and> rv_option r \<noteq> None \<and> nr_id n = cm_id (rv_notification r) \<and>
         length (option_answers ?db (nr_id n)) \<le> Suc (length (option_answers db (nr_id n))))"
      using option_answers_settled [OF db row, of status outcome "nr_id n"] by (auto split: if_splits)
    then show ?thesis
    proof
      assume new: "status = Reply_Applied \<and> rv_option r \<noteq> None \<and> nr_id n = cm_id (rv_notification r) \<and>
         length (option_answers ?db (nr_id n)) \<le> Suc (length (option_answers db (nr_id n)))"
      then have "rv_stop r = None" using notification_of_reply [OF db row n(1)] n(2) by simp
      then have "option_answers db (nr_id n) = []" using status(2) new by (simp add: answered_iff)
      then show ?thesis using new by (metis One_nat_def list.size(3))
    qed (use one in simp)
  qed
  ultimately show ?thesis
    using ok(2) rest by (simp add: reply_side_def asks_ok_def none_asking)
qed

text \<open>A change of whether a reply is being asked for, with the tasks as they are.\<close>

lemma calling_side:
  assumes side: "reply_side db ts log" and k: "k < length ts" and r: "reply_of_task (ts ! k) = r"
    and rest: "\<forall>t \<in> set (take k ts @ drop (Suc k) ts). \<not> is_asking t"
    and here: "task_ok (reply_calling db (rv_id r) b) t" "reply_of_task t = r"
    and log: "asked_safely log'" "event_of ` set log' \<subseteq> insert (rv_id r) (event_of ` set log)"
      "\<And>i. may_have_landed log' i \<Longrightarrow> if i = rv_id r then b else may_have_landed log i"
  shows "reply_side (reply_calling db (rv_id r) b) (ts[k := t]) log'"
proof -
  let ?db = "reply_calling db (rv_id r) b"
  have ok: "replies_ok db ts" "asks_ok db ts log" and db: "notice_ok db"
    using side by (simp_all add: reply_side_def replies_ok_def)
  have known: "rv_id r \<in> reply_ids db"
    using ok(1) r k nth_mem [OF k] by (auto simp: replies_ok_def)
  have "replies_ok ?db (ts[k := t])"
    using replies_ok_changed [OF ok(1) k _ calling_same reply_calling_ok [OF db]] here(2) r by simp
  moreover have "task_ok ?db x" if x: "x \<in> set (ts[k := t])" for x
    using others_after_update [OF k x]
  proof
    assume other: "x \<in> set (take k ts @ drop (Suc k) ts)"
    then have "task_ok db x" using ok(2) by (auto simp: asks_ok_def dest: in_set_takeD in_set_dropD)
    moreover have "reply_key x \<noteq> rv_id r" using other_key [OF ok(1) k other] r by simp
    moreover have "\<not> is_asking x" using rest other by blast
    ultimately show ?thesis using task_ok_other [of db x ?db] by (simp add: task_ok_def)
  qed (use here in simp)
  moreover have "called ?db i" if "may_have_landed log' i" for i
    using log(3) [OF that] ok(2) known by (auto simp: asks_ok_def split: if_splits)
  moreover have "event_of ` set log' \<subseteq> reply_ids db"
  proof -
    have "event_of ` set log \<subseteq> reply_ids db" using ok(2) by (simp add: asks_ok_def)
    then have "insert (rv_id r) (event_of ` set log) \<subseteq> reply_ids db" using known by (rule insert_subsetI [rotated])
    then show ?thesis using log(2) by (rule order_trans [rotated])
  qed
  ultimately show ?thesis
    using ok(2) log(1) asking_after_update [OF k rest]
    by (simp add: reply_side_def asks_ok_def option_answers_calling)
qed

lemma same_frames_side:
  assumes "reply_side db ts log" and "notice_ok db'"
    and "reply_rows db' = reply_rows db" and "notification_rows db' = notification_rows db"
  shows "reply_side db' ts log"
  using reply_side_same [OF assms(1) same_answers_frame [OF assms(3,4)] assms(2)] .

section \<open>A task's turn\<close>

lemma asking_stop_side:
  assumes side: "reply_side db ts log" and k: "k < length ts" and here: "reply_of_task (ts ! k) = r"
    and free: "\<forall>t \<in> set ts. \<not> is_asking t" and stop: "is_stop a" "rv_stop r \<noteq> None"
  shows "reply_side db (ts[k := Asking r attempts a]) (log @ [Asked (rv_id r) a])"
proof -
  have ok: "replies_ok db ts" "asks_ok db ts log" using side by (simp_all add: reply_side_def)
  have at: "ts ! k \<in> set ts" using k by simp
  then have row: "matches_row db r" using ok(2) here by (auto simp: asks_ok_def task_ok_def)
  have known: "rv_id r \<in> reply_ids db" using ok(1) at here by (auto simp: replies_ok_def)
  have "replies_ok db (ts[k := Asking r attempts a])"
    by (rule replies_ok_changed [OF ok(1) k _ same_replies_refl]) (use here ok(1) in \<open>simp_all add: replies_ok_def\<close>)
  moreover have "task_ok db t" if t: "t \<in> set (ts[k := Asking r attempts a])" for t
    using others_after_update [OF k t] ok(2) row stop
    by (auto simp: asks_ok_def task_ok_def dest: in_set_takeD in_set_dropD)
  moreover have "length (filter is_asking (ts[k := Asking r attempts a])) \<le> 1"
    by (rule asking_after_update [OF k]) (use free in \<open>auto dest: in_set_takeD in_set_dropD\<close>)
  ultimately show ?thesis
    using ok(2) known stop(1) by (auto simp: reply_side_def asks_ok_def asked_safely_snoc landed_after_def)
qed

lemma reply_turn_side:
  fixes d now k
  assumes side: "reply_side (dk_db d) (dk_tasks d) log"
  defines "d' \<equiv> reply_turn now k d"
  shows "reply_side (dk_db d') (dk_tasks d') (log @ asked_now k (dk_tasks d) (dk_tasks d'))"
proof -
  let ?ts = "dk_tasks d" and ?db = "dk_db d"
  have unchanged: ?thesis if "d' = d"
    using side that by (auto simp: asked_now_def split: reply_task.splits)
  show ?thesis
  proof (cases "k < length ?ts \<and> lock_free d")
    case False
    then have "d' = d" by (auto simp: d'_def reply_turn_def)
    then show ?thesis by (rule unchanged)
  next
    case True
    then have k: "k < length ?ts" and free: "\<forall>t \<in> set ?ts. \<not> is_asking t" by (simp_all add: lock_free_iff)
    have rest: "\<forall>t \<in> set (take k ?ts @ drop (Suc k) ?ts). \<not> is_asking t"
      using free by (auto dest: in_set_takeD in_set_dropD)
    show ?thesis
    proof (cases "?ts ! k")
      case (Asking r attempts a)
      then have "d' = d" using True by (simp add: d'_def reply_turn_def)
      then show ?thesis by (rule unchanged)
    next
      case (Applying r attempts due)
      then have r: "reply_of_task (?ts ! k) = r" by simp
      have task: "task_ok ?db (Applying r attempts due)"
        using side k Applying nth_mem [OF k] by (simp add: reply_side_def asks_ok_def)
      show ?thesis
      proof (cases "now < due")
        case True
        then have "d' = d" using \<open>k < length ?ts \<and> lock_free d\<close> Applying by (simp add: d'_def reply_turn_def)
        then show ?thesis by (rule unchanged)
      next
        case False
        obtain x db' where applied: "apply_reply r ?db = (x, db')" by fastforce
        have turn: "d' = (case x of
            Settled status outcome \<Rightarrow> settle_task k r status outcome (d\<lparr>dk_db := db'\<rparr>)
          | To_Ask a \<Rightarrow> d\<lparr>dk_db := db', dk_tasks := ?ts[k := Asking r attempts a]\<rparr>)"
          using k True Applying False applied \<open>k < length ?ts \<and> lock_free d\<close>
          by (simp add: d'_def reply_turn_def split: applied.split)
        have db': "notice_ok db'" "notice_ok ?db"
          using apply_reply_frames(3) [OF applied] side by (simp_all add: reply_side_def replies_ok_def)
        have no_ask: "asked_now k ?ts (take k ?ts @ drop (Suc k) ?ts) = []"
        proof (cases "k < length (take k ?ts @ drop (Suc k) ?ts)")
          case True
          then have "\<not> is_asking ((take k ?ts @ drop (Suc k) ?ts) ! k)" using rest nth_mem by blast
          then show ?thesis by (auto simp: asked_now_def is_asking_def split: reply_task.splits)
        qed (simp add: asked_now_def)
        from applied show ?thesis
        proof (cases rule: apply_reply_cases)
          case (muted status outcome)
          have "reply_side db' ?ts log"
            by (rule same_frames_side [OF side db'(1)]) (use muted(3) mute_frames in auto)
          from settled_side [OF this k r rest muted(4), of outcome] muted(2)
          show ?thesis using turn muted(1) no_ask by simp
        next
          case (stale status outcome)
          have "reply_side db' ?ts log"
          proof (cases "db' = ?db")
            case False
            then have db'_eq: "db' = reply_calling (reply_calling ?db (rv_id r) True) (rv_id r) False"
              and plain: "\<not> rv_calling r" "rv_stop r = None" using stale(3) by simp_all
            have "db' = reply_calling ?db (rv_id r) False"
              unfolding db'_eq reply_calling_def set_reply_def by (simp add: row_update_def comp_def)
            moreover have "reply_side (reply_calling ?db (rv_id r) False) (?ts[k := ?ts ! k]) log"
            proof (rule calling_side [OF side k r rest])
              have not_called: "\<not> called ?db (rv_id r)" using task plain by (simp add: task_ok_def)
              show "asked_safely log" using side by (simp add: reply_side_def asks_ok_def)
              show "if i = rv_id r then False else may_have_landed log i" if "may_have_landed log i" for i
                using that not_called side by (auto simp: reply_side_def asks_ok_def)
            qed (use task Applying r in \<open>auto simp: task_ok_def\<close>)
            ultimately show ?thesis by simp
          qed (use side in simp)
          from settled_side [OF this k r rest] stale(2)
          have "reply_side (settle_reply db' (rv_id r) status outcome) (take k ?ts @ drop (Suc k) ?ts) log" by auto
          then show ?thesis using turn stale(1) no_ask by simp
        next
          case (stop st t)
          have "asked_now k ?ts (?ts[k := Asking r attempts (Ask_Stop st t)]) = [Asked (rv_id r) (Ask_Stop st t)]"
            using k Applying by (simp add: asked_now_def)
          then show ?thesis using asking_stop_side [OF side k r free, of "Ask_Stop st t"] stop turn by simp
        next
          case (asks a)
          have log: "asked_now k ?ts (?ts[k := Asking r attempts a]) = [Asked (rv_id r) a]"
            using k Applying by (simp add: asked_now_def)
          have not_landed: "\<not> may_have_landed log (rv_id r)"
            using task asks(3,4) side by (auto simp: task_ok_def reply_side_def asks_ok_def)
          have "reply_side (reply_calling ?db (rv_id r) True) (?ts[k := Asking r attempts a]) (log @ [Asked (rv_id r) a])"
          proof (rule calling_side [OF side k r rest])
            show "task_ok (reply_calling ?db (rv_id r) True) (Asking r attempts a)"
              using task asks by (simp add: task_ok_def)
            show "asked_safely (log @ [Asked (rv_id r) a])"
              using side not_landed by (simp add: asked_safely_snoc reply_side_def asks_ok_def)
          qed (auto simp: landed_after_def split: if_splits)
          then show ?thesis using turn asks(1,6) log by simp
        qed
      qed
    qed
  qed
qed

section \<open>The end of an ask\<close>

lemma ask_ends_cases:
  assumes "ask_ends a result r db = (x, db')"
  obtains (concluded) status outcome where "x = Concluded status outcome" "db' = db" "status \<noteq> Reply_Received"
      "\<forall>retryable error. result \<noteq> Ask_Raised retryable error"
  | (stop_raised) retryable error where "x = Raised retryable error" "is_stop a" "db' = db"
  | (raised) retryable error where "x = Raised retryable error" "\<not> is_stop a" "result = Ask_Raised retryable error"
      "db' = reply_calling db (rv_id r) False"
  using assms by (cases a; cases result) (auto simp: ask_ends_def intro: that)

lemma landed_after_end:
  "landed_after i (Ask_Over j result) landed \<Longrightarrow> landed"
  "(\<forall>retryable error. result \<noteq> Ask_Raised retryable error) \<Longrightarrow> landed_after i (Ask_Over j result) landed \<longleftrightarrow> landed"
  by (auto simp: landed_after_def split: if_splits)

text \<open>The log with an end that leaves what may have landed, or takes something away.\<close>

lemma side_after_end:
  assumes side: "reply_side db ts log" and known: "j \<in> reply_ids db"
  shows "reply_side db ts (log @ [Ask_Over j result])"
proof -
  have "called db i" if "may_have_landed (log @ [Ask_Over j result]) i" for i
    using that landed_after_end(1) [of i j result "may_have_landed log i"] side
    by (simp add: reply_side_def asks_ok_def)
  then show ?thesis using assms
    by (simp add: reply_side_def asks_ok_def asked_safely_snoc del: may_have_landed_append)
qed

lemma ask_answered_side:
  fixes d now k result
  assumes side: "reply_side (dk_db d) (dk_tasks d) log"
  defines "d' \<equiv> ask_answered now k result d"
  shows "reply_side (dk_db d') (dk_tasks d') (log @ ended_now k result (dk_tasks d))"
proof -
  let ?ts = "dk_tasks d" and ?db = "dk_db d"
  show ?thesis
  proof (cases "k < length ?ts \<and> is_asking (?ts ! k)")
    case False
    then have "d' = d" "ended_now k result ?ts = []"
      by (auto simp: d'_def ask_answered_def ended_now_def is_asking_def split: reply_task.splits)
    then show ?thesis using side by simp
  next
    case True
    then obtain r attempts a where here: "?ts ! k = Asking r attempts a" and k: "k < length ?ts"
      by (auto simp: is_asking_def split: reply_task.splits)
    then have r: "reply_of_task (?ts ! k) = r" and log: "ended_now k result ?ts = [Ask_Over (rv_id r) result]"
      by (simp_all add: ended_now_def)
    have at: "?ts ! k \<in> set ?ts" using k by simp
    have task: "task_ok ?db (Asking r attempts a)" and one: "length (filter is_asking ?ts) \<le> 1"
      using side at here by (simp_all add: reply_side_def asks_ok_def)
    have rest: "\<forall>t \<in> set (take k ?ts @ drop (Suc k) ?ts). \<not> is_asking t"
      using one_asking [OF one k] True by simp
    have known: "rv_id r \<in> reply_ids ?db" using side at r by (auto simp: reply_side_def replies_ok_def)
    let ?log = "log @ [Ask_Over (rv_id r) result]"
    have ended: "reply_side ?db ?ts ?log" by (rule side_after_end [OF side known])
    obtain x db' where came: "ask_ends a result r ?db = (x, db')" by fastforce
    have answer: "d' = (case x of
        Concluded status outcome \<Rightarrow> settle_task k r status outcome (d\<lparr>dk_db := db'\<rparr>)
      | Raised retryable error \<Rightarrow>
          if retryable \<and> now - rv_received r < GIVE_UP_AFTER
          then d\<lparr>dk_db := db', dk_tasks := ?ts[k :=
            Applying r (Suc attempts) (now + int (send_backoff (Suc attempts)) * SECOND)]\<rparr>
          else settle_task k r Reply_Failed (''Not answered: '' @ error) (d\<lparr>dk_db := db'\<rparr>))"
      using k here came by (simp add: d'_def ask_answered_def)
    from came show ?thesis
    proof (cases rule: ask_ends_cases)
      case (concluded status outcome)
      have "status = Reply_Applied \<Longrightarrow> rv_option r = None \<or> rv_stop r \<noteq> None \<or>
          \<not> answered_by_option ?db (cm_id (rv_notification r))"
        using task by (auto simp: task_ok_def)
      from settled_side [OF ended k r rest concluded(3) this, of outcome]
      show ?thesis using answer concluded log by simp
    next
      case (stop_raised retryable error)
      have gives_up: "reply_side (settle_reply ?db (rv_id r) Reply_Failed out) (take k ?ts @ drop (Suc k) ?ts) ?log" for out
        by (rule settled_side [OF ended k r rest]) simp_all
      have again: "reply_side ?db (ts'[k := Applying r n due]) ?log" if "ts' = ?ts" for ts' n due
      proof -
        have ok: "replies_ok ?db ?ts" "asks_ok ?db ?ts ?log" using ended by (simp_all add: reply_side_def)
        have "replies_ok ?db (?ts[k := Applying r n due])"
          by (rule replies_ok_changed [OF ok(1) k _ same_replies_refl]) (use r ok(1) in \<open>simp_all add: replies_ok_def\<close>)
        moreover have "task_ok ?db t" if t: "t \<in> set (?ts[k := Applying r n due])" for t
          using others_after_update [OF k t] ok(2) task stop_raised(2)
          by (auto simp: asks_ok_def task_ok_def dest: in_set_takeD in_set_dropD)
        ultimately show ?thesis
          using ok(2) that asking_after_update [OF k rest] by (simp add: reply_side_def asks_ok_def)
      qed
      show ?thesis using answer stop_raised log gives_up again [OF refl] by simp
    next
      case (raised retryable error)
      have plain: "\<not> rv_calling r" "rv_stop r = None" using task raised(2) by (auto simp: task_ok_def)
      have again: "reply_side (reply_calling ?db (rv_id r) False) (?ts[k := Applying r n due]) ?log" for n due
      proof (rule calling_side [OF side k r rest])
        show "task_ok (reply_calling ?db (rv_id r) False) (Applying r n due)"
          using task by (simp add: task_ok_def)
        show "asked_safely ?log" using side by (simp add: asked_safely_snoc reply_side_def asks_ok_def)
      qed (auto simp: raised(3) landed_after_def split: if_splits)
      have "reply_side (settle_reply (reply_calling ?db (rv_id r) False) (rv_id r) Reply_Failed out)
          (take k ?ts @ drop (Suc k) ?ts) ?log" for out
      proof -
        let ?ts' = "?ts[k := Applying r 0 0]"
        have "take k ?ts' @ drop (Suc k) ?ts' = take k ?ts @ drop (Suc k) ?ts" by simp
        moreover have "reply_side (settle_reply (reply_calling ?db (rv_id r) False) (rv_id r) Reply_Failed out)
            (take k ?ts' @ drop (Suc k) ?ts') ?log"
          by (rule settled_side [OF again]) (use k rest in simp_all)
        ultimately show ?thesis by simp
      qed
      with again show ?thesis using answer raised(1,4) log by (simp split: if_split)
    qed
  qed
qed

section \<open>New replies and new starts\<close>

lemma in_case_option: "r \<in> set (case x of None \<Rightarrow> [] | Some n \<Rightarrow> [f n]) \<longleftrightarrow> (\<exists>n. x = Some n \<and> r = f n)"
  by (cases x) auto

lemma received_matches:
  assumes "notice_ok db" and "r \<in> set (received_replies db only)"
  shows "matches_row db r \<and> (rv_calling r \<longleftrightarrow> called db (rv_id r))"
proof -
  have "\<exists>p n. p \<in> set (reply_rows db) \<and> notification_by_id db (rp_notification p) = Some n \<and> rv_id r = rp_id p \<and>
      rv_option r = rp_option p \<and> rv_notification r = message_of n \<and> rv_stop r = nr_stop n \<and> rv_calling r = rp_calling p"
    using assms(2) unfolding received_replies_def set_concat set_map
    by (auto simp only: in_case_option UN_iff set_filter mem_Collect_eq) (metis received_reply.select_convs(1,2,5,9,11))+
  then obtain p n where p: "p \<in> set (reply_rows db)" "notification_by_id db (rp_notification p) = Some n"
    and r: "rv_id r = rp_id p" "rv_option r = rp_option p" "rv_notification r = message_of n" "rv_stop r = nr_stop n"
      "rv_calling r = rp_calling p" by blast
  have row: "reply_row_of db (rp_id p) = Some p"
    using assms(1) p(1) unfolding reply_row_of_def by (intro find_distinct_key) (simp_all add: notice_ok_def)
  have "n \<in> set (notification_rows db)" "nr_id n = rp_notification p"
    using p(2) by (auto simp: notification_by_id_def dest: find_Some_key)
  then show ?thesis using row r by (auto simp: matches_row_def called_def message_of_def)
qed

lemma received_task_ok:
  "notice_ok db \<Longrightarrow> r \<in> set (received_replies db only) \<Longrightarrow> task_ok db (Applying r a t)"
  using received_matches by (simp add: task_ok_def)

lemma resume_side:
  assumes "reply_side db ts log" and "dk_tasks d = []" and "dk_db d = db"
  shows "reply_side db (dk_tasks (resume_replies now d)) log"
proof -
  have db: "notice_ok db" using assms(1) by (simp add: reply_side_def replies_ok_def)
  have keys: "map reply_key (dk_tasks (resume_replies now d)) = due_replies db"
    using assms received_keys [OF db, of None] by (simp add: resume_replies_def)
  have "replies_ok db (dk_tasks (resume_replies now d))"
    using db replies.served_afresh [OF db] replies.due_rows by (auto simp: replies_ok_def keys)
  moreover have "task_ok db t \<and> \<not> is_asking t" if "t \<in> set (dk_tasks (resume_replies now d))" for t
    using that assms(2,3) received_task_ok [OF db] by (auto simp: resume_replies_def start_replies_def)
  ultimately show ?thesis
    using assms(1) by (simp add: reply_side_def asks_ok_def none_asking)
qed

lemma record_answer_side:
  fixes d now i n c option_text
  assumes side: "reply_side (dk_db d) (dk_tasks d) log"
  defines "d' \<equiv> snd (record_answer now i n c option_text d)"
  shows "reply_side (dk_db d') (dk_tasks d') log"
proof (cases "record_reply (dk_db d) i n c option_text now")
  case (Inl err)
  then show ?thesis using side by (simp add: d'_def record_answer_def)
next
  case (Inr db')
  let ?db = "dk_db d" and ?ts = "dk_tasks d"
  define p where "p = \<lparr>rp_id = i, rp_notification = n, rp_channel = c, rp_option = option_text,
      rp_received = now, rp_status = Reply_Received, rp_outcome = None, rp_calling = False\<rparr>"
  have d': "d' = start_replies (received_replies db' (Some i)) now (d\<lparr>dk_db := db'\<rparr>)"
    using Inr by (simp add: d'_def record_answer_def)
  have new: "i \<notin> reply_ids ?db" and db'_eq: "db' = ?db\<lparr>reply_rows := reply_rows ?db @ [p]\<rparr>"
    using Inr by (auto simp: record_reply_def p_def split: if_splits)
  have ok: "replies_ok ?db ?ts" "asks_ok ?db ?ts log" and db: "notice_ok ?db"
    using side by (simp_all add: reply_side_def replies_ok_def)
  have db': "notice_ok db'" by (rule record_reply_ok [OF db Inr])
  have same: "notification_rows db' = notification_rows ?db" by (simp add: db'_eq)
  have due: "due_replies db' = due_replies ?db @ [i]" by (simp add: due_replies_def db'_eq p_def)
  have js: "map rv_id (received_replies db' (Some i)) = [i]"
  proof -
    have "i \<notin> set (due_replies ?db)" using new replies.due_rows [of i ?db] by auto
    then have "filter ((=) i) (due_replies ?db) = []" by (auto simp: filter_empty_conv)
    then show ?thesis using received_keys [OF db', of "Some i"] due by simp
  qed
  have row: "reply_row_of db' j = (if j = i then Some p else reply_row_of ?db j)" for j
  proof (cases "reply_row_of ?db j")
    case None
    then show ?thesis by (simp add: reply_row_of_def db'_eq find_append p_def)
  next
    case (Some q)
    then have "j \<noteq> i" using new reply_row_of_known [of j ?db] by auto
    then show ?thesis using Some by (simp add: reply_row_of_def db'_eq find_append)
  qed
  have "replies.served db' (map reply_key ?ts @ [i])"
  proof (rule replies.served_more [of ?db _ db' "{i}"])
    show "replies.served ?db (map reply_key ?ts)" using ok(1) by (simp add: replies_ok_def)
    show "{i} \<inter> (set (map reply_key ?ts) \<union> set (map rp_id (reply_rows ?db))) = {}"
      using new ok(1) by (auto simp: replies_ok_def)
  qed (simp_all add: due, simp add: db'_eq p_def)
  moreover have ids: "reply_ids db' = insert i (reply_ids ?db)" by (simp add: db'_eq p_def)
  ultimately have "replies_ok db' (dk_tasks d')"
    using ok(1) db' js by (auto simp: replies_ok_def d' start_replies_def comp_def)
  moreover have "task_ok db' t" if "t \<in> set ?ts" for t
  proof -
    have t: "task_ok ?db t" "reply_key t \<noteq> i"
      using that ok new by (auto simp: asks_ok_def replies_ok_def)
    then have own: "matches_row db' (reply_of_task t)" "called db' (reply_key t) \<longleftrightarrow> called ?db (reply_key t)"
      by (auto simp: task_ok_def matches_row_def called_def row same)
    have "answered_by_option db' m \<longleftrightarrow> answered_by_option ?db m" for m
      by (simp add: answered_by_option_def db'_eq p_def)
    then show ?thesis using t own by (cases t) (simp_all add: task_ok_def)
  qed
  moreover have "task_ok db' (Applying r 0 now)" if "r \<in> set (received_replies db' (Some i))" for r
    by (rule received_task_ok [OF db' that])
  moreover have "called db' j" if "may_have_landed log j" for j
    using that ok(2) new reply_row_of_known [of i ?db] by (auto simp: asks_ok_def called_def row)
  moreover have "option_answers db' m = option_answers ?db m" for m
    by (simp add: option_answers_def db'_eq p_def)
  ultimately show ?thesis
    using ok(2) ids same
    by (auto simp: reply_side_def asks_ok_def d' start_replies_def comp_def)
qed

end
