(* ===== verification/Mail_Promises.thy ===== *)
theory Mail_Promises
  imports Reply_Laws
begin

text \<open>
  What the outbox and the replies promise in every reachable state, over everything that can happen to
  them and every restart: each row that has work left has its task, the deliveries follow a small
  specification, no answer is asked for twice, and an instance stays within its daily cap.
\<close>

section \<open>The invariant of the system\<close>

definition mail_ok :: "mail \<Rightarrow> bool" where
  "mail_ok m \<longleftrightarrow> deliveries_ok (ml_post m) \<and> reply_side (ml_db m) (ml_replies m) (ml_log m)"

lemma mail_ok_notices: "mail_ok m \<Longrightarrow> notice_ok (ml_db m)"
  by (simp add: mail_ok_def deliveries_ok_def)

lemma on_post_ok:
  assumes "mail_ok m" and "deliveries_ok (f (ml_post m))" and "same_answers (ml_db m) (po_db (f (ml_post m)))"
  shows "mail_ok (on_post f m)"
  using assms reply_side_same [of "ml_db m" "ml_replies m" "ml_log m" "po_db (f (ml_post m))"]
  by (simp add: mail_ok_def deliveries_ok_def)

lemma on_table_ok:
  assumes "mail_ok m" and "notice_ok (f (ml_db m))"
    and "delivery_rows (f (ml_db m)) = delivery_rows (ml_db m)"
    and "notification_rows (f (ml_db m)) = notification_rows (ml_db m)"
    and "reply_rows (f (ml_db m)) = reply_rows (ml_db m)"
  shows "mail_ok (on_table f m)"
proof -
  have "deliveries_ok (ml_post (on_table f m))"
    by (rule deliveries_ok_same [of "ml_post m"]) (use assms in \<open>simp_all add: mail_ok_def same_deliveries_def\<close>)
  then show ?thesis
    using assms same_frames_side [of "ml_db m" "ml_replies m" "ml_log m" "f (ml_db m)"] by (simp add: mail_ok_def)
qed

lemma channel_frames [simp]:
  "reply_rows (update_channel db i name enabled settings) = reply_rows db"
  "delivery_rows (update_channel db i name enabled settings) = delivery_rows db"
  "notification_rows (update_channel db i name enabled settings) = notification_rows db"
  "reply_rows (pair_channel db i code user) = reply_rows db"
  "delivery_rows (pair_channel db i code user) = delivery_rows db"
  "notification_rows (pair_channel db i code user) = notification_rows db"
  "reply_rows (unmute db i inst) = reply_rows db" "delivery_rows (unmute db i inst) = delivery_rows db"
  "notification_rows (unmute db i inst) = notification_rows db"
  "delivery_rows (channel_sent db i t) = delivery_rows db" "notification_rows (channel_sent db i t) = notification_rows db"
  by (simp_all add: update_channel_def pair_channel_def unmute_def channel_sent_def)

lemma create_channel_frames:
  "create_channel db i name kind settings pair = Inr db' \<Longrightarrow>
     reply_rows db' = reply_rows db \<and> notification_rows db' = notification_rows db \<and> delivery_rows db' = delivery_rows db"
  by (auto simp: create_channel_def split: if_splits)

lemma unless_refused_ok:
  assumes "mail_ok m"
    and "\<And>db'. f (ml_db m) = Inr db' \<Longrightarrow> notice_ok db' \<and> reply_rows db' = reply_rows (ml_db m) \<and>
      notification_rows db' = notification_rows (ml_db m) \<and> delivery_rows db' = delivery_rows (ml_db m)"
  shows "mail_ok (on_table (unless_refused f) m)"
  by (rule on_table_ok [OF assms(1)])
    (use assms mail_ok_notices [OF assms(1)] unless_refused_cases [of f "ml_db m"] in metis)+

lemma channel_deleted_ok:
  assumes "mail_ok m"
  shows "mail_ok (on_table (\<lambda>db. delete_channel db i) m)"
proof -
  let ?db = "ml_db m" and ?db' = "delete_channel (ml_db m) i"
  have db: "notice_ok ?db'" using delete_channel_ok mail_ok_notices [OF assms] by blast
  have "deliveries.served ?db' (task_keys (ml_post m))"
  proof (rule deliveries.served_fewer [of ?db])
    show "deliveries.served ?db (task_keys (ml_post m))" using assms by (simp add: mail_ok_def deliveries_ok_def)
    show "set (map delivery_key (delivery_rows ?db')) \<subseteq> set (map delivery_key (delivery_rows ?db))"
      by (auto simp: delete_channel_def)
    have "distinct (map delivery_key (delivery_rows ?db))"
      using mail_ok_notices [OF assms] by (simp add: notice_ok_def)
    then have "d = d'" if "d \<in> set (delivery_rows ?db)" "d' \<in> set (delivery_rows ?db)" "delivery_key d = delivery_key d'" for d d'
      using that by (auto simp: distinct_map dest: inj_onD)
    then show "set (due_deliveries ?db') = set (due_deliveries ?db) \<inter> set (map delivery_key (delivery_rows ?db'))"
      by (auto simp: due_deliveries_def delete_channel_def) (metis (mono_tags, lifting) image_eqI mem_Collect_eq)
  qed
  then have "deliveries_ok (ml_post (on_table (\<lambda>db. delete_channel db i) m))"
    using assms db by (simp add: mail_ok_def deliveries_ok_def) (simp add: delete_channel_def)
  then show ?thesis
    using assms reply_side_same [OF _ delete_channel_answers db] by (simp add: mail_ok_def)
qed

lemma on_desk_ok:
  assumes "mail_ok m" and "reply_side (dk_db (f (desk_of m))) (dk_tasks (f (desk_of m))) log"
    and "same_deliveries (ml_db m) (dk_db (f (desk_of m)))"
  shows "mail_ok ((on_desk f m)\<lparr>ml_log := log\<rparr>)"
proof -
  have "deliveries_ok (ml_post (on_desk f m))"
    by (rule deliveries_ok_same [of "ml_post m"])
      (use assms in \<open>simp_all add: mail_ok_def reply_side_def replies_ok_def\<close>)
  then show ?thesis using assms(2) by (simp add: mail_ok_def)
qed

lemma desk_log [simp]: "(on_desk f m)\<lparr>ml_log := ml_log m\<rparr> = on_desk f m"
  by (simp add: on_desk_def on_table_def on_post_def Let_def)

lemma same_deliveries_refl [simp]: "same_deliveries db db" by (simp add: same_deliveries_def)

lemma settle_same: "same_deliveries db db' \<Longrightarrow> same_deliveries db (settle_reply db' i status outcome)"
  by (simp add: same_deliveries_def settle_reply_def)

lemma record_answer_deliveries:
  "same_deliveries (dk_db d) (dk_db (snd (record_answer now i n c option_text d)))"
  by (auto simp: record_answer_def record_reply_def same_deliveries_def split: sum.split)

lemma reply_turn_deliveries: "same_deliveries (dk_db d) (dk_db (reply_turn now k d))"
proof -
  have "same_deliveries (dk_db d) db'" if "apply_reply r (dk_db d) = (x, db')" for r x db'
    using apply_reply_frames(2) [OF that] .
  then show ?thesis
    by (auto simp: reply_turn_def settle_same split: reply_task.split prod.split applied.split)
qed

lemma ask_answered_deliveries: "same_deliveries (dk_db d) (dk_db (ask_answered now k result d))"
proof -
  have "same_deliveries (dk_db d) db'" if "ask_ends a result r (dk_db d) = (x, db')" for a r x db'
    using that by (cases rule: ask_ends_cases) (simp_all add: same_deliveries_def reply_calling_def)
  then show ?thesis
    by (auto simp: ask_answered_def settle_same split: reply_task.split prod.split concluded.split)
qed

lemma reply_from_web_cases:
  "snd (reply_from_web now r n option_text d) = d \<or>
   (\<exists>i. snd (reply_from_web now r n option_text d) = snd (record_answer now r i None (Some option_text) d))"
  by (auto simp: reply_from_web_def split: list.split)

lemma take_reply_cases:
  "snd (take_reply now r c message pick d) = d \<or>
   (\<exists>i x. snd (take_reply now r c message pick d) = snd (record_answer now r i (Some c) x d))"
  by (auto simp: take_reply_def Let_def split: option.split sum.split prod.split) (metis snd_conv)+

lemma recorded_ok:
  assumes "mail_ok m"
    and "f (desk_of m) = desk_of m \<or> (\<exists>r i c x. f (desk_of m) = snd (record_answer now r i c x (desk_of m)))"
  shows "mail_ok (on_desk f m)"
proof -
  have "reply_side (ml_db m) (ml_replies m) (ml_log m)" using assms(1) by (simp add: mail_ok_def)
  then have "reply_side (dk_db (f (desk_of m))) (dk_tasks (f (desk_of m))) (ml_log m)"
    "same_deliveries (ml_db m) (dk_db (f (desk_of m)))"
    using assms(2) record_answer_side [of "desk_of m" "ml_log m"] record_answer_deliveries [of "desk_of m"] by auto
  then show ?thesis using on_desk_ok [of m f "ml_log m"] assms(1) by simp
qed

lemma happens_ok:
  assumes "mail_ok m"
  shows "mail_ok (happens pv now ev m)"
proof -
  have post: "deliveries_ok (ml_post m)" and side: "reply_side (dk_db (desk_of m)) (dk_tasks (desk_of m)) (ml_log m)"
    using assms by (simp_all add: mail_ok_def)
  have db: "notice_ok (ml_db m)" by (rule mail_ok_notices [OF assms])
  show ?thesis
  proof (cases ev)
    case (Instance_Raises i inst c)
    then show ?thesis using on_post_ok [OF assms] raise_for_ok [OF post] raise_for_answers by simp
  next
    case (Hub_Notifies i inst key content)
    then show ?thesis using on_post_ok [OF assms] notify_ok [OF post] notify_answers by simp
  next
    case (Sleep_Ends k)
    then show ?thesis using on_post_ok [OF assms] task_wakes_ok [OF post] task_wakes_answers by simp
  next
    case (Send_Ends k sent)
    then show ?thesis using on_post_ok [OF assms] send_ends_ok [OF post] send_ends_answers by simp
  next
    case (Channel_Created i name kind settings pair)
    have "mail_ok (on_table (unless_refused (\<lambda>db. create_channel db i name kind settings pair)) m)"
      by (rule unless_refused_ok [OF assms]) (use create_channel_ok [OF db] create_channel_frames in blast)
    then show ?thesis using Channel_Created by simp
  next
    case (Channel_Muted i inst)
    have "mail_ok (on_table (unless_refused (\<lambda>db. mute db i inst)) m)"
      by (rule unless_refused_ok [OF assms]) (use mute_ok [OF db] mute_frames in blast)
    then show ?thesis using Channel_Muted by simp
  next
    case (Channel_Updated i name enabled settings)
    then show ?thesis by (simp add: on_table_ok [OF assms] update_channel_ok db)
  next
    case (Channel_Paired i code user)
    then show ?thesis by (simp add: on_table_ok [OF assms] pair_channel_ok db)
  next
    case (Channel_Unmuted i inst)
    then show ?thesis by (simp add: on_table_ok [OF assms] unmute_ok db)
  next
    case (Channel_Tested i failed)
    then show ?thesis
      by (cases failed) (simp_all add: on_table_ok [OF assms] channel_sent_ok channel_failed_ok db)
  next
    case (Channel_Deleted i)
    then show ?thesis by (simp add: channel_deleted_ok [OF assms])
  next
    case (Web_Reply r n option_text)
    then show ?thesis
      using recorded_ok [OF assms, of "\<lambda>d. snd (reply_from_web now r n option_text d)"] reply_from_web_cases by simp blast
  next
    case (Channel_Reply r c message pick)
    then show ?thesis
      using recorded_ok [OF assms, of "\<lambda>d. snd (take_reply now r c message pick d)"] take_reply_cases by simp blast
  next
    case (Reply_Turn k)
    then show ?thesis
      using on_desk_ok [of m "reply_turn now k"] reply_turn_side [OF side, of now k] assms
        reply_turn_deliveries [of "desk_of m" now k] by (simp add: Let_def)
  next
    case (Ask_Ends k result)
    then show ?thesis
      using on_desk_ok [of m "ask_answered now k result"] ask_answered_side [OF side, of now k result] assms
        ask_answered_deliveries [of "desk_of m" now k result] by simp
  next
    case (Registry_Changes h)
    then show ?thesis
      using on_post_ok [OF assms, of "\<lambda>p. p\<lparr>po_hub := h\<rparr>"] post
      by (simp add: deliveries_ok_def same_answers_frame)
  qed
qed

lemma started_again_ok:
  assumes "mail_ok m"
  shows "mail_ok (started_again now m)"
proof -
  let ?m = "m\<lparr>ml_post := (ml_post m)\<lparr>po_tasks := []\<rparr>, ml_replies := []\<rparr>"
  let ?p = "on_post resume_outbox ?m"
  have db: "notice_ok (ml_db m)" by (rule mail_ok_notices [OF assms])
  have same: "ml_db ?p = ml_db m" "ml_replies ?p = []" "ml_log ?p = ml_log m"
    by (simp_all add: resume_outbox_def)
  have post: "deliveries_ok (ml_post ?p)" using resume_outbox_ok [of "ml_post ?m"] db by simp
  have "reply_side (ml_db m) (dk_tasks (resume_replies now (desk_of ?p))) (ml_log m)"
    using assms same by (intro resume_side [of _ "ml_replies m"]) (simp_all add: mail_ok_def)
  moreover have "dk_db (resume_replies now (desk_of ?p)) = ml_db m" using same by (simp add: resume_replies_def)
  moreover have "deliveries_ok (ml_post (on_desk (resume_replies now) ?p))"
    by (rule deliveries_ok_same [OF post])
      (use db same in \<open>simp_all add: resume_replies_def\<close>)
  ultimately show ?thesis using same by (simp add: mail_ok_def started_again_def)
qed

lemma first_mail_ok: "mail_ok (first_mail h)"
  by (simp add: mail_ok_def first_mail_def deliveries_ok_def notice_ok_def empty_notices_def reply_side_def
      replies_ok_def asks_ok_def deliveries.served_def replies.served_def asked_safely_def)

theorem reachable_mail_ok: "mail_reachable pv m \<Longrightarrow> mail_ok m"
  by (induction rule: mail_reachable.induct)
    (auto simp: first_mail_ok happens_ok started_again_ok elim!: mail_stepE)

end
