(* ===== verification/Mail_Claims.thy ===== *)
theory Mail_Claims
  imports Mail_Promises Sample_System
begin

text \<open>
  What the outbox and the replies promise to those who use them: a specification of the deliveries
  that every step keeps to, the daily cap, and what following the cursor of a listing gives.
\<close>

section \<open>The deliveries' specification\<close>

text \<open>
  The status of each delivery. A notification starts its deliveries once, each pending or muted; a
  pending one ends once, sent or failed; and a channel that is deleted takes its deliveries along.
\<close>

type_synonym delivery_state = "uuid \<times> uuid \<Rightarrow> delivery_status option"


definition delivery_state :: "notice_db \<Rightarrow> delivery_state" where
  "delivery_state db = map_of (map (\<lambda>d. (delivery_key d, dl_status d)) (delivery_rows db))"















lemma drop_set_state [simp]:
  "delivery_state (po_db (drop_task k p)) = delivery_state (po_db p)"
  "delivery_state (po_db (set_task k t p)) = delivery_state (po_db p)"
  by simp_all









section \<open>The daily cap\<close>

text \<open>
  The notifications an instance raised on a day without asking for an approval. Those of the hub name
  no thread.
\<close>

definition raised_on :: "notice_db \<Rightarrow> uuid \<Rightarrow> int \<Rightarrow> notification_row list" where
  "raised_on db inst day = filter (\<lambda>r. nr_instance r = inst \<and> day_of (nr_raised r) = day \<and>
     nr_thread r \<noteq> None \<and> nr_approval r = None) (notification_rows db)"


lemma raised_on_same: "notification_rows db' = notification_rows db \<Longrightarrow> raised_on db' inst day = raised_on db inst day"
  by (simp add: raised_on_def)
















section \<open>Reading a listing to its end\<close>

text \<open>Follow the cursor from page to page, at most as often as \<open>fuel\<close> says; the oldest come first.\<close>

fun read_on :: "notice_db \<Rightarrow> uuid option \<Rightarrow> uuid option \<Rightarrow> nat \<Rightarrow> nat \<Rightarrow> uuid option \<Rightarrow> notification list" where
  "read_on db inst thread limit 0 cursor = []"
| "read_on db inst thread limit (Suc fuel) cursor =
     (case list_notifications db inst thread cursor (Some limit) of
        (page, None) \<Rightarrow> page
      | (page, Some older) \<Rightarrow> read_on db inst thread limit fuel (Some older) @ page)"

definition listed :: "uuid option \<Rightarrow> uuid option \<Rightarrow> notification_row \<Rightarrow> bool" where
  "listed inst thread r \<longleftrightarrow> (inst = None \<or> inst = Some (nr_instance r)) \<and> (thread = None \<or> thread = nr_thread r)"

definition before_cursor :: "notice_db \<Rightarrow> uuid option \<Rightarrow> notification_row list" where
  "before_cursor db cursor =
     (case cursor of None \<Rightarrow> notification_rows db | Some b \<Rightarrow> rows_before b (notification_rows db))"

lemma notifications_listed:
  "notifications db inst thread None cursor limit =
     map (notification_of db) (newest limit (filter (listed inst thread) (before_cursor db cursor)))"
proof -
  have "(\<lambda>r. (inst = None \<or> inst = Some (nr_instance r)) \<and> (thread = None \<or> thread = nr_thread r)) = listed inst thread"
    by (simp add: fun_eq_iff listed_def)
  then show ?thesis by (simp add: notifications_def before_cursor_def)
qed

lemma notification_of_id [simp]: "no_id (notification_of db r) = nr_id r"
  by (simp add: notification_of_def)

text \<open>A page is the whole rest, or its last rows with the cursor of its first.\<close>

lemma page_cases:
  fixes limit :: nat and inst thread :: "uuid option" and db cursor
  assumes "0 < limit"
  obtains (whole) "length (filter (listed inst thread) (before_cursor db cursor)) \<le> limit"
      "list_notifications db inst thread cursor (Some limit) =
        (map (notification_of db) (filter (listed inst thread) (before_cursor db cursor)), None)"
  | (part) us r vs where "filter (listed inst thread) (before_cursor db cursor) = us @ r # vs"
      "list_notifications db inst thread cursor (Some limit) =
        (map (notification_of db) (r # vs), Some (nr_id r))"
proof (cases "length (filter (listed inst thread) (before_cursor db cursor)) \<le> limit")
  case True
  then show ?thesis using that(1) by (simp add: list_notifications_def notifications_listed newest_def)
next
  case False
  let ?xs = "filter (listed inst thread) (before_cursor db cursor)"
  define k where "k = length ?xs - limit"
  have k: "k < length ?xs" "length ?xs - Suc limit = k - 1" "0 < k" using False assms by (auto simp: k_def)
  have tail: "tl (drop (k - 1) ?xs) = drop k ?xs" using k by (simp add: drop_Suc [symmetric] tl_drop)
  have parts: "?xs = take k ?xs @ ?xs ! k # drop (Suc k) ?xs" "drop k ?xs = ?xs ! k # drop (Suc k) ?xs"
    using k(1) id_take_nth_drop [OF k(1)] Cons_nth_drop_Suc [OF k(1)] by simp_all
  have "limit < length (drop (k - 1) ?xs)" using False k by (simp add: k_def)
  then have "list_notifications db inst thread cursor (Some limit) =
      (map (notification_of db) (drop k ?xs), Some (nr_id (?xs ! k)))"
    using k(2) tail parts(2)
    by (simp add: list_notifications_def notifications_listed newest_def Let_def map_tl [symmetric])
  then show ?thesis using that(2) parts by metis
qed

lemma rows_before_place:
  assumes "distinct (map nr_id (xs @ r # ys))"
  shows "rows_before (nr_id r) (xs @ r # ys) = xs"
proof -
  have "\<forall>x \<in> set xs. nr_id x \<noteq> nr_id r" using assms by (auto simp: rev_image_eqI)
  then show ?thesis by (simp add: rows_before_def takeWhile_append2)
qed

lemma filter_splits:
  "filter q xs = us @ r # vs \<Longrightarrow> \<exists>xs1 xs2. xs = xs1 @ r # xs2 \<and> us = filter q xs1"
proof (induction us arbitrary: xs)
  case Nil
  then show ?case by (auto dest!: filter_eq_ConsD)
next
  case (Cons u us)
  then obtain ys zs where xs: "xs = ys @ u # zs" "\<forall>y \<in> set ys. \<not> q y" "q u" "us @ r # vs = filter q zs"
    by (auto dest!: filter_eq_ConsD)
  obtain xs1 xs2 where "zs = xs1 @ r # xs2" "us = filter q xs1" using Cons.IH [of zs] xs(4) by metis
  then have "xs = (ys @ u # xs1) @ r # xs2 \<and> u # us = filter q (ys @ u # xs1)" using xs by simp
  then show ?case by blast
qed

lemma read_on_all:
  assumes "distinct (map nr_id (notification_rows db))" and "0 < limit"
    and "notification_rows db = xs @ ys" and "before_cursor db cursor = xs" and "length xs < fuel"
  shows "read_on db inst thread limit fuel cursor = map (notification_of db) (filter (listed inst thread) xs)"
  using assms(3-5)
proof (induction fuel arbitrary: xs ys cursor)
  case (Suc fuel)
  show ?case
  proof (cases rule: page_cases [OF assms(2), of inst thread db cursor])
    case 1
    then show ?thesis using Suc.prems by simp
  next
    case (2 us r vs)
    then obtain xs1 xs2 where xs: "xs = xs1 @ r # xs2" and us: "us = filter (listed inst thread) xs1"
      using Suc.prems(2) filter_splits by metis
    have "before_cursor db (Some (nr_id r)) = xs1"
      using rows_before_place [of xs1 r "xs2 @ ys"] assms(1) Suc.prems(1) xs by (simp add: before_cursor_def)
    then have "read_on db inst thread limit fuel (Some (nr_id r)) = map (notification_of db) us"
      using Suc.IH [of xs1 "r # xs2 @ ys"] Suc.prems xs us by simp
    then show ?thesis using 2 Suc.prems(2) by simp
  qed
qed simp


lemma row_of_map: "map (\<lambda>r. (key r, st r)) rows = xs \<Longrightarrow> (k, s) \<in> set xs \<Longrightarrow> \<exists>r \<in> set rows. key r = k \<and> st r = s"
  by auto

section \<open>A concrete system\<close>

text \<open>One channel, and a notification the instance raises; it is sent, and answered twice.\<close>

definition sample_post_env :: post_env where
  "sample_post_env = \<lparr>pv_public_url = None, pv_limit = (\<lambda>_. Some 500)\<rparr>"

definition sample_raise :: raise_command where
  "sample_raise = \<lparr>rc_key = ''ask'', rc_thread = 9, rc_source = ''Chat'', rc_title = ''Deploy?'',
     rc_text = ''Now?'', rc_options = [''Yes'', ''No''], rc_approval = None\<rparr>"

definition sample_raised :: mail where
  "sample_raised = happen_all sample_post_env
     [(10, Channel_Created 5 ''Phone'' ''telegram'' [] None), (20, Instance_Raises 20 1 sample_raise)]
     (first_mail sample_hub)"

definition sample_sent :: mail where
  "sample_sent = happen_all sample_post_env [(30, Sleep_Ends 0), (40, Send_Ends 0 (Inr ''m1''))] sample_raised"

definition sample_asked :: mail where
  "sample_asked = happen_all sample_post_env
     [(50, Web_Reply 30 20 ''Yes''), (50, Channel_Reply 31 5 ''m1'' 1), (60, Reply_Turn 0),
      (70, Ask_Ends 0 (Ask_Raised True ''busy'')), (80 + DAY, Reply_Turn 0)] sample_sent"

definition sample_answered :: mail where
  "sample_answered = happen_all sample_post_env [(90 + DAY, Ask_Ends 0 (Ask_Done [])), (95 + DAY, Reply_Turn 0)] sample_asked"

lemma sample_mail_reachable:
  "mail_reachable sample_post_env sample_raised" "mail_reachable sample_post_env sample_sent"
  "mail_reachable sample_post_env sample_asked" "mail_reachable sample_post_env sample_answered"
  by (simp_all add: sample_answered_def sample_asked_def sample_sent_def sample_raised_def
      happen_all_reachable mail_reachable.start del: happen_all.simps)





lemma sample_log:
  "ml_log sample_asked = [Asked 30 (Ask_Turn 1 9 ''Yes''), Ask_Over 30 (Ask_Raised True ''busy'')] @
     Asked 30 (Ask_Turn 1 9 ''Yes'') # []"
  by code_simp

lemma sample_notification:
  "map (\<lambda>r. (nr_id r, nr_stop r)) (notification_rows (ml_db sample_answered)) = [(20, None)]"
  by code_simp

section \<open>Properties\<close>

text \<open>C12: In every reachable state of the hub's mail the tables of channels, mutes, notifications,
  deliveries and replies are well-formed: ids, mutes, raised keys and delivery keys are unique, and every
  row names rows that exist.\<close>

theorem tables_stay_well_formed:
  assumes "mail_reachable pv m"
  shows "notice_ok (ml_db m)"
  by (rule mail_ok_notices [OF reachable_mail_ok [OF assms]])

theorem tables_stay_well_formed_witness: "notice_ok (ml_db sample_answered)"
  by (rule tables_stay_well_formed [OF sample_mail_reachable(4)])





text \<open>C8: A notification that is not a stopped run is answered by one of its options at most once, however
  many answers are given to it, from however many channels, and whatever restarts.\<close>

theorem answered_at_most_once:
  assumes "mail_reachable pv m" and "n \<in> set (notification_rows (ml_db m))" and "nr_stop n = None"
  shows "length (option_answers (ml_db m) (nr_id n)) \<le> 1"
  using reachable_mail_ok [OF assms(1)] assms(2,3) by (simp add: mail_ok_def reply_side_def asks_ok_def)

theorem answered_at_most_once_witness: "length (option_answers (ml_db sample_answered) 20) \<le> 1"
proof -
  have "\<exists>n \<in> set (notification_rows (ml_db sample_answered)). nr_id n = 20 \<and> nr_stop n = None"
    by (rule row_of_map [OF sample_notification]) simp
  then obtain n where "n \<in> set (notification_rows (ml_db sample_answered))" "nr_id n = 20" "nr_stop n = None" by blast
  then show ?thesis using answered_at_most_once [OF sample_mail_reachable(4), of n] by simp
qed

text \<open>C9: An answer to an instance that may already have reached it is never asked of it again, over any
  order of answers, lost replies and restarts.\<close>

theorem never_asked_twice:
  assumes "mail_reachable pv m" and "ml_log m = before @ Asked i a # after" and "\<not> is_stop a"
  shows "\<not> may_have_landed before i"
  using reachable_mail_ok [OF assms(1)] assms(2,3)
  by (simp add: mail_ok_def reply_side_def asks_ok_def asked_safely_def)

theorem never_asked_twice_witness:
  "\<not> may_have_landed [Asked 30 (Ask_Turn 1 9 ''Yes''), Ask_Over 30 (Ask_Raised True ''busy'')] 30"
  by (rule never_asked_twice [OF sample_mail_reachable(3) sample_log]) simp



text \<open>C11: Following a listing's cursor from the newest page on ends, and gives each notification of the
  instance and thread asked for exactly once, in the order they were raised.\<close>

theorem cursor_reads_everything:
  assumes "mail_reachable pv m" and "0 < limit" and "length (notification_rows (ml_db m)) < fuel"
  shows "read_on (ml_db m) inst thread limit fuel None = notifications (ml_db m) inst thread None None None"
proof -
  have "distinct (map nr_id (notification_rows (ml_db m)))"
    using mail_ok_notices [OF reachable_mail_ok [OF assms(1)]] by (simp add: notice_ok_def)
  then show ?thesis
    using read_on_all [of "ml_db m" limit "notification_rows (ml_db m)" "[]" None fuel inst thread] assms(2,3)
    by (simp add: notifications_listed before_cursor_def newest_def)
qed

theorem cursor_reads_everything_witness:
  "read_on (ml_db sample_answered) (Some 1) None 1 2 None =
   notifications (ml_db sample_answered) (Some 1) None None None None"
proof -
  have "length (notification_rows (ml_db sample_answered)) < 2"
    using sample_notification by (metis length_map length_Cons list.size(3) lessI One_nat_def Suc_1)
  then show ?thesis by (intro cursor_reads_everything [OF sample_mail_reachable(4)]) simp_all
qed
end
