(* ===== verification/Channels.thy ===== *)
theory Channels
  imports Outbox Setup_Values
begin

text \<open>
  The channels the user sets up, pairs and tests (\<open>Channels\<close> in src/src/kinby/hub/channels.py), over
  the registry's tables and the hub's secrets (\<open>HubSecrets\<close> in src/src/kinby/hub/secrets.py). The kinds
  that installed packages give are an argument: what a channel of each asks for, whether its service
  calls the hub, and whether the hub registers a route with it. An operation that waits for such a
  service is split there: its first part checks what was sent, its second takes what the service said
  and the state by then.
\<close>

section \<open>State\<close>

record kind_setup =
  ks_settings :: "setup_field list"
  ks_pairs :: bool
  ks_limit :: nat

record channel_kind =
  ki_setup :: kind_setup
  ki_receives :: bool
  ki_registers :: bool

record channel_env =
  ce_kinds :: "(string, channel_kind) dict"
  ce_public_url :: "string option"
  ce_urlsplit :: url_reader

record channel_side =
  cs_db :: notice_db
  cs_hub :: hub_db
  cs_secrets :: "(string, string) dict"

datatype channel_error =
    Invalid_Setup "(string, string) dict"
  | Channel_Not_Found string
  | Channel_Unpaired string
  | Muted_Instance_Not_Found uuid
  | Hub_Secret_Not_Found string
  | Channel_Registry_Error hub_error
  | No_Such_Route

definition PAIRING_SECONDS :: int where "PAIRING_SECONDS = 15 * 60"

text \<open>A channel as the hub shows it.\<close>

record channel_view =
  cw_id :: uuid
  cw_name :: string
  cw_kind :: string
  cw_settings :: "(string, step_value) dict"
  cw_enabled :: bool
  cw_paired :: bool
  cw_pairing_code :: "string option"
  cw_pairing_expires :: "moment option"
  cw_muted :: "uuid list"
  cw_last_sent :: "moment option"
  cw_last_failure :: "channel_failure option"

definition shown :: "channel_record \<Rightarrow> channel_view" where
  "shown r = \<lparr>cw_id = ch_id r, cw_name = ch_name r, cw_kind = ch_kind r, cw_settings = ch_settings r,
     cw_enabled = ch_enabled r, cw_paired = (ch_paired_user r \<noteq> None),
     cw_pairing_code = map_option pa_code (ch_pairing r),
     cw_pairing_expires = map_option pa_expires (ch_pairing r), cw_muted = ch_muted r,
     cw_last_sent = ch_last_sent r, cw_last_failure = ch_last_failure r\<rparr>"

section \<open>The hub's secrets\<close>

text \<open>One protected file holds them by name; a replacement of it happens as one rename.\<close>

definition save_secret :: "string \<Rightarrow> string \<Rightarrow> (string, string) dict \<Rightarrow> (string, string) dict" where
  "save_secret name v kept = dict_set name v kept"

definition delete_secret :: "string \<Rightarrow> (string, string) dict \<Rightarrow> channel_error + (string, string) dict" where
  "delete_secret name kept =
     (if name \<notin> fst ` set kept then Inl (Hub_Secret_Not_Found name)
      else Inr (filter (\<lambda>(k, _). k \<noteq> name) kept))"

definition secret_name :: "uuid \<Rightarrow> string \<Rightarrow> string" where
  "secret_name i field = ''channel-'' @ str_nat i @ ''-'' @ field"

section \<open>Settings\<close>

definition fields_of :: "kind_setup \<Rightarrow> setup_field_kind \<Rightarrow> setup_field list" where
  "fields_of setup kind = filter (\<lambda>f. sf_kind f = kind) (ks_settings setup)"

text \<open>Why the settings a field holds by then do not do, if they do not.\<close>

definition field_problem ::
  "url_reader \<Rightarrow> setup_field \<Rightarrow> step_value option \<Rightarrow> (string, string) dict \<Rightarrow> string option" where
  "field_problem urlsplit f v typed =
     (if sf_kind f = Secret_Field
      then (if sf_required f \<and> v = None \<and> strip (dict_get typed (sf_name f) []) = []
            then Some (sf_label f @ '' is required.'') else None)
      else (case v of
              None \<Rightarrow> if sf_required f then Some (sf_label f @ '' is required.'') else None
            | Some x \<Rightarrow>
                map_option (\<lambda>problem. sf_label f @ '' '' @ problem @ ''.'') (value_problem urlsplit f x)))"

definition unknown_settings ::
  "kind_setup \<Rightarrow> setup_field_kind \<Rightarrow> string \<Rightarrow> string list \<Rightarrow> (string, string) dict \<Rightarrow> (string, string) dict" where
  "unknown_settings setup kind message sent errors =
     fold (\<lambda>n es. if n \<in> sf_name ` set (fields_of setup kind) then es else dict_set n message es) sent errors"

definition checked ::
  "url_reader \<Rightarrow> kind_setup \<Rightarrow> (string, step_value) dict \<Rightarrow> (string, string) dict \<Rightarrow> (string, step_value) dict \<Rightarrow>
   channel_error + (string, step_value) dict" where
  "checked urlsplit setup settings typed held =
     (let unknown = unknown_settings setup Secret_Field
            ''This channel kind has no secret setting by this name.'' (map fst typed)
            (unknown_settings setup Config_Field
              ''This channel kind has no configuration setting by this name.'' (map fst settings) []);
          vals = resolved_values (ks_settings setup) (dict_union held settings);
          errors = fold (\<lambda>f es.
              if sf_name f \<in> fst ` set es then es
              else case field_problem urlsplit f (map_of vals (sf_name f)) typed of
                None \<Rightarrow> es
              | Some problem \<Rightarrow> dict_set (sf_name f) problem es) (ks_settings setup) unknown
      in if errors \<noteq> [] then Inl (Invalid_Setup errors) else Inr vals)"

text \<open>
  The settings a kind is built with: the values the hub secrets its secret settings name have, and
  those just typed.
\<close>

definition built ::
  "kind_setup \<Rightarrow> (string, step_value) dict \<Rightarrow> (string, string) dict \<Rightarrow> (string, string) dict \<Rightarrow>
   (string, step_value) dict" where
  "built setup settings typed kept =
     dict_union
       (map (\<lambda>(n, v). (n, if n \<in> sf_name ` set (fields_of setup Secret_Field)
          then VStr (dict_get kept (str_value v) []) else v)) settings)
       (map (\<lambda>(n, v). (n, VStr v)) typed)"

text \<open>Keep each secret setting that was typed as a hub secret, and name it.\<close>

definition kept_secrets ::
  "uuid \<Rightarrow> kind_setup \<Rightarrow> (string, string) dict \<Rightarrow> (string, string) dict \<Rightarrow>
   (string, step_value) dict \<times> (string, string) dict" where
  "kept_secrets i setup typed kept =
     fold (\<lambda>f (names, kept).
         case map_of typed (sf_name f) of
           None \<Rightarrow> (names, kept)
         | Some v \<Rightarrow> (dict_set (sf_name f) (VStr (secret_name i (sf_name f))) names,
                      save_secret (secret_name i (sf_name f)) v kept))
       (fields_of setup Secret_Field) ([], kept)"

section \<open>Reading\<close>

definition kind_of :: "channel_env \<Rightarrow> channel_record \<Rightarrow> channel_error + channel_kind" where
  "kind_of ce r =
     (case map_of (ce_kinds ce) (ch_kind r) of
        None \<Rightarrow> Inl (Channel_Not_Found (''The hub has no channel kind \"'' @ ch_kind r @ ''\" any more.''))
      | Some k \<Rightarrow> Inr k)"

definition existing_channel :: "channel_side \<Rightarrow> uuid \<Rightarrow> channel_error + channel_record" where
  "existing_channel s i =
     (case channel (cs_db s) i of
        None \<Rightarrow> Inl (Channel_Not_Found (''Channel \"'' @ str_nat i @ ''\" was not found.''))
      | Some r \<Rightarrow> Inr r)"

definition message_limit :: "channel_env \<Rightarrow> channel_record \<Rightarrow> channel_error + nat" where
  "message_limit ce r = (case kind_of ce r of Inl e \<Rightarrow> Inl e | Inr k \<Rightarrow> Inr (ks_limit (ki_setup k)))"

text \<open>What a channel's kind is built with to send or to take a call.\<close>

definition sender :: "channel_env \<Rightarrow> channel_side \<Rightarrow> channel_record \<Rightarrow>
   channel_error + (string, step_value) dict \<times> string option" where
  "sender ce s r =
     (case kind_of ce r of
        Inl e \<Rightarrow> Inl e
      | Inr k \<Rightarrow> Inr (built (ki_setup k) (ch_settings r) [] (cs_secrets s), ch_paired_user r))"

definition list_channels :: "channel_side \<Rightarrow> channel_view list" where
  "list_channels s = map shown (channels (cs_db s))"

text \<open>The answer of an operation: the channel as it is by then.\<close>

definition shown_now :: "uuid \<Rightarrow> channel_side \<Rightarrow> (channel_error + channel_view) \<times> channel_side" where
  "shown_now i s = (case existing_channel s i of Inl e \<Rightarrow> (Inl e, s) | Inr r \<Rightarrow> (Inr (shown r), s))"

section \<open>Setting up\<close>

text \<open>What a service said of the route it was told: nothing against it, or the text of its refusal.\<close>

definition registered :: "channel_env \<Rightarrow> string \<Rightarrow> channel_kind \<Rightarrow> string option \<Rightarrow> channel_error + unit" where
  "registered ce kind k refusal =
     (if \<not> ki_registers k then Inr ()
      else case ce_public_url ce of
        None \<Rightarrow> Inl (Invalid_Setup [(''kind'', ''A \"'' @ kind @ ''\" channel needs the hub's public URL.'')])
      | Some _ \<Rightarrow>
          (case refusal of
             None \<Rightarrow> Inr ()
           | Some text \<Rightarrow>
               Inl (Invalid_Setup [(''kind'', ''The service refused the channel's route: '' @ text)])))"

record create_command =
  cc_name :: string
  cc_kind :: string
  cc_settings :: "(string, step_value) dict"
  cc_secrets :: "(string, string) dict"

definition create_checks ::
  "channel_env \<Rightarrow> create_command \<Rightarrow> channel_error + channel_kind \<times> (string, step_value) dict" where
  "create_checks ce c =
     (case map_of (ce_kinds ce) (cc_kind c) of
        None \<Rightarrow> Inl (Invalid_Setup [(''kind'', ''The hub has no channel kind \"'' @ cc_kind c @ ''\".'')])
      | Some k \<Rightarrow>
          (case checked (ce_urlsplit ce) (ki_setup k) (cc_settings c) (cc_secrets c) [] of
             Inl e \<Rightarrow> Inl e
           | Inr settings \<Rightarrow> Inr (k, settings)))"

text \<open>Once its service answered. The code is six digits of the number that was drawn.\<close>

definition create_ends ::
  "channel_env \<Rightarrow> moment \<Rightarrow> uuid \<Rightarrow> nat \<Rightarrow> create_command \<Rightarrow> channel_kind \<Rightarrow> (string, step_value) dict \<Rightarrow>
   string option \<Rightarrow> channel_side \<Rightarrow> (channel_error + channel_view) \<times> channel_side" where
  "create_ends ce now i drawn c k settings refusal s =
     (case registered ce (cc_kind c) k refusal of
        Inl e \<Rightarrow> (Inl e, s)
      | Inr _ \<Rightarrow>
         (case kept_secrets i (ki_setup k) (cc_secrets c) (cs_secrets s) of
            (names, kept) \<Rightarrow>
              (let s' = s\<lparr>cs_secrets := kept\<rparr>;
                   pair = (if ks_pairs (ki_setup k)
                     then Some \<lparr>pa_code = padded 6 drawn, pa_expires = now + PAIRING_SECONDS * SECOND\<rparr> else None)
               in case create_channel (cs_db s) i (cc_name c) (cc_kind c) (dict_union settings names) pair of
                    Inl e \<Rightarrow> (Inl (Channel_Registry_Error e), s')
                  | Inr db \<Rightarrow> shown_now i (s'\<lparr>cs_db := db\<rparr>))))"

record update_command =
  uc_channel :: uuid
  uc_name :: "string option"
  uc_enabled :: "bool option"
  uc_settings :: "(string, step_value) dict"
  uc_secrets :: "(string, string) dict"

definition update_checks ::
  "channel_env \<Rightarrow> update_command \<Rightarrow> channel_side \<Rightarrow>
   channel_error + channel_record \<times> channel_kind \<times> (string, step_value) dict" where
  "update_checks ce c s =
     (case existing_channel s (uc_channel c) of
        Inl e \<Rightarrow> Inl e
      | Inr r \<Rightarrow>
         (case kind_of ce r of
            Inl e \<Rightarrow> Inl e
          | Inr k \<Rightarrow>
             (case checked (ce_urlsplit ce) (ki_setup k) (uc_settings c) (uc_secrets c) (ch_settings r) of
                Inl e \<Rightarrow> Inl e
              | Inr settings \<Rightarrow> Inr (r, k, settings))))"

text \<open>A command that changes no setting asks its service nothing.\<close>

definition update_ends ::
  "channel_env \<Rightarrow> update_command \<Rightarrow> channel_record \<Rightarrow> channel_kind \<Rightarrow> (string, step_value) dict \<Rightarrow>
   string option \<Rightarrow> channel_side \<Rightarrow> (channel_error + channel_view) \<times> channel_side" where
  "update_ends ce c r k settings refusal s =
     (case (if uc_settings c \<noteq> [] \<or> uc_secrets c \<noteq> [] then registered ce (ch_kind r) k refusal else Inr ()) of
        Inl e \<Rightarrow> (Inl e, s)
      | Inr _ \<Rightarrow>
         (case kept_secrets (ch_id r) (ki_setup k) (uc_secrets c) (cs_secrets s) of
            (names, kept) \<Rightarrow>
              shown_now (ch_id r) (s\<lparr>cs_secrets := kept, cs_db := update_channel (cs_db s) (ch_id r)
                (case uc_name c of None \<Rightarrow> ch_name r | Some n \<Rightarrow> n)
                (case uc_enabled c of None \<Rightarrow> ch_enabled r | Some b \<Rightarrow> b)
                (dict_union settings names)\<rparr>)))"

text \<open>Its hub secrets go first, one by one, and then the channel.\<close>

definition forget_secrets :: "uuid \<Rightarrow> string list \<Rightarrow> (string, string) dict \<Rightarrow> (string, string) dict" where
  "forget_secrets i names kept =
     fold (\<lambda>n now_kept.
         if secret_name i n \<in> fst ` set kept
         then (case delete_secret (secret_name i n) now_kept of Inl _ \<Rightarrow> now_kept | Inr kept' \<Rightarrow> kept')
         else now_kept) names kept"

definition delete_of_channel :: "uuid \<Rightarrow> channel_side \<Rightarrow> (channel_error + channel_view list) \<times> channel_side" where
  "delete_of_channel i s =
     (case existing_channel s i of
        Inl e \<Rightarrow> (Inl e, s)
      | Inr r \<Rightarrow>
         (let s' = s\<lparr>cs_secrets := forget_secrets (ch_id r) (map fst (ch_settings r)) (cs_secrets s),
                     cs_db := delete_channel (cs_db s) (ch_id r)\<rparr>
          in (Inr (list_channels s'), s')))"

section \<open>Using\<close>

text \<open>What is sent to test a channel, and what is recorded once it went or not.\<close>

definition test_message :: "uuid \<Rightarrow> channel_record \<Rightarrow> channel_notification" where
  "test_message i r = \<lparr>cm_id = i, cm_header = ''kinby'', cm_title = ''Test'',
     cm_text = ''Notifications reach you through \"'' @ ch_name r @ ''\".'', cm_link = None, cm_options = []\<rparr>"

definition test_checks :: "uuid \<Rightarrow> uuid \<Rightarrow> channel_side \<Rightarrow> channel_error + channel_record \<times> channel_notification" where
  "test_checks new_id i s =
     (case existing_channel s i of
        Inl e \<Rightarrow> Inl e
      | Inr r \<Rightarrow>
          if ch_pairing r \<noteq> None
          then Inl (Channel_Unpaired (''Channel \"'' @ ch_name r @ ''\" is not paired yet.''))
          else Inr (r, test_message new_id r))"

definition test_ends ::
  "channel_env \<Rightarrow> moment \<Rightarrow> channel_record \<Rightarrow> string option \<Rightarrow> channel_side \<Rightarrow>
   (channel_error + channel_view) \<times> channel_side" where
  "test_ends ce now r failed s =
     (let error = (case sender ce s r of
            Inl (Channel_Not_Found message) \<Rightarrow> Some message | Inl _ \<Rightarrow> failed | Inr _ \<Rightarrow> failed);
          db = (case error of
            None \<Rightarrow> channel_sent (cs_db s) (ch_id r) now
          | Some e \<Rightarrow> channel_failed (cs_db s) (ch_id r) e now)
      in shown_now (ch_id r) (s\<lparr>cs_db := db\<rparr>))"

definition mute_instance :: "uuid \<Rightarrow> uuid \<Rightarrow> channel_side \<Rightarrow> (channel_error + channel_view) \<times> channel_side" where
  "mute_instance i inst s =
     (if instance_record (cs_hub s) inst = None then (Inl (Muted_Instance_Not_Found inst), s)
      else case existing_channel s i of
        Inl e \<Rightarrow> (Inl e, s)
      | Inr r \<Rightarrow>
         (case mute (cs_db s) (ch_id r) inst of
            Inl e \<Rightarrow> (Inl (Channel_Registry_Error e), s)
          | Inr db \<Rightarrow> shown_now i (s\<lparr>cs_db := db\<rparr>)))"

definition unmute_instance :: "uuid \<Rightarrow> uuid \<Rightarrow> channel_side \<Rightarrow> (channel_error + channel_view) \<times> channel_side" where
  "unmute_instance i inst s =
     (case existing_channel s i of
        Inl e \<Rightarrow> (Inl e, s)
      | Inr r \<Rightarrow> shown_now i (s\<lparr>cs_db := unmute (cs_db s) (ch_id r) inst\<rparr>))"

text \<open>What a call to a channel's public route carries, as its kind reads it.\<close>

datatype received = Inbound string string | Reply string string int | Nothing_Received

definition route_of :: "channel_env \<Rightarrow> uuid option \<Rightarrow> string \<Rightarrow> channel_side \<Rightarrow> channel_error + channel_record" where
  "route_of ce parsed kind s =
     (case Option.bind parsed (channel (cs_db s)) of
        None \<Rightarrow> Inl No_Such_Route
      | Some r \<Rightarrow>
          if ch_kind r \<noteq> kind then Inl No_Such_Route
          else case map_of (ce_kinds ce) kind of
            None \<Rightarrow> Inl No_Such_Route
          | Some k \<Rightarrow> if ki_receives k then Inr r else Inl No_Such_Route)"

text \<open>The reply to take, if the call carries one of the paired user, and the state once it paired.\<close>

definition receive_ends ::
  "moment \<Rightarrow> channel_record \<Rightarrow> received \<Rightarrow> channel_side \<Rightarrow> (string \<times> int) option \<times> channel_side" where
  "receive_ends now r what s =
     (case what of
        Reply user message place \<Rightarrow>
          (if Some user = ch_paired_user r then Some (message, place) else None, s)
      | Inbound user text \<Rightarrow>
          (case ch_pairing r of
             None \<Rightarrow> (None, s)
           | Some p \<Rightarrow>
               if now < pa_expires p \<and> strip text = pa_code p
               then (None, s\<lparr>cs_db := pair_channel (cs_db s) (ch_id r) (pa_code p) user\<rparr>)
               else (None, s))
      | Nothing_Received \<Rightarrow> (None, s))"

end
