(* ===== verification/Channels_Laws.thy ===== *)
theory Channels_Laws
  imports Channels
begin

text \<open>
  What setting channels up promises: a channel is built with the secrets that were typed for it and
  the settings that were checked, and deleting it leaves none of its secrets and all of the others.
\<close>

section \<open>The names of secrets\<close>

lemma digit_cases: "n < 10 \<Longrightarrow> n \<in> {0, 1, 2, 3, 4, 5, 6, 7, 8, 9 :: nat}"
  by auto

lemma digit_char:
  assumes "n < 10"
  shows "''0123456789'' ! n \<noteq> CHR ''-''" and "of_char (''0123456789'' ! n) - (48 :: nat) = n"
  using digit_cases [OF assms] by auto

lemma str_nat_digits: "CHR ''-'' \<notin> set (str_nat n)"
proof (induction n rule: str_nat.induct)
  case (1 n)
  then show ?case using digit_char(1) [of n] digit_char(1) [of "n mod 10"] by (subst str_nat.simps) auto
qed

definition digits_value :: "string \<Rightarrow> nat" where
  "digits_value s = foldl (\<lambda>v c. 10 * v + (of_char c - 48)) 0 s"

lemma digits_value_str_nat: "digits_value (str_nat n) = n"
proof (induction n rule: str_nat.induct)
  case (1 n)
  then show ?case
    using digit_char(2) [of n] digit_char(2) [of "n mod 10"] by (subst str_nat.simps) (simp add: digits_value_def)
qed

lemma str_nat_eq: "str_nat i = str_nat j \<longleftrightarrow> i = j"
  by (metis digits_value_str_nat)

lemma split_at_first:
  "xs @ c # ys = xs' @ c # ys' \<Longrightarrow> c \<notin> set xs \<Longrightarrow> c \<notin> set xs' \<Longrightarrow> xs = xs' \<and> ys = ys'"
proof (induction xs arbitrary: xs')
  case Nil
  then show ?case by (cases xs') auto
next
  case (Cons x xs)
  then show ?case by (cases xs') auto
qed

lemma secret_name_eq [simp]: "secret_name i f = secret_name j g \<longleftrightarrow> i = j \<and> f = g"
  using split_at_first [of "str_nat i" "CHR ''-''" f "str_nat j" g] str_nat_digits str_nat_eq by (auto simp: secret_name_def)

section \<open>What is kept\<close>

text \<open>Keeping secrets, over the fields that hold them.\<close>

lemma kept_secrets_maps:
  assumes "kept_secrets i setup typed kept = (names, kept')"
  defines "secret \<equiv> \<lambda>n. n \<in> sf_name ` set (fields_of setup Secret_Field)"
  shows "map_of names n = (if secret n \<and> map_of typed n \<noteq> None then Some (VStr (secret_name i n)) else None)"
    and "map_of kept' (secret_name i n) =
      (if secret n \<and> map_of typed n \<noteq> None then map_of typed n else map_of kept (secret_name i n))"
    and "(\<And>n. m \<noteq> secret_name i n) \<Longrightarrow> map_of kept' m = map_of kept m"
    and "distinct (map fst names)"
proof -
  have *: "map_of names' n = (if n \<in> sf_name ` set fs \<and> map_of typed n \<noteq> None
        then Some (VStr (secret_name i n)) else map_of names0 n) \<and>
      map_of kept2 (secret_name i n) = (if n \<in> sf_name ` set fs \<and> map_of typed n \<noteq> None
        then map_of typed n else map_of kept1 (secret_name i n)) \<and>
      ((\<forall>n. m \<noteq> secret_name i n) \<longrightarrow> map_of kept2 m = map_of kept1 m) \<and>
      (distinct (map fst names0) \<longrightarrow> distinct (map fst names'))"
    if "fold (\<lambda>f (names, kept).
         case map_of typed (sf_name f) of
           None \<Rightarrow> (names, kept)
         | Some v \<Rightarrow> (dict_set (sf_name f) (VStr (secret_name i (sf_name f))) names,
                      save_secret (secret_name i (sf_name f)) v kept)) fs (names0, kept1) = (names', kept2)"
    for fs names0 kept1 names' kept2
    using that
    by (induction fs arbitrary: names0 kept1)
      (auto simp: save_secret_def dict_simps split: option.splits)
  note all = * [OF assms(1) [unfolded kept_secrets_def]]
  show "map_of names n = (if secret n \<and> map_of typed n \<noteq> None then Some (VStr (secret_name i n)) else None)"
    using all by (simp add: secret_def)
  show "map_of kept' (secret_name i n) =
      (if secret n \<and> map_of typed n \<noteq> None then map_of typed n else map_of kept (secret_name i n))"
    using all by (simp add: secret_def)
  show "(\<And>n. m \<noteq> secret_name i n) \<Longrightarrow> map_of kept' m = map_of kept m" using all by blast
  show "distinct (map fst names)" using all by simp
qed

section \<open>What is checked\<close>

lemma unknown_settings_keys:
  "fst ` set (unknown_settings setup kind message sent errors) =
     fst ` set errors \<union> (set sent - sf_name ` set (fields_of setup kind))"
proof -
  have "fst ` set (fold (\<lambda>n es. if n \<in> A then es else dict_set n message es) sent errors) =
      fst ` set errors \<union> (set sent - A)" for A
    by (induction sent arbitrary: errors) auto
  then show ?thesis by (simp add: unknown_settings_def)
qed

lemma field_errors_keys:
  "fst ` set es \<subseteq> fst ` set (fold (\<lambda>f es. if sf_name f \<in> fst ` set es then es
      else case problem f of None \<Rightarrow> es | Some p \<Rightarrow> dict_set (sf_name f) p es) fs es)"
proof (induction fs arbitrary: es)
  case (Cons f fs)
  let ?es = "if sf_name f \<in> fst ` set es then es else case problem f of None \<Rightarrow> es | Some p \<Rightarrow> dict_set (sf_name f) p es"
  have "fst ` set es \<subseteq> fst ` set ?es" by (auto split: option.split)
  then show ?case using Cons [of ?es] by simp
qed simp

lemma checked_ok:
  assumes "checked urlsplit setup settings typed held = Inr vals"
  shows "fst ` set typed \<subseteq> sf_name ` set (fields_of setup Secret_Field)"
    and "vals = resolved_values (ks_settings setup) (dict_union held settings)"
proof -
  let ?unknown = "unknown_settings setup Secret_Field ''This channel kind has no secret setting by this name.'' (map fst typed)
    (unknown_settings setup Config_Field ''This channel kind has no configuration setting by this name.'' (map fst settings) [])"
  show vals: "vals = resolved_values (ks_settings setup) (dict_union held settings)"
    using assms by (auto simp: checked_def Let_def split: if_splits)
  have "fold (\<lambda>f es. if sf_name f \<in> fst ` set es then es
      else case field_problem urlsplit f (map_of vals (sf_name f)) typed of
        None \<Rightarrow> es | Some p \<Rightarrow> dict_set (sf_name f) p es) (ks_settings setup) ?unknown = []"
    using assms unfolding checked_def Let_def vals by (simp only: split: if_splits) (simp_all)
  then have "fst ` set ?unknown = {}"
    using field_errors_keys [of ?unknown "\<lambda>f. field_problem urlsplit f (map_of vals (sf_name f)) typed" "ks_settings setup"]
    by simp
  then show "fst ` set typed \<subseteq> sf_name ` set (fields_of setup Secret_Field)"
    unfolding unknown_settings_keys by auto
qed

section \<open>What a kind is built with\<close>

lemma map_of_map_values: "map_of (map (\<lambda>(n, v). (n, f n v)) d) n = map_option (f n) (map_of d n)"
  by (induction d) auto

lemma built_value:
  assumes "distinct (map fst typed)"
  shows "map_of (built setup settings typed kept) n =
    (case map_of typed n of
       Some v \<Rightarrow> Some (VStr v)
     | None \<Rightarrow> map_option (\<lambda>v. if n \<in> sf_name ` set (fields_of setup Secret_Field)
         then VStr (dict_get kept (str_value v) []) else v) (map_of settings n))"
proof -
  have "map fst (map (\<lambda>(n, v). (n, VStr v)) typed) = map fst typed" by (induction typed) auto
  then have "distinct (map fst (map (\<lambda>(n, v). (n, VStr v)) typed))" using assms by metis
  then show ?thesis
    unfolding built_def
    by (simp only: map_of_dict_union map_add_def
        map_of_map_values [of "\<lambda>n v. VStr v"]
        map_of_map_values [of "\<lambda>n v. if n \<in> sf_name ` set (fields_of setup Secret_Field)
          then VStr (dict_get kept (str_value v) []) else v"]) (simp split: option.split)
qed

lemma created_channel:
  assumes "create_channel db i name kind settings pair = Inr db'"
  shows "channel db' i = Some \<lparr>ch_id = i, ch_name = name, ch_kind = kind, ch_settings = settings, ch_enabled = True,
     ch_paired_user = None, ch_pairing = pair, ch_muted = map snd (filter (\<lambda>m. fst m = i) (mute_rows db)),
     ch_last_sent = None, ch_last_failure = None\<rparr>"
proof -
  have new: "i \<notin> cn_id ` set (channel_rows db)" and
    db': "db' = db\<lparr>channel_rows := channel_rows db @
        [\<lparr>cn_id = i, cn_name = name, cn_kind = kind, cn_settings = settings, cn_enabled = True,
          cn_paired_user = None, cn_pairing = pair, cn_last_sent = None, cn_last_failure = None\<rparr>]\<rparr>"
    using assms by (auto simp: create_channel_def split: if_splits)
  have "find (\<lambda>c. ch_id c = i) (map (channel_record_of db') rows @ [r]) = Some r"
    if "i \<notin> cn_id ` set rows" "ch_id r = i" for rows r
    using that by (induction rows) (auto simp: channel_record_of_def)
  then show ?thesis
    using new db' by (simp add: channel_def channels_def) (simp add: channel_record_of_def)
qed

text \<open>C13: Once a channel is set up, its kind is built with each secret as it was typed and with each
  configuration setting as it was checked, and the channel itself holds the name of the hub secret, not
  its value.\<close>

theorem created_channel_is_built_as_typed:
  assumes "create_checks ce c = Inr (k, settings)"
    and "create_ends ce now i drawn c k settings refusal s = (Inr view, s')"
    and "distinct (map fst (cc_secrets c))"
  shows "\<exists>r vals. existing_channel s' i = Inr r \<and> sender ce s' r = Inr (vals, None) \<and>
    (\<forall>n v. map_of (cc_secrets c) n = Some v \<longrightarrow>
       map_of vals n = Some (VStr v) \<and> map_of (cw_settings view) n = Some (VStr (secret_name i n))) \<and>
    (\<forall>n. n \<notin> sf_name ` set (fields_of (ki_setup k) Secret_Field) \<longrightarrow>
       map_of vals n = map_of settings n)"
proof -
  obtain names kept where keeps: "kept_secrets i (ki_setup k) (cc_secrets c) (cs_secrets s) = (names, kept)"
    by (cases "kept_secrets i (ki_setup k) (cc_secrets c) (cs_secrets s)")
  define pair where "pair = (if ks_pairs (ki_setup k)
    then Some \<lparr>pa_code = padded 6 drawn, pa_expires = now + PAIRING_SECONDS * SECOND\<rparr> else None)"
  obtain db where db: "create_channel (cs_db s) i (cc_name c) (cc_kind c) (dict_union settings names) pair = Inr db"
    and s': "s' = s\<lparr>cs_secrets := kept, cs_db := db\<rparr>" and "shown_now i s' = (Inr view, s')"
    using assms(2) keeps
    by (auto simp: create_ends_def pair_def Let_def shown_now_def split: sum.splits)
  have kind: "map_of (ce_kinds ce) (cc_kind c) = Some k"
    and ok: "checked (ce_urlsplit ce) (ki_setup k) (cc_settings c) (cc_secrets c) [] = Inr settings"
    using assms(1) by (auto simp: create_checks_def split: option.splits sum.splits)
  obtain r where r: "channel db i = Some r" "ch_settings r = dict_union settings names" "ch_kind r = cc_kind c"
    "ch_paired_user r = None"
    using created_channel [OF db] by simp
  have view: "cw_settings view = dict_union settings names"
    using \<open>shown_now i s' = (Inr view, s')\<close> r s' by (auto simp: shown_now_def existing_channel_def shown_def)
  let ?vals = "built (ki_setup k) (dict_union settings names) [] kept"
  have sends: "sender ce s' r = Inr (?vals, None)"
    using r kind s' by (simp add: sender_def kind_of_def)
  have held: "map_of (dict_union settings names) n =
      (case map_of names n of None \<Rightarrow> map_of settings n | Some v \<Rightarrow> Some v)" for n
    by (simp add: map_of_dict_union [OF kept_secrets_maps(4) [OF keeps]] map_add_def)
  have typed: "map_of ?vals n = Some (VStr v) \<and> map_of (cw_settings view) n = Some (VStr (secret_name i n))"
    if "map_of (cc_secrets c) n = Some v" for n v
  proof -
    have "n \<in> fst ` set (cc_secrets c)" using that by (force dest: map_of_SomeD)
    then have "n \<in> sf_name ` set (fields_of (ki_setup k) Secret_Field)" using checked_ok(1) [OF ok] by blast
    then show ?thesis
      using that kept_secrets_maps(1,2) [OF keeps, of n] by (simp add: built_value held view dict_get_def)
  qed
  have plain: "map_of ?vals n = map_of settings n"
    if "n \<notin> sf_name ` set (fields_of (ki_setup k) Secret_Field)" for n
    using that kept_secrets_maps(1) [OF keeps, of n] by (simp add: built_value held option.map_ident)
  show ?thesis using r(1) s' sends typed plain by (auto simp: existing_channel_def)
qed

section \<open>A channel to look at\<close>

definition sample_field :: "string \<Rightarrow> setup_field_kind \<Rightarrow> setup_field" where
  "sample_field name kind = \<lparr>sf_name = name, sf_label = name, sf_description = [], sf_kind = kind,
     sf_type = Text_Field, sf_required = True, sf_default = None, sf_choices = None, sf_target = None\<rparr>"

definition sample_kind :: channel_kind where
  "sample_kind = \<lparr>ki_setup = \<lparr>ks_settings = [sample_field ''token'' Secret_Field, sample_field ''chat'' Config_Field],
     ks_pairs = True, ks_limit = 500\<rparr>, ki_receives = True, ki_registers = True\<rparr>"

definition sample_channel_env :: channel_env where
  "sample_channel_env = \<lparr>ce_kinds = [(''phone'', sample_kind)], ce_public_url = Some ''https://hub.example'',
     ce_urlsplit = (\<lambda>_. None)\<rparr>"

definition no_channels :: channel_side where
  "no_channels = \<lparr>cs_db = \<lparr>channel_rows = [], mute_rows = [], notification_rows = [], delivery_rows = [], reply_rows = []\<rparr>,
     cs_hub = \<lparr>instance_rows = [], storage_rows = [], operation_rows = [], operation_step_rows = [], link_rows = [],
       login_rows = [], artifact_rows = [], description_rows = [], candidate_rows = [], member_rows = [],
       shipped_skill_rows = [], git_skill_rows = [], session_rows = [], meta_hub_id = None,
       meta_signal_alias = None, meta_access_token = None, meta_update_token = None, meta_home = None\<rparr>,
     cs_secrets = []\<rparr>"

definition sample_create :: create_command where
  "sample_create = \<lparr>cc_name = ''Mine'', cc_kind = ''phone'', cc_settings = [(''chat'', VStr ''me'')],
     cc_secrets = [(''token'', ''s3cret'')]\<rparr>"

definition sample_settings :: "(string, step_value) dict" where
  "sample_settings = [(''chat'', VStr ''me'')]"

definition one_channel :: channel_side where
  "one_channel = snd (create_ends sample_channel_env 10 5 42 sample_create sample_kind sample_settings None no_channels)"

lemma sample_created:
  "create_checks sample_channel_env sample_create = Inr (sample_kind, sample_settings)"
  by code_simp

lemma sample_created_view:
  "\<exists>view. create_ends sample_channel_env 10 5 42 sample_create sample_kind sample_settings None no_channels =
     (Inr view, one_channel)"
proof -
  have "isl (fst (create_ends sample_channel_env 10 5 42 sample_create sample_kind sample_settings None no_channels)) = False"
    by code_simp
  then show ?thesis unfolding one_channel_def by (metis prod.collapse sum.collapse(2))
qed

theorem created_channel_is_built_as_typed_witness:
  "\<exists>r vals. existing_channel one_channel 5 = Inr r \<and> sender sample_channel_env one_channel r = Inr (vals, None) \<and>
     map_of vals ''token'' = Some (VStr ''s3cret'') \<and> map_of vals ''chat'' = Some (VStr ''me'')"
proof -
  obtain view where ends: "create_ends sample_channel_env 10 5 42 sample_create sample_kind sample_settings None no_channels =
      (Inr view, one_channel)" using sample_created_view by blast
  have keys: "distinct (map fst (cc_secrets sample_create))" by (simp add: sample_create_def)
  obtain r vals where r: "existing_channel one_channel 5 = Inr r" "sender sample_channel_env one_channel r = Inr (vals, None)"
    and typed: "\<And>n v. map_of (cc_secrets sample_create) n = Some v \<Longrightarrow> map_of vals n = Some (VStr v)"
    and plain: "\<And>n. n \<notin> sf_name ` set (fields_of (ki_setup sample_kind) Secret_Field) \<Longrightarrow> map_of vals n = map_of sample_settings n"
    using created_channel_is_built_as_typed [OF sample_created ends keys] by blast
  have "map_of (cc_secrets sample_create) ''token'' = Some ''s3cret''" "map_of sample_settings ''chat'' = Some (VStr ''me'')"
    "''chat'' \<notin> sf_name ` set (fields_of (ki_setup sample_kind) Secret_Field)"
    by (simp_all add: sample_create_def sample_settings_def fields_of_def sample_kind_def sample_field_def)
  then have "map_of vals ''token'' = Some (VStr ''s3cret'')" "map_of vals ''chat'' = Some (VStr ''me'')"
    using typed plain by metis+
  then show ?thesis using r by blast
qed

section \<open>Deleting\<close>

lemma channel_none: "channel db i = None \<longleftrightarrow> i \<notin> cn_id ` set (channel_rows db)"
  by (auto simp: channel_def channels_def find_None_iff channel_record_of_def)

lemma channel_some: "channel db i = Some r \<Longrightarrow> ch_id r = i"
  by (auto simp: channel_def find_Some_iff)

lemma map_of_without: "map_of (filter (\<lambda>(k, _). k \<noteq> name) d) m = (if m = name then None else map_of d m)"
  by (induction d) auto

text \<open>A deleted channel leaves none of its secrets, and every other secret as it was.\<close>

lemma forgotten_secrets:
  "map_of (forget_secrets i names kept) m =
     (if m \<in> secret_name i ` set names then None else map_of kept m)"
proof -
  have "map_of (fold (\<lambda>n now_kept.
         if secret_name i n \<in> fst ` set kept
         then (case delete_secret (secret_name i n) now_kept of Inl _ \<Rightarrow> now_kept | Inr kept' \<Rightarrow> kept')
         else now_kept) names kept1) m =
     (if m \<in> secret_name i ` set names then None else map_of kept1 m)"
    if "\<And>m. map_of kept m = None \<Longrightarrow> map_of kept1 m = None" for kept1
    using that
  proof (induction names arbitrary: kept1)
    case (Cons n names)
    let ?name = "secret_name i n"
    let ?kept2 = "if ?name \<in> fst ` set kept
      then (case delete_secret ?name kept1 of Inl _ \<Rightarrow> kept1 | Inr kept' \<Rightarrow> kept') else kept1"
    have "map_of ?kept2 x = (if x = ?name then None else map_of kept1 x)" for x
      using Cons.prems [of ?name]
      by (cases "?name \<in> fst ` set kept"; cases "?name \<in> fst ` set kept1")
        (auto simp: delete_secret_def map_of_without map_of_eq_None_iff)
    then show ?case using Cons.IH [of ?kept2] Cons.prems by auto
  qed simp
  from this [of kept] show ?thesis by (simp add: forget_secrets_def)
qed

text \<open>C39: When a channel is deleted while its service answers an update of it, the update fails but keeps
  the secrets that were typed, under the name of a channel that is gone.\<close>

theorem update_after_delete_keeps_the_secret:
  assumes "update_checks ce c s = Inr (r, k, settings)" and "channel (cs_db s') (ch_id r) = None"
    and "registered ce (ch_kind r) k refusal = Inr ()" and "map_of (uc_secrets c) n = Some v"
  shows "\<exists>e s''. update_ends ce c r k settings refusal s' = (Inl (Channel_Not_Found e), s'') \<and>
    map_of (cs_secrets s'') (secret_name (ch_id r) n) = Some v \<and> channel (cs_db s'') (ch_id r) = None"
proof -
  obtain names kept where keeps: "kept_secrets (ch_id r) (ki_setup k) (uc_secrets c) (cs_secrets s') = (names, kept)"
    by (cases "kept_secrets (ch_id r) (ki_setup k) (uc_secrets c) (cs_secrets s')")
  have "fst ` set (uc_secrets c) \<subseteq> sf_name ` set (fields_of (ki_setup k) Secret_Field)"
    using assms(1) checked_ok(1) by (force simp: update_checks_def split: sum.splits)
  moreover have "n \<in> fst ` set (uc_secrets c)" using assms(4) by (force dest: map_of_SomeD)
  moreover have typed: "uc_secrets c \<noteq> []" using assms(4) by auto
  ultimately have "map_of kept (secret_name (ch_id r) n) = Some v"
    using kept_secrets_maps(2) [OF keeps, of n] assms(4) by auto
  moreover have gone: "channel (update_channel (cs_db s') (ch_id r) name enabled held) (ch_id r) = None" for name enabled held
  proof -
    have "map cn_id (channel_rows (update_channel (cs_db s') (ch_id r) name enabled held)) = map cn_id (channel_rows (cs_db s'))"
      by (simp add: update_channel_def set_channel_def map_row_update)
    then show ?thesis using assms(2) unfolding channel_none by (metis set_map)
  qed
  moreover have "update_ends ce c r k settings refusal s' =
      (Inl (Channel_Not_Found (''Channel \"'' @ str_nat (ch_id r) @ ''\" was not found.'')),
       s'\<lparr>cs_secrets := kept, cs_db := update_channel (cs_db s') (ch_id r)
         (case uc_name c of None \<Rightarrow> ch_name r | Some n \<Rightarrow> n)
         (case uc_enabled c of None \<Rightarrow> ch_enabled r | Some b \<Rightarrow> b) (dict_union settings names)\<rparr>)"
    using assms(3) keeps gone typed by (simp add: update_ends_def shown_now_def existing_channel_def)
  ultimately show ?thesis by simp
qed

definition sample_update :: update_command where
  "sample_update = \<lparr>uc_channel = 5, uc_name = None, uc_enabled = None, uc_settings = [], uc_secrets = [(''token'', ''n3w'')]\<rparr>"

theorem update_after_delete_keeps_the_secret_witness:
  "\<exists>r k settings e s''. update_checks sample_channel_env sample_update one_channel = Inr (r, k, settings) \<and>
     update_ends sample_channel_env sample_update r k settings None (snd (delete_of_channel 5 one_channel)) =
       (Inl (Channel_Not_Found e), s'') \<and>
     map_of (cs_secrets s'') (secret_name 5 ''token'') = Some ''n3w''"
proof -
  let ?start = "update_checks sample_channel_env sample_update one_channel"
  have start: "?start = Inr (fst (projr ?start), sample_kind, snd (snd (projr ?start)))"
    "ch_id (fst (projr ?start)) = 5"
    by (code_simp+)
  have "channel (cs_db (snd (delete_of_channel 5 one_channel))) 5 = None"
    "registered sample_channel_env (ch_kind (fst (projr ?start))) sample_kind None = Inr ()"
    by (code_simp+)
  moreover have "map_of (uc_secrets sample_update) ''token'' = Some ''n3w''" by (simp add: sample_update_def)
  ultimately show ?thesis
    using update_after_delete_keeps_the_secret [OF start(1), of "snd (delete_of_channel 5 one_channel)" None "''token''" "''n3w''"]
      start by metis
qed

end
