(* ===== verification/Transcript.thy ===== *)
theory Transcript
  imports Outbox Gate
begin

text \<open>
  The transcript store of an instance (\<open>EventLog\<close> in src/src/kinby/core/events.py): the events of its
  threads in the order they were appended, each thread's head, the bodies that wait for their turn to
  start, and the subscribers that follow a thread. Payloads that no modelled fold reads are one
  constructor, and a payload holds what the modelled code reads of it. An append is one transaction under the log's lock, so it is one operation here.
\<close>

definition without_key :: "'k \<Rightarrow> ('k, 'v) dict \<Rightarrow> ('k, 'v) dict" where
  "without_key k d = filter (\<lambda>(k', _). k' \<noteq> k) d"

section \<open>Events\<close>

datatype routine_trigger = By_Schedule | By_Hand | To_Catch_Up | By_Signal

record routine_origin =
  ro_name :: string
  ro_trigger :: routine_trigger
  ro_delivery :: "string option"
  ro_dreaming :: bool

record delivery_arrival =
  da_id :: "string option"
  da_content_type :: string
  da_size :: nat
  da_sha256 :: string
  da_headers :: "(string, string) dict"
  da_action :: "string option"
  da_received :: moment

datatype notice_kind = First_Failure | Routine_Disabled

record routine_notice =
  rn_kind :: notice_kind
  rn_message :: string
  rn_thread :: uuid
  rn_turn :: uuid

record raised_note =
  ra_source :: string
  ra_title :: string
  ra_text :: string
  ra_options :: "string list"
  ra_approval :: "waiting_approval option"

datatype completion = Did_Work | Found_No_Work

datatype turn_origin =
    From_User
  | From_Routine routine_origin
  | From_Run uuid string
  | From_Home

record token_totals =
  tt_input :: nat
  tt_output :: nat
  tt_cache_read :: nat
  tt_cache_creation :: nat

type_synonym tree = string

text \<open>What a turn starts with, and what it closes with.\<close>

record turn_start =
  ts_message :: string
  ts_mode :: permission_mode
  ts_snapshot :: "tree option"

record turn_end =
  te_tokens :: token_totals
  te_snapshot :: "tree option"

record approval_request =
  ap_id :: uuid
  ap_name :: string
  ap_rule :: string

datatype payload =
    Turn_Started turn_origin turn_start
  | Mode_Pinned permission_mode
  | Message_Delta string
  | Model_Completed token_totals
  | Tool_Called
  | Approval_Requested approval_request
  | Takeover_Requested uuid string
  | Turn_Completed completion turn_end
  | Turn_Failed string string turn_end
  | Turn_Interrupted turn_end
  | Workspace_Reverted uuid tree tree
  | Signal_Received routine_origin delivery_arrival
  | Failure_Handled string "routine_notice option"
  | Failures_Reset string
  | Note_Raised raised_note
  | Note_Accepted nat uuid
  | Note_Refused nat string
  | Other_Payload string

record event =
  ev_sequence :: nat
  ev_thread :: uuid
  ev_turn :: uuid
  ev_payload :: payload
  ev_at :: moment

fun closes_turn :: "payload \<Rightarrow> bool" where
  "closes_turn (Turn_Completed _ _) = True"
| "closes_turn (Turn_Failed _ _ _) = True"
| "closes_turn (Turn_Interrupted _) = True"
| "closes_turn _ = False"

section \<open>The store\<close>

text \<open>A subscriber has the replay it was given, and the queue of what was appended since.\<close>

record subscriber =
  su_thread :: uuid
  su_after :: nat
  su_replay :: "event list"
  su_queue :: "event list"

record transcript =
  tr_events :: "event list"
  tr_heads :: "(uuid, nat \<times> moment) dict"
  tr_waiting :: "(uuid, string) dict"
  tr_subscribers :: "(nat, subscriber) dict"

definition no_events :: transcript where
  "no_events = \<lparr>tr_events = [], tr_heads = [], tr_waiting = [], tr_subscribers = []\<rparr>"

definition head_sequence :: "transcript \<Rightarrow> uuid \<Rightarrow> nat" where
  "head_sequence t thread = (case map_of (tr_heads t) thread of None \<Rightarrow> 0 | Some (n, _) \<Rightarrow> n)"

definition new_event :: "moment \<Rightarrow> uuid \<Rightarrow> uuid \<Rightarrow> payload \<Rightarrow> transcript \<Rightarrow> event" where
  "new_event now thread turn p t = \<lparr>ev_sequence = Suc (head_sequence t thread), ev_thread = thread,
     ev_turn = turn, ev_payload = p, ev_at = now\<rparr>"

text \<open>An event that is stored goes to the queue of each subscriber of its thread.\<close>

definition appended :: "moment \<Rightarrow> uuid \<Rightarrow> uuid \<Rightarrow> payload \<Rightarrow> transcript \<Rightarrow> transcript" where
  "appended now thread turn p t =
     (let e = new_event now thread turn p t
      in t\<lparr>tr_events := tr_events t @ [e],
           tr_heads := dict_set thread (ev_sequence e, now) (tr_heads t),
           tr_subscribers := map (\<lambda>(i, s).
             (i, if su_thread s = thread then s\<lparr>su_queue := su_queue s @ [e]\<rparr> else s)) (tr_subscribers t)\<rparr>)"

text \<open>The arrival of a delivery, and its body, which waits for its turn: its row may be there already.\<close>

definition append_delivery ::
  "moment \<Rightarrow> uuid \<Rightarrow> uuid \<Rightarrow> routine_origin \<Rightarrow> delivery_arrival \<Rightarrow> string \<Rightarrow> transcript \<Rightarrow> hub_error + transcript" where
  "append_delivery now thread turn origin arrival body t =
     (if turn \<in> fst ` set (tr_waiting t) then Inl Hub_Integrity_Error
      else Inr (appended now thread turn (Signal_Received origin arrival)
             (t\<lparr>tr_waiting := dict_set turn body (tr_waiting t)\<rparr>)))"

definition waiting_body :: "transcript \<Rightarrow> uuid \<Rightarrow> string option" where
  "waiting_body t turn = map_of (tr_waiting t) turn"

definition drop_waiting_body :: "uuid \<Rightarrow> transcript \<Rightarrow> transcript" where
  "drop_waiting_body turn t = t\<lparr>tr_waiting := without_key turn (tr_waiting t)\<rparr>"

section \<open>Reading\<close>

definition thread_events :: "transcript \<Rightarrow> uuid \<Rightarrow> nat \<Rightarrow> event list" where
  "thread_events t thread after = filter (\<lambda>e. ev_thread e = thread \<and> after < ev_sequence e) (tr_events t)"

definition turn_events :: "transcript \<Rightarrow> uuid \<Rightarrow> event list" where
  "turn_events t turn = filter (\<lambda>e. ev_turn e = turn) (tr_events t)"

definition events_of ::
  "transcript \<Rightarrow> (payload \<Rightarrow> bool) \<Rightarrow> moment option \<Rightarrow> moment option \<Rightarrow> event list" where
  "events_of t types since till =
     filter (\<lambda>e. types (ev_payload e) \<and> (case since of None \<Rightarrow> True | Some x \<Rightarrow> x \<le> ev_at e) \<and>
       (case till of None \<Rightarrow> True | Some x \<Rightarrow> ev_at e < x)) (tr_events t)"

text \<open>Each thread's latest event of some types, when no event closes its turn.\<close>

definition latest_in_open_turns :: "transcript \<Rightarrow> (payload \<Rightarrow> bool) \<Rightarrow> event list" where
  "latest_in_open_turns t types =
     (let found = filter (\<lambda>e. types (ev_payload e)) (tr_events t);
          latest = filter (\<lambda>e. find (\<lambda>x. ev_thread x = ev_thread e) (rev found) = Some e) found
      in filter (\<lambda>e. \<not> list_ex (\<lambda>c. ev_turn c = ev_turn e \<and> closes_turn (ev_payload c)) (tr_events t)) latest)"

definition last_activity :: "transcript \<Rightarrow> (uuid, moment) dict" where
  "last_activity t = map (\<lambda>(thread, _, at). (thread, at)) (tr_heads t)"

text \<open>The arrival of a delivery a provider sent a routine under an id.\<close>

definition delivery_event :: "transcript \<Rightarrow> string \<Rightarrow> string \<Rightarrow> event option" where
  "delivery_event t name delivery_id =
     find (\<lambda>e. case ev_payload e of
         Signal_Received origin arrival \<Rightarrow> da_id arrival = Some delivery_id \<and> ro_name origin = name
       | _ \<Rightarrow> False) (tr_events t)"

section \<open>Following a thread\<close>

text \<open>The head and the replay are taken under the lock, so neither misses an append.\<close>

definition follow :: "nat \<Rightarrow> uuid \<Rightarrow> nat \<Rightarrow> transcript \<Rightarrow> nat \<times> transcript" where
  "follow i thread after t =
     (head_sequence t thread,
      t\<lparr>tr_subscribers := dict_set i \<lparr>su_thread = thread, su_after = after,
          su_replay = thread_events t thread after, su_queue = []\<rparr> (tr_subscribers t)\<rparr>)"

text \<open>A subscriber takes its next event: the replay first, then the queue, leaving out what it has.\<close>

definition take_next :: "subscriber \<Rightarrow> event option \<times> subscriber" where
  "take_next s =
     (case su_replay s of
        e # es \<Rightarrow> (Some e, s\<lparr>su_replay := es\<rparr>)
      | [] \<Rightarrow>
         (case su_queue s of
            [] \<Rightarrow> (None, s)
          | e # es \<Rightarrow> (if su_after s < ev_sequence e then Some e else None, s\<lparr>su_queue := es\<rparr>)))"

definition unfollow :: "nat \<Rightarrow> transcript \<Rightarrow> transcript" where
  "unfollow i t = t\<lparr>tr_subscribers := without_key i (tr_subscribers t)\<rparr>"

end
