(* ===== verification/Transcript_Laws.thy ===== *)
theory Transcript_Laws
  imports Transcript
begin

text \<open>
  What the transcript store promises: the events of a thread are numbered without a gap, and who
  follows a thread gets each of its later events once and in order, whatever is appended meanwhile.
\<close>

section \<open>Operations\<close>

datatype log_op =
    Append moment uuid uuid payload
  | Append_Delivery moment uuid uuid routine_origin delivery_arrival string
  | Drop_Body uuid
  | Follow nat uuid nat
  | Take_Next nat
  | Unfollow nat

definition subscriber :: "transcript \<Rightarrow> nat \<Rightarrow> subscriber option" where
  "subscriber t i = map_of (tr_subscribers t) i"

fun do_op :: "log_op \<Rightarrow> transcript \<Rightarrow> transcript" where
  "do_op (Append now thread turn p) t = appended now thread turn p t"
| "do_op (Append_Delivery now thread turn origin arrival body) t =
     (case append_delivery now thread turn origin arrival body t of Inl _ \<Rightarrow> t | Inr t' \<Rightarrow> t')"
| "do_op (Drop_Body turn) t = drop_waiting_body turn t"
| "do_op (Follow i thread after) t = snd (follow i thread after t)"
| "do_op (Take_Next i) t =
     (case subscriber t i of
        None \<Rightarrow> t
      | Some s \<Rightarrow> t\<lparr>tr_subscribers := dict_set i (snd (take_next s)) (tr_subscribers t)\<rparr>)"
| "do_op (Unfollow i) t = unfollow i t"

text \<open>What a subscriber takes at an operation.\<close>

definition taken_at :: "nat \<Rightarrow> log_op \<Rightarrow> transcript \<Rightarrow> event list" where
  "taken_at i op t =
     (case (op, subscriber t i) of
        (Take_Next j, Some s) \<Rightarrow> if j = i then (case fst (take_next s) of None \<Rightarrow> [] | Some e \<Rightarrow> [e]) else []
      | _ \<Rightarrow> [])"

fun do_ops :: "log_op list \<Rightarrow> transcript \<Rightarrow> transcript" where
  "do_ops [] t = t"
| "do_ops (op # ops) t = do_ops ops (do_op op t)"

fun taken :: "nat \<Rightarrow> log_op list \<Rightarrow> transcript \<Rightarrow> event list" where
  "taken i [] t = []"
| "taken i (op # ops) t = taken_at i op t @ taken i ops (do_op op t)"

section \<open>Numbers\<close>

definition events_in :: "transcript \<Rightarrow> uuid \<Rightarrow> event list" where
  "events_in t thread = filter (\<lambda>e. ev_thread e = thread) (tr_events t)"

definition log_ok :: "transcript \<Rightarrow> bool" where
  "log_ok t \<longleftrightarrow> (\<forall>thread. map ev_sequence (events_in t thread) = [1..<Suc (head_sequence t thread)])"

lemma appended_ok:
  assumes "log_ok t"
  shows "log_ok (appended now thread turn p t)"
proof -
  have "head_sequence (appended now thread turn p t) x =
      (if x = thread then Suc (head_sequence t thread) else head_sequence t x)" for x
    by (simp add: head_sequence_def appended_def Let_def new_event_def dict_simps)
  moreover have "events_in (appended now thread turn p t) x =
      events_in t x @ (if x = thread then [new_event now thread turn p t] else [])" for x
    by (simp add: events_in_def appended_def Let_def new_event_def)
  ultimately show ?thesis using assms by (simp add: log_ok_def new_event_def)
qed

lemma log_ok_frame:
  "tr_events t' = tr_events t \<Longrightarrow> tr_heads t' = tr_heads t \<Longrightarrow> log_ok t' \<longleftrightarrow> log_ok t"
  by (simp add: log_ok_def events_in_def head_sequence_def)

lemma do_op_ok:
  assumes "log_ok t"
  shows "log_ok (do_op op t)"
proof -
  have frame: "log_ok t'" if "tr_events t' = tr_events t" "tr_heads t' = tr_heads t" for t'
    using log_ok_frame [OF that] assms by blast
  have waits: "log_ok (t\<lparr>tr_waiting := w\<rparr>)" for w by (rule frame) simp_all
  show ?thesis
  proof (cases op)
    case (Append_Delivery now thread turn origin arrival body)
    then show ?thesis using assms appended_ok [OF waits] by (simp add: append_delivery_def)
  next
    case (Append now thread turn p)
    then show ?thesis using appended_ok [OF assms] by simp
  next
    case (Take_Next i)
    then show ?thesis using assms by (auto intro: frame split: option.split)
  qed (auto intro!: frame simp: drop_waiting_body_def follow_def unfollow_def without_key_def)
qed

lemma do_ops_ok: "log_ok t \<Longrightarrow> log_ok (do_ops ops t)"
  by (induction ops arbitrary: t) (simp_all add: do_op_ok)

lemma no_events_ok: "log_ok no_events"
  by (simp add: log_ok_def no_events_def events_in_def head_sequence_def)

section \<open>Following\<close>

text \<open>What a subscriber still gets, of its replay and its queue.\<close>

definition left :: "subscriber \<Rightarrow> event list" where
  "left s = su_replay s @ filter (\<lambda>e. su_after s < ev_sequence e) (su_queue s)"

text \<open>Taking one event after another until nothing is there.\<close>

function drain :: "subscriber \<Rightarrow> event list" where
  "drain s = (if su_replay s = [] \<and> su_queue s = [] then []
     else (case take_next s of (None, s') \<Rightarrow> drain s' | (Some e, s') \<Rightarrow> e # drain s'))"
  by auto
termination
  by (relation "measure (\<lambda>s. length (su_replay s) + length (su_queue s))")
    (auto simp: take_next_def split: list.splits if_splits)

declare drain.simps [simp del]

lemma take_next_left:
  "left s = (case fst (take_next s) of None \<Rightarrow> [] | Some e \<Rightarrow> [e]) @ left (snd (take_next s))"
  by (simp add: left_def take_next_def split: list.split)

lemma drain_left: "drain s = left s"
proof (induction s rule: drain.induct)
  case (1 s)
  show ?case
  proof (cases "su_replay s = [] \<and> su_queue s = []")
    case True
    then show ?thesis by (simp add: drain.simps left_def)
  next
    case False
    then show ?thesis
      using 1 take_next_left [of s] by (subst drain.simps) (auto split: prod.split option.split)
  qed
qed

lemma take_next_frame [simp]: "su_thread (snd (take_next s)) = su_thread s" "su_after (snd (take_next s)) = su_after s"
  by (simp_all add: take_next_def split: list.split)

text \<open>Between two operations a subscriber has taken or has left what its thread has.\<close>

definition follows :: "nat \<Rightarrow> uuid \<Rightarrow> nat \<Rightarrow> event list \<Rightarrow> transcript \<Rightarrow> bool" where
  "follows i thread after seen t \<longleftrightarrow>
     (\<exists>s. subscriber t i = Some s \<and> su_thread s = thread \<and> su_after s = after \<and>
        seen @ left s = thread_events t thread after)"

definition spares :: "nat \<Rightarrow> log_op \<Rightarrow> bool" where
  "spares i op \<longleftrightarrow> (case op of Follow j _ _ \<Rightarrow> j \<noteq> i | Unfollow j \<Rightarrow> j \<noteq> i | _ \<Rightarrow> True)"

lemma map_of_map_snd: "map_of (map (\<lambda>(i, s). (i, f s)) d) i = map_option f (map_of d i)"
  by (induction d) auto

lemma appended_subscriber:
  "subscriber (appended now thread turn p t) i =
     map_option (\<lambda>s. if su_thread s = thread then s\<lparr>su_queue := su_queue s @ [new_event now thread turn p t]\<rparr> else s)
       (subscriber t i)"
  using map_of_map_snd [of "\<lambda>s. if su_thread s = thread then s\<lparr>su_queue := su_queue s @ [new_event now thread turn p t]\<rparr> else s"]
  by (simp add: subscriber_def appended_def Let_def)

lemma appended_thread_events:
  "thread_events (appended now thread turn p t) x after =
     thread_events t x after @
       (if x = thread \<and> after < ev_sequence (new_event now thread turn p t) then [new_event now thread turn p t] else [])"
  by (auto simp: thread_events_def appended_def Let_def new_event_def)

lemma appended_follows:
  assumes "follows i thread after seen t"
  shows "follows i thread after seen (appended now x turn p t)"
proof -
  obtain s where s: "subscriber t i = Some s" "su_thread s = thread" "su_after s = after"
    "seen @ left s = thread_events t thread after" using assms by (auto simp: follows_def)
  let ?e = "new_event now x turn p t"
  let ?s = "if su_thread s = x then s\<lparr>su_queue := su_queue s @ [?e]\<rparr> else s"
  have "seen @ left ?s = thread_events (appended now x turn p t) thread after"
    using s by (simp add: appended_thread_events left_def)
  then show ?thesis using s by (simp add: follows_def appended_subscriber)
qed

lemma follows_frame:
  assumes "follows i thread after seen t" and "tr_events t' = tr_events t" and "subscriber t' i = subscriber t i"
  shows "follows i thread after seen t'"
  using assms by (simp add: follows_def thread_events_def)

lemma do_op_follows:
  assumes "follows i thread after seen t" and "spares i op"
  shows "follows i thread after (seen @ taken_at i op t) (do_op op t)"
proof (cases op)
  case (Append now x turn p)
  then show ?thesis using appended_follows [OF assms(1)] by (simp add: taken_at_def)
next
  case (Append_Delivery now x turn origin arrival body)
  have "follows i thread after seen (t\<lparr>tr_waiting := w\<rparr>)" for w
    using follows_frame [OF assms(1)] by (simp add: subscriber_def)
  then show ?thesis
    using Append_Delivery assms(1) appended_follows by (simp add: taken_at_def append_delivery_def)
next
  case (Drop_Body turn)
  then show ?thesis
    using follows_frame [OF assms(1)] by (simp add: taken_at_def drop_waiting_body_def subscriber_def)
next
  case (Follow j x n)
  then show ?thesis
    using follows_frame [OF assms(1)] assms(2)
    by (simp add: taken_at_def follow_def subscriber_def spares_def dict_simps)
next
  case (Take_Next j)
  obtain s where s: "subscriber t i = Some s" "su_thread s = thread" "su_after s = after"
    "seen @ left s = thread_events t thread after" using assms(1) by (auto simp: follows_def)
  show ?thesis
  proof (cases "j = i")
    case True
    have "(seen @ taken_at i op t) @ left (snd (take_next s)) = thread_events t thread after"
      using s take_next_left [of s] Take_Next True by (simp add: taken_at_def)
    then show ?thesis
      using s Take_Next True by (simp add: follows_def thread_events_def) (simp add: subscriber_def dict_simps)
  next
    case False
    then show ?thesis
      using follows_frame [OF assms(1)] Take_Next s(1)
      by (auto simp: taken_at_def subscriber_def dict_simps split: option.split)
  qed
next
  case (Unfollow j)
  have "map_of (filter (\<lambda>(k, _). k \<noteq> j) d) i = map_of d i" if "j \<noteq> i" for d :: "(nat, subscriber) dict"
    using that by (induction d) auto
  then show ?thesis
    using follows_frame [OF assms(1)] assms(2) Unfollow
    by (simp add: taken_at_def unfollow_def without_key_def subscriber_def spares_def)
qed

lemma do_ops_follows:
  assumes "follows i thread after seen t" and "list_all (spares i) ops"
  shows "follows i thread after (seen @ taken i ops t) (do_ops ops t)"
  using assms
proof (induction ops arbitrary: seen t)
  case (Cons op ops)
  then show ?case using Cons.IH [of "seen @ taken_at i op t" "do_op op t"] do_op_follows [of i thread after seen t op] by simp
qed simp

lemma follow_follows: "follows i thread after [] (snd (follow i thread after t))"
  by (simp add: follows_def follow_def subscriber_def dict_simps left_def thread_events_def)

section \<open>Properties\<close>

text \<open>The events of each thread are numbered from one without a gap, in the order they were
  appended, whatever operations the log serves.\<close>

theorem threads_are_numbered:
  "map ev_sequence (events_in (do_ops ops no_events) thread) =
     [1..<Suc (head_sequence (do_ops ops no_events) thread)]"
  using do_ops_ok [OF no_events_ok] by (simp add: log_ok_def)

text \<open>C14: Who follows a thread after a sequence gets each event of it after that once and in order,
  whatever is appended, followed and taken meanwhile, as long as it is not dropped.\<close>

theorem subscriber_misses_nothing:
  assumes "list_all (spares i) ops"
  shows "\<exists>s. subscriber (do_ops ops (snd (follow i thread after t))) i = Some s \<and>
    taken i ops (snd (follow i thread after t)) @ drain s =
      thread_events (do_ops ops (snd (follow i thread after t))) thread after"
  using do_ops_follows [OF follow_follows assms, of thread after t] by (auto simp: follows_def drain_left)

theorem subscriber_misses_nothing_witness:
  "\<exists>s. subscriber (do_ops [Append 5 1 7 Tool_Called, Take_Next 3, Append 6 1 7 (Mode_Pinned Auto)]
       (snd (follow 3 1 0 no_events))) 3 = Some s \<and>
    taken 3 [Append 5 1 7 Tool_Called, Take_Next 3, Append 6 1 7 (Mode_Pinned Auto)] (snd (follow 3 1 0 no_events)) @ drain s =
      thread_events (do_ops [Append 5 1 7 Tool_Called, Take_Next 3, Append 6 1 7 (Mode_Pinned Auto)]
       (snd (follow 3 1 0 no_events))) 1 0"
  by (rule subscriber_misses_nothing) (simp add: spares_def)

end
