(* ===== verification/Routine_History.thy ===== *)
theory Routine_History
  imports Transcript
begin

text \<open>
  What the events say of an instance's routines (\<open>routine_history\<close> in
  src/src/kinby/core/routine_history.py): their runs, their failures in a row and what the failure
  policy did about them, and the deliveries that wait for their turn. A run is shared between the
  history of its routine and the table of runs, so a history holds its key.
\<close>

type_synonym turn_key = "uuid \<times> uuid"

datatype run_outcome = Run_Running | Run_Parked | Run_Work | Run_No_Work | Run_Failed | Run_Interrupted

record routine_run =
  rl_thread :: uuid
  rl_turn :: uuid
  rl_started :: moment
  rl_outcome :: run_outcome
  rl_first_line :: string

record waiting_delivery =
  wd_thread :: uuid
  wd_turn :: uuid
  wd_order :: nat
  wd_origin :: routine_origin
  wd_arrival :: delivery_arrival

record routine_record =
  rh_last :: "turn_key option"
  rh_failures :: nat
  rh_last_failure :: "string option"
  rh_notices :: "routine_notice list"
  rh_disabled :: "routine_notice option"
  rh_pending :: "waiting_delivery list"

record unhandled_failure =
  uf_name :: string
  uf_event :: event
  uf_count :: nat
  uf_reason :: string

record folding =
  fo_histories :: "(string, routine_record) dict"
  fo_runs :: "(turn_key, string \<times> routine_run) dict"
  fo_texts :: "(turn_key, string) dict"
  fo_closed :: "turn_key list"
  fo_handled :: "turn_key list"
  fo_failures :: "(turn_key, unhandled_failure) dict"
  fo_pending :: "(turn_key, string \<times> waiting_delivery) dict"

definition blank_record :: routine_record where
  "blank_record = \<lparr>rh_last = None, rh_failures = 0, rh_last_failure = None, rh_notices = [],
     rh_disabled = None, rh_pending = []\<rparr>"

definition blank_folding :: folding where
  "blank_folding = \<lparr>fo_histories = [], fo_runs = [], fo_texts = [], fo_closed = [], fo_handled = [],
     fo_failures = [], fo_pending = []\<rparr>"

text \<open>A routine's record, a blank one when it has none yet, and a change of it.\<close>

definition record_of :: "folding \<Rightarrow> string \<Rightarrow> routine_record" where
  "record_of fo name = dict_get (fo_histories fo) name blank_record"

definition change_record :: "string \<Rightarrow> (routine_record \<Rightarrow> routine_record) \<Rightarrow> folding \<Rightarrow> folding" where
  "change_record name f fo = fo\<lparr>fo_histories := dict_set name (f (record_of fo name)) (fo_histories fo)\<rparr>"

definition forget_failures :: "string \<Rightarrow> folding \<Rightarrow> folding" where
  "forget_failures name fo =
     fo\<lparr>fo_failures := filter (\<lambda>(_, f). uf_name f \<noteq> name) (fo_failures fo)\<rparr>"

text \<open>The failures in a row start over.\<close>

definition clean_slate :: "string \<Rightarrow> folding \<Rightarrow> folding" where
  "clean_slate name fo =
     forget_failures name (change_record name (\<lambda>r. r\<lparr>rh_failures := 0, rh_disabled := None\<rparr>) fo)"

definition change_run :: "turn_key \<Rightarrow> (routine_run \<Rightarrow> routine_run) \<Rightarrow> folding \<Rightarrow> folding" where
  "change_run k f fo =
     (case map_of (fo_runs fo) k of
        None \<Rightarrow> fo
      | Some (name, run) \<Rightarrow> fo\<lparr>fo_runs := dict_set k (name, f run) (fo_runs fo)\<rparr>)"

definition first_line :: "string \<Rightarrow> string" where
  "first_line s = takeWhile (\<lambda>c. c \<noteq> CHR 0x0A) s"

text \<open>An event of a run that is under way.\<close>

definition run_event :: "string \<Rightarrow> turn_key \<Rightarrow> event \<Rightarrow> folding \<Rightarrow> folding" where
  "run_event name k e fo =
     (let fo' =
        (case ev_payload e of
           Message_Delta d \<Rightarrow>
             (let text_now = dict_get (fo_texts fo) k [] @ d
              in change_run k (\<lambda>r. r\<lparr>rl_first_line := first_line text_now\<rparr>)
                   (fo\<lparr>fo_texts := dict_set k text_now (fo_texts fo)\<rparr>))
         | Tool_Called \<Rightarrow>
             change_run k (\<lambda>r. r\<lparr>rl_first_line := []\<rparr>) (fo\<lparr>fo_texts := dict_set k [] (fo_texts fo)\<rparr>)
         | Approval_Requested _ \<Rightarrow> change_run k (\<lambda>r. r\<lparr>rl_outcome := Run_Parked\<rparr>) fo
         | Turn_Completed outcome _ \<Rightarrow>
             (let done = change_run k (\<lambda>r. r\<lparr>rl_outcome :=
                    (case outcome of Did_Work \<Rightarrow> Run_Work | Found_No_Work \<Rightarrow> Run_No_Work)\<rparr>) fo
              in if outcome = Did_Work then clean_slate name done else done)
         | Turn_Failed reason _ _ \<Rightarrow>
             (let failed = change_record name (\<lambda>r. r\<lparr>rh_failures := Suc (rh_failures r),
                    rh_last_failure := Some reason\<rparr>) (change_run k (\<lambda>r. r\<lparr>rl_outcome := Run_Failed\<rparr>) fo)
              in failed\<lparr>fo_failures := dict_set k
                   \<lparr>uf_name = name, uf_event = e, uf_count = rh_failures (record_of failed name), uf_reason = reason\<rparr>
                   (fo_failures failed)\<rparr>)
         | Turn_Interrupted _ \<Rightarrow> change_run k (\<lambda>r. r\<lparr>rl_outcome := Run_Interrupted\<rparr>) fo
         | _ \<Rightarrow> fo)
      in if closes_turn (ev_payload e) then fo'\<lparr>fo_closed := k # fo_closed fo'\<rparr> else fo')"

text \<open>A turn of a routine starts: what waited for it waits no more, and its run begins once.\<close>

definition take_delivery :: "turn_key \<Rightarrow> folding \<Rightarrow> folding" where
  "take_delivery k fo =
     (case map_of (fo_pending fo) k of
        None \<Rightarrow> fo
      | Some (name, d) \<Rightarrow>
          (change_record name (\<lambda>r. r\<lparr>rh_pending := remove1 d (rh_pending r)\<rparr>) fo)
            \<lparr>fo_pending := without_key k (fo_pending fo)\<rparr>)"

definition start_run :: "string \<Rightarrow> event \<Rightarrow> folding \<Rightarrow> folding" where
  "start_run name e fo =
     (let k = (ev_thread e, ev_turn e)
      in if k \<in> fst ` set (fo_runs fo) then fo
         else (change_record name (\<lambda>r. r\<lparr>rh_last := Some k\<rparr>) fo)
                \<lparr>fo_runs := dict_set k (name,
                   \<lparr>rl_thread = ev_thread e, rl_turn = ev_turn e, rl_started = ev_at e,
                    rl_outcome = Run_Running, rl_first_line = []\<rparr>) (fo_runs fo),
                 fo_texts := dict_set k [] (fo_texts fo)\<rparr>)"

definition fold_event :: "nat \<times> event \<Rightarrow> folding \<Rightarrow> folding" where
  "fold_event oe fo =
     (let e = snd oe; k = (ev_thread e, ev_turn e);
          rest = (case map_of (fo_runs fo) k of
            Some (name, _) \<Rightarrow> if k \<in> set (fo_closed fo) then fo else run_event name k e fo
          | None \<Rightarrow> fo)
      in case ev_payload e of
        Signal_Received origin arrival \<Rightarrow>
          if k \<in> fst ` set (fo_pending fo) then fo
          else (let d = \<lparr>wd_thread = ev_thread e, wd_turn = ev_turn e, wd_order = fst oe,
                         wd_origin = origin, wd_arrival = arrival\<rparr>
                in (change_record (ro_name origin) (\<lambda>r. r\<lparr>rh_pending := rh_pending r @ [d]\<rparr>) fo)
                     \<lparr>fo_pending := dict_set k (ro_name origin, d) (fo_pending fo)\<rparr>)
      | Failure_Handled name notice \<Rightarrow>
          (let told = (case notice of
                 Some n \<Rightarrow>
                   if k \<in> set (fo_handled fo) then fo
                   else change_record name (\<lambda>r. r\<lparr>rh_notices := rh_notices r @ [n],
                     rh_disabled := (if rn_kind n = Routine_Disabled then Some n else rh_disabled r)\<rparr>) fo
               | None \<Rightarrow> fo)
           in told\<lparr>fo_handled := k # fo_handled told\<rparr>)
      | Failures_Reset name \<Rightarrow> clean_slate name fo
      | Turn_Started (From_Routine origin) _ \<Rightarrow>
          start_run (ro_name origin) e (take_delivery k fo)
      | _ \<Rightarrow> rest)"

definition folded :: "event list \<Rightarrow> folding" where
  "folded es = fold fold_event (enumerate 0 es) blank_folding"

text \<open>What the fold gives: the records, each routine's last run, and the failures not handled yet.\<close>

definition histories :: "event list \<Rightarrow> (string, routine_record) dict" where
  "histories es = fo_histories (folded es)"

definition last_run :: "event list \<Rightarrow> string \<Rightarrow> routine_run option" where
  "last_run es name =
     Option.bind (rh_last (record_of (folded es) name)) (\<lambda>k. map_option snd (map_of (fo_runs (folded es)) k))"

definition unhandled :: "event list \<Rightarrow> unhandled_failure list" where
  "unhandled es =
     map snd (filter (\<lambda>(k, _). k \<notin> set (fo_handled (folded es))) (fo_failures (folded es)))"

end
