(* ===== verification/Scheduler.thy ===== *)
theory Scheduler
  imports Routine_History
begin

text \<open>
  The scheduler of an instance's routines (\<open>Scheduler\<close> in src/src/kinby/core/scheduler.py): it takes
  deliveries, fires what is due, turns off a routine that fails ten times in a row, and raises the
  notifications the hub has not answered. A pass is split where it waits for a turn: its first part
  says what to fire, its second takes what came of that. What cron says of a schedule in a time zone,
  how a minute is written in it and the digest of a body are arguments, and the events a turn appends are
  its own. A routine file that does not load is not among the routines, and the record of a change of a
  file is left out.
\<close>

section \<open>State\<close>

record routine =
  rt_name :: string
  rt_prompt :: string
  rt_schedule :: "string option"
  rt_enabled :: bool
  rt_catch_up :: bool
  rt_dreaming :: bool

record armed_routine =
  ar_schedule :: string
  ar_time :: moment

record scheduler =
  sd_log :: transcript
  sd_routines :: "routine list"
  sd_grants :: "(string \<times> string) list"
  sd_armed :: "(string, armed_routine) dict"
  sd_zone :: string
  sd_started :: moment

record scheduler_env =
  se_next :: "string \<Rightarrow> string \<Rightarrow> moment \<Rightarrow> moment"
  se_minute :: "string \<Rightarrow> moment \<Rightarrow> string"
  se_raises :: bool

definition DISABLE_AFTER :: nat where "DISABLE_AFTER = 10"

text \<open>The events the routine history folds: not a run's text.\<close>

fun routine_event :: "payload \<Rightarrow> bool" where
  "routine_event (Signal_Received _ _) = True"
| "routine_event (Failure_Handled _ _) = True"
| "routine_event (Failures_Reset _) = True"
| "routine_event (Turn_Started _ _) = True"
| "routine_event (Approval_Requested _) = True"
| "routine_event (Turn_Completed _ _) = True"
| "routine_event (Turn_Failed _ _ _) = True"
| "routine_event (Turn_Interrupted _) = True"
| "routine_event _ = False"

definition routine_events :: "scheduler \<Rightarrow> event list" where
  "routine_events s = events_of (sd_log s) routine_event None None"

definition append_to :: "moment \<Rightarrow> uuid \<Rightarrow> uuid \<Rightarrow> payload \<Rightarrow> scheduler \<Rightarrow> scheduler" where
  "append_to now thread turn p s = s\<lparr>sd_log := appended now thread turn p (sd_log s)\<rparr>"

section \<open>Arming\<close>

definition catch_up_after :: "event list \<Rightarrow> routine \<Rightarrow> moment \<Rightarrow> moment" where
  "catch_up_after es r now =
     (case last_run es (rt_name r) of
        None \<Rightarrow> now
      | Some run \<Rightarrow> if rl_outcome run \<noteq> Run_Interrupted \<and> rt_catch_up r then rl_started run else now)"

text \<open>The routines with a schedule, each armed as it was or afresh from what it catches up on.\<close>

definition armed_now ::
  "scheduler_env \<Rightarrow> moment \<Rightarrow> event list \<Rightarrow> scheduler \<Rightarrow> (string, armed_routine) dict" where
  "armed_now se now es s =
     fold (\<lambda>r d.
         case rt_schedule r of
           None \<Rightarrow> d
         | Some schedule \<Rightarrow>
             if \<not> rt_enabled r \<or> schedule = [] then d
             else (let kept = (case map_of (sd_armed s) (rt_name r) of
                           Some a \<Rightarrow> if ar_schedule a = schedule then Some a else None | None \<Rightarrow> None)
                   in dict_set (rt_name r)
                        (case kept of
                           Some a \<Rightarrow> a
                         | None \<Rightarrow> \<lparr>ar_schedule = schedule,
                             ar_time = se_next se (sd_zone s) schedule (catch_up_after es r now)\<rparr>) d))
       (sd_routines s) []"

definition new_scheduler ::
  "scheduler_env \<Rightarrow> moment \<Rightarrow> transcript \<Rightarrow> routine list \<Rightarrow> (string \<times> string) list \<Rightarrow> string \<Rightarrow> scheduler" where
  "new_scheduler se now log rs grants zone =
     (let s = \<lparr>sd_log = log, sd_routines = rs, sd_grants = grants, sd_armed = [], sd_zone = zone, sd_started = now\<rparr>
      in s\<lparr>sd_armed := armed_now se now (routine_events s) s\<rparr>)"

section \<open>The failure policy\<close>

text \<open>A routine the user turned on again starts over.\<close>

definition reset_failures :: "moment \<Rightarrow> routine list \<Rightarrow> scheduler \<Rightarrow> scheduler" where
  "reset_failures now rs s =
     fold (\<lambda>r s'. case rh_disabled (record_of (folded (routine_events s)) (rt_name r)) of
         Some n \<Rightarrow> if rt_enabled r then append_to now (rn_thread n) (rn_turn n) (Failures_Reset (rt_name r)) s' else s'
       | None \<Rightarrow> s') rs s"

text \<open>What handling a failure writes, one write after another.\<close>

datatype policy_write =
    Turn_Off string
  | Clear_Grants string
  | Record_Event uuid uuid payload

definition failure_notice :: "notice_kind \<Rightarrow> string \<Rightarrow> unhandled_failure \<Rightarrow> routine_notice" where
  "failure_notice kind message f = \<lparr>rn_kind = kind, rn_message = message,
     rn_thread = ev_thread (uf_event f), rn_turn = ev_turn (uf_event f)\<rparr>"

definition policy_note :: "string \<Rightarrow> string \<Rightarrow> string \<Rightarrow> payload" where
  "policy_note name title text_of =
     Note_Raised \<lparr>ra_source = name, ra_title = title, ra_text = text_of, ra_options = [], ra_approval = None\<rparr>"

text \<open>The writes of one failure, and the names left for the failures after it.\<close>

definition failure_writes ::
  "scheduler_env \<Rightarrow> routine list \<Rightarrow> string list \<Rightarrow> unhandled_failure \<Rightarrow> policy_write list \<times> string list" where
  "failure_writes se rs known f =
     (let name = uf_name f; thread = ev_thread (uf_event f); turn = ev_turn (uf_event f);
          enabled = name \<in> set known \<and> list_ex (\<lambda>r. rt_name r = name \<and> rt_enabled r) rs;
          tell = (\<lambda>notice note.
            [Record_Event thread turn (Failure_Handled name notice)] @
            (case note of
               Some n \<Rightarrow> if se_raises se then [Record_Event thread turn n] else []
             | None \<Rightarrow> []))
      in if DISABLE_AFTER \<le> uf_count f \<and> enabled
         then ([Turn_Off name, Clear_Grants name] @
               tell (Some (failure_notice Routine_Disabled
                   (''Routine \"'' @ name @ ''\" disabled after '' @ str_nat (uf_count f) @
                    '' failed firings: '' @ uf_reason f) f))
                 (Some (policy_note name (''Routine \"'' @ name @ ''\" disabled'')
                   (''It failed '' @ str_nat (uf_count f) @ '' times in a row, so kinby turned it off.''))),
               filter (\<lambda>n. n \<noteq> name) known)
         else if uf_count f = 1
         then (tell (Some (failure_notice First_Failure
                   (''Routine \"'' @ name @ ''\" failed: '' @ uf_reason f) f))
                 (Some (policy_note name (''Routine \"'' @ name @ ''\" failed'')
                   (''kinby disables it after '' @ str_nat DISABLE_AFTER @ '' failures in a row.''))),
               known)
         else (tell None None, known))"

fun all_writes ::
  "scheduler_env \<Rightarrow> routine list \<Rightarrow> string list \<Rightarrow> unhandled_failure list \<Rightarrow> policy_write list" where
  "all_writes se rs known [] = []"
| "all_writes se rs known (f # fs) =
     (case failure_writes se rs known f of (ws, known') \<Rightarrow> ws @ all_writes se rs known' fs)"

definition do_write :: "moment \<Rightarrow> policy_write \<Rightarrow> scheduler \<Rightarrow> scheduler" where
  "do_write now w s =
     (case w of
        Turn_Off name \<Rightarrow> s\<lparr>sd_routines :=
          map (\<lambda>r. if rt_name r = name then r\<lparr>rt_enabled := False\<rparr> else r) (sd_routines s)\<rparr>
      | Clear_Grants name \<Rightarrow> s\<lparr>sd_grants := filter (\<lambda>(n, _). n \<noteq> name) (sd_grants s)\<rparr>
      | Record_Event thread turn p \<Rightarrow> append_to now thread turn p s)"

definition policy_writes :: "scheduler_env \<Rightarrow> scheduler \<Rightarrow> policy_write list" where
  "policy_writes se s =
     all_writes se (sd_routines s) (map rt_name (sd_routines s)) (unhandled (routine_events s))"

definition handle_failures :: "scheduler_env \<Rightarrow> moment \<Rightarrow> scheduler \<Rightarrow> scheduler" where
  "handle_failures se now s =
     (let s' = reset_failures now (sd_routines s) s
      in fold (do_write now) (policy_writes se s') s')"

section \<open>Notifications\<close>

text \<open>Those raised that the hub has not answered yet, by thread and sequence.\<close>

definition note_event :: "event \<Rightarrow> (uuid \<times> nat, event \<times> raised_note) dict \<Rightarrow> (uuid \<times> nat, event \<times> raised_note) dict" where
  "note_event e d =
     (case ev_payload e of
        Note_Raised n \<Rightarrow> dict_set (ev_thread e, ev_sequence e) (e, n) d
      | Note_Accepted i _ \<Rightarrow> without_key (ev_thread e, i) d
      | Note_Refused i _ \<Rightarrow> without_key (ev_thread e, i) d
      | _ \<Rightarrow> d)"

definition pending_notes :: "event list \<Rightarrow> (event \<times> raised_note) list" where
  "pending_notes es = map snd (fold note_event es [])"

fun is_note :: "payload \<Rightarrow> bool" where
  "is_note (Note_Raised _) = True"
| "is_note (Note_Accepted _ _) = True"
| "is_note (Note_Refused _ _) = True"
| "is_note _ = False"

text \<open>The command that raises one on the hub, under the key of its event.\<close>

definition note_command :: "event \<times> raised_note \<Rightarrow> raise_command" where
  "note_command en = \<lparr>rc_key = str_nat (ev_thread (fst en)) @ '':'' @ str_nat (ev_sequence (fst en)),
     rc_thread = ev_thread (fst en), rc_source = ra_source (snd en), rc_title = ra_title (snd en),
     rc_text = ra_text (snd en), rc_options = ra_options (snd en), rc_approval = ra_approval (snd en)\<rparr>"

text \<open>What the hub answered: it is out of reach, it refused, or it took the notification.\<close>

datatype hub_answer = Out_Of_Reach | Refused string | Took uuid

definition answer_event :: "event \<Rightarrow> hub_answer \<Rightarrow> payload option" where
  "answer_event e a =
     (case a of
        Out_Of_Reach \<Rightarrow> None
      | Refused reason \<Rightarrow> Some (Note_Refused (ev_sequence e) reason)
      | Took i \<Rightarrow> Some (Note_Accepted (ev_sequence e) i))"

fun raise_each :: "moment \<Rightarrow> (raise_command \<Rightarrow> hub_answer) \<Rightarrow> (event \<times> raised_note) list \<Rightarrow> scheduler \<Rightarrow> scheduler" where
  "raise_each now hub [] s = s"
| "raise_each now hub (en # ens) s =
     (case answer_event (fst en) (hub (note_command en)) of
        None \<Rightarrow> s
      | Some p \<Rightarrow> raise_each now hub ens (append_to now (ev_thread (fst en)) (ev_turn (fst en)) p s))"

definition raise_notifications :: "moment \<Rightarrow> (raise_command \<Rightarrow> hub_answer) \<Rightarrow> scheduler \<Rightarrow> scheduler" where
  "raise_notifications now hub s =
     raise_each now hub (pending_notes (events_of (sd_log s) is_note None None)) s"

section \<open>Taking deliveries\<close>

datatype scheduler_error = Routine_Not_Found string | Scheduler_Registry_Error hub_error

text \<open>
  A delivery under an id a routine already had is the one it had. The turn and the thread of a new one
  are drawn for it; its thread is titled after it.
\<close>

definition receive ::
  "moment \<Rightarrow> uuid \<Rightarrow> uuid \<Rightarrow> string \<Rightarrow> delivery_arrival \<Rightarrow> string \<Rightarrow> routine_trigger \<Rightarrow> scheduler \<Rightarrow>
   (scheduler_error + (uuid \<times> uuid) \<times> bool) \<times> scheduler" where
  "receive now thread turn name arrival body trigger s =
     (if name \<notin> rt_name ` set (sd_routines s) then (Inl (Routine_Not_Found name), s)
      else case Option.bind (da_id arrival) (delivery_event (sd_log s) name) of
        Some e \<Rightarrow> (Inr ((ev_thread e, ev_turn e), True), s)
      | None \<Rightarrow>
          (case append_delivery now thread turn
               \<lparr>ro_name = name, ro_trigger = trigger, ro_delivery = da_id arrival, ro_dreaming = False\<rparr>
               arrival body (sd_log s) of
             Inl err \<Rightarrow> (Inl (Scheduler_Registry_Error err), s)
           | Inr log \<Rightarrow> (Inr ((thread, turn), False), s\<lparr>sd_log := log\<rparr>)))"

section \<open>A pass\<close>

definition reread_zone :: "string option \<Rightarrow> scheduler \<Rightarrow> scheduler" where
  "reread_zone zone s =
     (case zone of
        None \<Rightarrow> s
      | Some z \<Rightarrow> if z \<noteq> sd_zone s then s\<lparr>sd_armed := [], sd_zone := z\<rparr> else s)"

text \<open>The first of the least, as \<open>min\<close> finds it.\<close>

fun first_least :: "('a \<Rightarrow> 'b::linorder) \<Rightarrow> 'a list \<Rightarrow> 'a option" where
  "first_least key [] = None"
| "first_least key (x # xs) =
     (case first_least key xs of
        None \<Rightarrow> Some x
      | Some y \<Rightarrow> if key x \<le> key y then Some x else Some y)"

text \<open>Those of a routine that is off wait, but for those the user sent by hand.\<close>

definition deliveries_to_start :: "scheduler \<Rightarrow> waiting_delivery list" where
  "deliveries_to_start s =
     (let disabled = rt_name ` set (filter (\<lambda>r. \<not> rt_enabled r) (sd_routines s))
      in filter (\<lambda>d. ro_name (wd_origin d) \<notin> disabled \<or> ro_trigger (wd_origin d) = By_Hand)
           (concat (map (\<lambda>(_, r). rh_pending r) (histories (routine_events s)))))"

definition due_routines :: "moment \<Rightarrow> scheduler \<Rightarrow> (routine \<times> armed_routine) list" where
  "due_routines now s =
     concat (map (\<lambda>r. case map_of (sd_armed s) (rt_name r) of
         Some a \<Rightarrow> if ar_time a \<le> now then [(r, a)] else [] | None \<Rightarrow> []) (sd_routines s))"

datatype firing =
    No_Firing
  | Start_Delivery waiting_delivery routine_origin
  | Fire_Routine routine armed_routine routine_trigger

definition to_fire :: "moment \<Rightarrow> bool \<Rightarrow> scheduler \<Rightarrow> firing" where
  "to_fire now holding s =
     (if holding then No_Firing
      else case (first_least wd_order (deliveries_to_start s), first_least (\<lambda>(_, a). ar_time a) (due_routines now s)) of
        (None, None) \<Rightarrow> No_Firing
      | (Some d, due) \<Rightarrow>
          (let starts = Start_Delivery d ((wd_origin d)\<lparr>ro_trigger := By_Signal, ro_dreaming :=
                 list_ex (\<lambda>r. rt_name r = ro_name (wd_origin d) \<and> rt_dreaming r) (sd_routines s)\<rparr>)
           in case due of
                None \<Rightarrow> starts
              | Some (r, a) \<Rightarrow>
                  if da_received (wd_arrival d) \<le> ar_time a then starts
                  else Fire_Routine r a (if ar_time a < sd_started s then To_Catch_Up else By_Schedule))
      | (None, Some (r, a)) \<Rightarrow>
          Fire_Routine r a (if ar_time a < sd_started s then To_Catch_Up else By_Schedule))"

definition tick_begins ::
  "scheduler_env \<Rightarrow> moment \<Rightarrow> string option \<Rightarrow> (raise_command \<Rightarrow> hub_answer) \<Rightarrow> bool \<Rightarrow> scheduler \<Rightarrow>
   firing \<times> scheduler" where
  "tick_begins se now zone hub holding s =
     (let s1 = raise_notifications now hub (handle_failures se now (reread_zone zone s));
          s2 = s1\<lparr>sd_armed := armed_now se now [] s1\<rparr>
      in (to_fire now holding s2, s2))"

text \<open>What came of a firing: its turn was taken, another is in the way, or a budget is used up.\<close>

datatype fired = Turn_Taken | In_The_Way | Over_Budget

definition rearm_routine :: "scheduler_env \<Rightarrow> moment \<Rightarrow> string \<Rightarrow> string \<Rightarrow> scheduler \<Rightarrow> scheduler" where
  "rearm_routine se now name schedule s = s\<lparr>sd_armed := dict_set name
     \<lparr>ar_schedule = schedule, ar_time = se_next se (sd_zone s) schedule now\<rparr> (sd_armed s)\<rparr>"

definition fire_ends :: "scheduler_env \<Rightarrow> moment \<Rightarrow> firing \<Rightarrow> fired \<Rightarrow> scheduler \<Rightarrow> scheduler" where
  "fire_ends se now f result s =
     (case (f, result) of
        (Start_Delivery d _, Turn_Taken) \<Rightarrow> s\<lparr>sd_log := drop_waiting_body (wd_turn d) (sd_log s)\<rparr>
      | (Fire_Routine r a _, Turn_Taken) \<Rightarrow>
          (case rt_schedule r of
             Some schedule \<Rightarrow>
               if rt_enabled r \<and> schedule \<noteq> [] then rearm_routine se now (rt_name r) schedule s else s
           | None \<Rightarrow> s)
      | (Fire_Routine r a _, Over_Budget) \<Rightarrow> rearm_routine se now (rt_name r) (ar_schedule a) s
      | _ \<Rightarrow> s)"

text \<open>Once the turn drained.\<close>

definition tick_ends ::
  "scheduler_env \<Rightarrow> moment \<Rightarrow> (raise_command \<Rightarrow> hub_answer) \<Rightarrow> firing \<Rightarrow> fired \<Rightarrow> scheduler \<Rightarrow> scheduler" where
  "tick_ends se now hub f result s =
     (if f = No_Firing \<or> result \<noteq> Turn_Taken then s
      else raise_notifications now hub (handle_failures se now s))"

section \<open>Asking for routines\<close>

record routine_summary =
  rs_routine :: routine
  rs_last :: "routine_run option"
  rs_failures :: nat
  rs_last_failure :: "string option"
  rs_notices :: "routine_notice list"
  rs_next :: "moment option"
  rs_pending :: nat

text \<open>A last run's first line is read from its own turn, which holds its text.\<close>

definition summary_of :: "scheduler \<Rightarrow> routine \<Rightarrow> routine_summary" where
  "summary_of s r =
     (let es = routine_events s; rec = record_of (folded es) (rt_name r)
      in \<lparr>rs_routine = r,
          rs_last = Option.bind (last_run es (rt_name r))
            (\<lambda>run. last_run (turn_events (sd_log s) (rl_turn run)) (rt_name r)),
          rs_failures = rh_failures rec, rs_last_failure = rh_last_failure rec, rs_notices = rh_notices rec,
          rs_next = map_option ar_time (map_of (sd_armed s) (rt_name r)), rs_pending = length (rh_pending rec)\<rparr>)"

definition list_routines :: "scheduler_env \<Rightarrow> moment \<Rightarrow> scheduler \<Rightarrow> routine_summary list \<times> scheduler" where
  "list_routines se now s =
     (let s1 = reset_failures now (sd_routines s) s; s2 = s1\<lparr>sd_armed := armed_now se now [] s1\<rparr>
      in (map (summary_of s2) (sd_routines s2), s2))"

text \<open>
  A routine the user runs: a payload is a delivery of it, and without one it fires now. The first part
  finds the routine, and what to fire or the delivery's answer.
\<close>

definition run_routine ::
  "moment \<Rightarrow> uuid \<Rightarrow> uuid \<Rightarrow> string \<Rightarrow> (delivery_arrival \<times> string) option \<Rightarrow> scheduler \<Rightarrow>
   (scheduler_error + routine + (uuid \<times> uuid)) \<times> scheduler" where
  "run_routine now thread turn name sent s =
     (case find (\<lambda>r. rt_name r = name) (sd_routines s) of
        None \<Rightarrow> (Inl (Routine_Not_Found name), s)
      | Some r \<Rightarrow>
         (let s' = reset_failures now [r] s
          in case sent of
               None \<Rightarrow> (Inr (Inl r), s')
             | Some (arrival, body) \<Rightarrow>
                 (case receive now thread turn name arrival body By_Hand s' of
                    (Inl err, s'') \<Rightarrow> (Inl err, s'')
                  | (Inr (key, _), s'') \<Rightarrow> (Inr (Inr key), s''))))"

definition title_of :: "scheduler_env \<Rightarrow> scheduler \<Rightarrow> string \<Rightarrow> string option \<Rightarrow> moment \<Rightarrow> string" where
  "title_of se s name delivery_id now =
     name @ '' '' @ [MIDDLE_DOT] @ '' '' @
     (case delivery_id of Some d \<Rightarrow> if d \<noteq> [] then d else se_minute se (sd_zone s) now
      | None \<Rightarrow> se_minute se (sd_zone s) now)"

end
