(* ===== verification/Routine_Laws.thy ===== *)
theory Routine_Laws
  imports Routine_History
begin

text \<open>
  What the fold of the routine events computes, against definitions that look at the events
  themselves: which run an event belongs to and whether it is over, the failures in a row, and the
  deliveries that wait for their turn.
\<close>

definition key_of :: "event \<Rightarrow> turn_key" where
  "key_of e = (ev_thread e, ev_turn e)"

text \<open>The routine whose run an event starts.\<close>

definition starts :: "event \<Rightarrow> string option" where
  "starts e = (case ev_payload e of Turn_Started (From_Routine origin) _ \<Rightarrow> Some (ro_name origin) | _ \<Rightarrow> None)"

text \<open>The routine a turn is a run of, and whether the run is over.\<close>

definition run_of :: "event list \<Rightarrow> turn_key \<Rightarrow> string option" where
  "run_of es k = Option.bind (find (\<lambda>e. key_of e = k \<and> starts e \<noteq> None) es) starts"

definition over :: "event list \<Rightarrow> turn_key \<Rightarrow> bool" where
  "over es k \<longleftrightarrow> (\<exists>i < length es. key_of (es ! i) = k \<and> closes_turn (ev_payload (es ! i)) \<and> run_of (take i es) k \<noteq> None)"

lemma folded_Nil [simp]: "folded [] = blank_folding"
  by (simp add: folded_def)

lemma folded_snoc [simp]: "folded (es @ [e]) = fold_event (length es, e) (folded es)"
  by (simp add: folded_def enumerate_append_eq)

lemma find_snoc: "find q (xs @ [x]) = (case find q xs of None \<Rightarrow> if q x then Some x else None | Some y \<Rightarrow> Some y)"
  by (induction xs) auto

lemma run_of_Nil [simp]: "run_of [] k = None"
  by (simp add: run_of_def)

lemma run_of_snoc [simp]:
  "run_of (es @ [e]) k = (case run_of es k of None \<Rightarrow> if key_of e = k then starts e else None | Some name \<Rightarrow> Some name)"
proof (cases "find (\<lambda>e. key_of e = k \<and> starts e \<noteq> None) es")
  case (Some x)
  then have "starts x \<noteq> None" by (auto simp: find_Some_iff)
  then show ?thesis using Some by (auto simp: run_of_def find_snoc)
qed (auto simp: run_of_def find_snoc)

lemma over_Nil [simp]: "\<not> over [] k"
  by (simp add: over_def)

lemma over_snoc [simp]:
  "over (es @ [e]) k \<longleftrightarrow> over es k \<or> key_of e = k \<and> closes_turn (ev_payload e) \<and> run_of es k \<noteq> None"
proof -
  define p where "p = (\<lambda>xs i. key_of (xs ! i) = k \<and> closes_turn (ev_payload (xs ! i)) \<and> run_of (take i xs) k \<noteq> None)"
  have before: "p (es @ [e]) i \<longleftrightarrow> p es i" if "i < length es" for i
    using that by (simp add: p_def nth_append)
  have here: "p (es @ [e]) (length es) \<longleftrightarrow> key_of e = k \<and> closes_turn (ev_payload e) \<and> run_of es k \<noteq> None"
    by (simp add: p_def)
  have "over (es @ [e]) k \<longleftrightarrow> (\<exists>i < Suc (length es). p (es @ [e]) i)" by (simp only: over_def p_def length_append_singleton)
  also have "\<dots> \<longleftrightarrow> (\<exists>i < length es. p es i) \<or> p (es @ [e]) (length es)"
    using before by (auto simp only: less_Suc_eq)
  also have "(\<exists>i < length es. p es i) \<longleftrightarrow> over es k" by (simp only: over_def p_def)
  finally show ?thesis using here by blast
qed

section \<open>Records and runs under the fold's changes\<close>

lemma record_of_change [simp]:
  "record_of (change_record n f fo) m = (if m = n then f (record_of fo n) else record_of fo m)"
  by (simp add: record_of_def change_record_def dict_get_def dict_simps)

lemma change_record_frames [simp]:
  "fo_runs (change_record n f fo) = fo_runs fo" "fo_closed (change_record n f fo) = fo_closed fo"
  "fo_pending (change_record n f fo) = fo_pending fo" "fo_handled (change_record n f fo) = fo_handled fo"
  "fo_failures (change_record n f fo) = fo_failures fo" "fo_texts (change_record n f fo) = fo_texts fo"
  by (simp_all add: change_record_def)

lemma change_run_frames [simp]:
  "fo_histories (change_run k f fo) = fo_histories fo" "fo_closed (change_run k f fo) = fo_closed fo"
  "fo_pending (change_run k f fo) = fo_pending fo" "fo_handled (change_run k f fo) = fo_handled fo"
  "fo_failures (change_run k f fo) = fo_failures fo" "record_of (change_run k f fo) m = record_of fo m"
  by (simp_all add: change_run_def record_of_def split: option.split)

lemma forget_failures_record [simp]: "record_of (forget_failures n fo) m = record_of fo m"
  by (simp add: forget_failures_def record_of_def)

lemma clean_slate_frames [simp]:
  "fo_runs (clean_slate n fo) = fo_runs fo" "fo_closed (clean_slate n fo) = fo_closed fo"
  "fo_pending (clean_slate n fo) = fo_pending fo" "fo_handled (clean_slate n fo) = fo_handled fo"
  "fo_failures (clean_slate n fo) = filter (\<lambda>(_, f). uf_name f \<noteq> n) (fo_failures fo)"
  "record_of (clean_slate n fo) m =
     (if m = n then (record_of fo n)\<lparr>rh_failures := 0, rh_disabled := None\<rparr> else record_of fo m)"
  by (simp_all add: clean_slate_def) (simp_all add: forget_failures_def record_of_def change_record_def dict_get_def dict_simps)

lemma record_of_updates [simp]:
  "record_of (fo\<lparr>fo_runs := a\<rparr>) m = record_of fo m" "record_of (fo\<lparr>fo_texts := b\<rparr>) m = record_of fo m"
  "record_of (fo\<lparr>fo_closed := c\<rparr>) m = record_of fo m" "record_of (fo\<lparr>fo_handled := c\<rparr>) m = record_of fo m"
  "record_of (fo\<lparr>fo_failures := d\<rparr>) m = record_of fo m" "record_of (fo\<lparr>fo_pending := p\<rparr>) m = record_of fo m"
  by (simp_all add: record_of_def)

definition runs_of :: "folding \<Rightarrow> turn_key \<Rightarrow> string option" where
  "runs_of fo k = map_option fst (map_of (fo_runs fo) k)"

lemma runs_of_simps [simp]:
  "runs_of (change_record n f fo) k = runs_of fo k" "runs_of (clean_slate n fo) k = runs_of fo k"
  "runs_of (fo\<lparr>fo_texts := b\<rparr>) k = runs_of fo k" "runs_of (fo\<lparr>fo_closed := c\<rparr>) k = runs_of fo k"
  "runs_of (fo\<lparr>fo_handled := c\<rparr>) k = runs_of fo k" "runs_of (fo\<lparr>fo_failures := d\<rparr>) k = runs_of fo k"
  "runs_of (fo\<lparr>fo_pending := p\<rparr>) k = runs_of fo k"
  by (simp_all add: runs_of_def)

lemma runs_of_change_run [simp]: "runs_of (change_run j f fo) k = runs_of fo k"
  by (auto simp: runs_of_def change_run_def dict_simps split: option.split)

lemma run_event_frames [simp]:
  "runs_of (run_event name j e fo) k = runs_of fo k"
  "fo_pending (run_event name j e fo) = fo_pending fo" "fo_handled (run_event name j e fo) = fo_handled fo"
  "fo_closed (run_event name j e fo) = (if closes_turn (ev_payload e) then j # fo_closed fo else fo_closed fo)"
  by (simp_all add: run_event_def Let_def split: payload.split)

lemma runs_of_known: "k \<in> fst ` set (fo_runs fo) \<longleftrightarrow> runs_of fo k \<noteq> None"
  by (auto simp: runs_of_def map_of_eq_None_iff)

lemma take_delivery_frames [simp]:
  "fo_runs (take_delivery k fo) = fo_runs fo" "fo_closed (take_delivery k fo) = fo_closed fo"
  "fo_handled (take_delivery k fo) = fo_handled fo" "fo_failures (take_delivery k fo) = fo_failures fo"
  "runs_of (take_delivery k fo) j = runs_of fo j"
  by (simp_all add: take_delivery_def split: option.split)

lemma start_run_frames [simp]:
  "fo_closed (start_run name e fo) = fo_closed fo" "fo_handled (start_run name e fo) = fo_handled fo"
  "fo_failures (start_run name e fo) = fo_failures fo" "fo_pending (start_run name e fo) = fo_pending fo"
  "runs_of (start_run name e fo) k =
     (case runs_of fo k of None \<Rightarrow> if key_of e = k then Some name else None | Some x \<Rightarrow> Some x)"
  using runs_of_known [of "(ev_thread e, ev_turn e)" fo]
  by (auto simp: start_run_def Let_def key_of_def) (auto simp: runs_of_def dict_simps split: option.split)

text \<open>What an event of a run under way does, to the fold that knows the run.\<close>

definition at_run :: "event \<Rightarrow> folding \<Rightarrow> folding" where
  "at_run e fo =
     (case runs_of fo (key_of e) of
        Some name \<Rightarrow> if key_of e \<in> set (fo_closed fo) then fo else run_event name (key_of e) e fo
      | None \<Rightarrow> fo)"

lemma fold_event_cases:
  "fold_event (n, e) fo =
     (case ev_payload e of
        Signal_Received origin arrival \<Rightarrow>
          if key_of e \<in> fst ` set (fo_pending fo) then fo
          else (let d = \<lparr>wd_thread = ev_thread e, wd_turn = ev_turn e, wd_order = n, wd_origin = origin, wd_arrival = arrival\<rparr>
                in (change_record (ro_name origin) (\<lambda>r. r\<lparr>rh_pending := rh_pending r @ [d]\<rparr>) fo)
                     \<lparr>fo_pending := dict_set (key_of e) (ro_name origin, d) (fo_pending fo)\<rparr>)
      | Failure_Handled name notice \<Rightarrow>
          (let told = (case notice of
                 Some n \<Rightarrow>
                   if key_of e \<in> set (fo_handled fo) then fo
                   else change_record name (\<lambda>r. r\<lparr>rh_notices := rh_notices r @ [n],
                     rh_disabled := (if rn_kind n = Routine_Disabled then Some n else rh_disabled r)\<rparr>) fo
               | None \<Rightarrow> fo)
           in told\<lparr>fo_handled := key_of e # fo_handled told\<rparr>)
      | Failures_Reset name \<Rightarrow> clean_slate name fo
      | Turn_Started (From_Routine origin) _ \<Rightarrow> start_run (ro_name origin) e (take_delivery (key_of e) fo)
      | _ \<Rightarrow> at_run e fo)"
  by (auto simp: fold_event_def at_run_def key_of_def runs_of_def Let_def split: payload.split turn_origin.split option.split)

lemma at_run_frames [simp]:
  "runs_of (at_run e fo) k = runs_of fo k" "fo_pending (at_run e fo) = fo_pending fo"
  "fo_handled (at_run e fo) = fo_handled fo"
  "k \<in> set (fo_closed (at_run e fo)) \<longleftrightarrow>
     k \<in> set (fo_closed fo) \<or> key_of e = k \<and> closes_turn (ev_payload e) \<and> runs_of fo k \<noteq> None"
  by (auto simp: at_run_def split: option.split)

lemma fold_event_runs:
  "runs_of (fold_event (n, e) fo) k =
     (case runs_of fo k of None \<Rightarrow> if key_of e = k then starts e else None | Some x \<Rightarrow> Some x)"
  by (auto simp: fold_event_cases starts_def Let_def split: payload.split turn_origin.split option.split)

lemma fold_event_closed:
  "k \<in> set (fo_closed (fold_event (n, e) fo)) \<longleftrightarrow>
     k \<in> set (fo_closed fo) \<or> key_of e = k \<and> closes_turn (ev_payload e) \<and> runs_of fo k \<noteq> None"
  by (auto simp: fold_event_cases Let_def split: payload.split turn_origin.split option.split)

lemma runs_and_over:
  "runs_of (folded es) k = run_of es k" "k \<in> set (fo_closed (folded es)) \<longleftrightarrow> over es k"
proof -
  have "runs_of (folded es) k = run_of es k \<and> (k \<in> set (fo_closed (folded es)) \<longleftrightarrow> over es k)"
  proof (induction es rule: rev_induct)
    case Nil
    then show ?case by (simp add: runs_of_def blank_folding_def)
  next
    case (snoc e es)
    then show ?case by (simp add: fold_event_runs fold_event_closed)
  qed
  then show "runs_of (folded es) k = run_of es k" "k \<in> set (fo_closed (folded es)) \<longleftrightarrow> over es k" by simp_all
qed

section \<open>Failures in a row\<close>

text \<open>An event ends an open run of a routine as a failure, or lets its failures start over.\<close>

definition open_run_of :: "event list \<Rightarrow> event \<Rightarrow> string \<Rightarrow> bool" where
  "open_run_of es e name \<longleftrightarrow> run_of es (key_of e) = Some name \<and> \<not> over es (key_of e)"

definition fails :: "event list \<Rightarrow> event \<Rightarrow> string \<Rightarrow> bool" where
  "fails es e name \<longleftrightarrow> open_run_of es e name \<and> (case ev_payload e of Turn_Failed _ _ _ \<Rightarrow> True | _ \<Rightarrow> False)"

definition starts_over :: "event list \<Rightarrow> event \<Rightarrow> string \<Rightarrow> bool" where
  "starts_over es e name \<longleftrightarrow>
     ev_payload e = Failures_Reset name \<or> open_run_of es e name \<and> (case ev_payload e of Turn_Completed outcome _ \<Rightarrow> outcome = Did_Work | _ \<Rightarrow> False)"

text \<open>The failed runs of a routine after which it never started over.\<close>

definition streak :: "event list \<Rightarrow> string \<Rightarrow> nat" where
  "streak es name = length (filter (\<lambda>i. fails (take i es) (es ! i) name \<and>
     \<not> (\<exists>j < length es. i < j \<and> starts_over (take j es) (es ! j) name)) [0..<length es])"

lemma count_since:
  fixes f g :: "nat \<Rightarrow> bool"
  assumes "\<not> (f n \<and> g n)"
  shows "length (filter (\<lambda>i. f i \<and> \<not> (\<exists>j < Suc n. i < j \<and> g j)) [0..<Suc n]) =
    (if g n then 0 else if f n then Suc (length (filter (\<lambda>i. f i \<and> \<not> (\<exists>j < n. i < j \<and> g j)) [0..<n]))
     else length (filter (\<lambda>i. f i \<and> \<not> (\<exists>j < n. i < j \<and> g j)) [0..<n]))"
proof -
  have end_at: "\<not> (\<exists>j < Suc n. n < j \<and> g j)" by auto
  have "filter (\<lambda>i. f i \<and> \<not> (\<exists>j < Suc n. i < j \<and> g j)) [0..<n] =
      (if g n then [] else filter (\<lambda>i. f i \<and> \<not> (\<exists>j < n. i < j \<and> g j)) [0..<n])"
    by (auto simp: filter_empty_conv less_Suc_eq intro!: filter_cong)
  then show ?thesis using assms end_at by simp
qed

lemma streak_Nil [simp]: "streak [] name = 0"
  by (simp add: streak_def)

lemma streak_snoc [simp]:
  "streak (es @ [e]) name =
    (if starts_over es e name then 0 else if fails es e name then Suc (streak es name) else streak es name)"
proof -
  have apart: "\<not> (fails es e name \<and> starts_over es e name)"
    by (cases "ev_payload e") (simp_all add: fails_def starts_over_def)
  define f where "f = (\<lambda>i. fails (take i (es @ [e])) ((es @ [e]) ! i) name)"
  define g where "g = (\<lambda>i. starts_over (take i (es @ [e])) ((es @ [e]) ! i) name)"
  have here: "f (length es) = fails es e name" "g (length es) = starts_over es e name" by (simp_all add: f_def g_def)
  have before: "f i = fails (take i es) (es ! i) name" "g i = starts_over (take i es) (es ! i) name"
    if "i < length es" for i using that by (simp_all add: f_def g_def nth_append)
  have "streak (es @ [e]) name =
      length (filter (\<lambda>i. f i \<and> \<not> (\<exists>j < Suc (length es). i < j \<and> g j)) [0..<Suc (length es)])"
    by (simp only: streak_def f_def g_def length_append_singleton)
  moreover have "streak es name = length (filter (\<lambda>i. f i \<and> \<not> (\<exists>j < length es. i < j \<and> g j)) [0..<length es])"
    unfolding streak_def by (intro arg_cong [of _ _ length] filter_cong) (auto simp: before)
  ultimately show ?thesis using count_since [of f "length es" g] apart here by simp
qed

lemma fold_event_failures:
  "rh_failures (record_of (fold_event (length es, e) (folded es)) name) =
     (if starts_over es e name then 0
      else if fails es e name then Suc (rh_failures (record_of (folded es) name))
      else rh_failures (record_of (folded es) name))"
proof (cases "ev_payload e")
  case (Turn_Started origin start)
  then show ?thesis
    by (cases origin)
      (auto simp: fold_event_cases starts_over_def fails_def at_run_def run_event_def start_run_def take_delivery_def
        Let_def split: option.split)
next
  case (Turn_Completed outcome closing)
  then show ?thesis
    by (auto simp: fold_event_cases starts_over_def fails_def at_run_def run_event_def Let_def open_run_of_def runs_and_over
        split: option.split)
qed (auto simp: fold_event_cases starts_over_def fails_def at_run_def run_event_def Let_def open_run_of_def runs_and_over
      split: option.split)

lemma failures_are_streak: "rh_failures (record_of (folded es) name) = streak es name"
proof (induction es rule: rev_induct)
  case Nil
  then show ?case by (simp add: record_of_def blank_folding_def dict_get_def blank_record_def)
next
  case (snoc e es)
  then show ?case by (simp add: fold_event_failures)
qed

end
