(* ===== verification/Routine_Pending.thy ===== *)
theory Routine_Pending
  imports Routine_Laws
begin

text \<open>
  The deliveries that wait: those whose arrival no start of their turn followed, each once, in the
  order they arrived.
\<close>

section \<open>What waits\<close>

definition arrival_of :: "event \<Rightarrow> (routine_origin \<times> delivery_arrival) option" where
  "arrival_of e = (case ev_payload e of Signal_Received origin arrival \<Rightarrow> Some (origin, arrival) | _ \<Rightarrow> None)"

text \<open>No start of the event's turn came after it.\<close>

definition unstarted :: "event list \<Rightarrow> nat \<Rightarrow> bool" where
  "unstarted es i \<longleftrightarrow> (\<forall>j < length es. i < j \<and> starts (es ! j) \<noteq> None \<longrightarrow> key_of (es ! j) \<noteq> key_of (es ! i))"

definition repeated :: "event list \<Rightarrow> nat \<Rightarrow> bool" where
  "repeated es i \<longleftrightarrow> (\<exists>j < i. arrival_of (es ! j) \<noteq> None \<and> key_of (es ! j) = key_of (es ! i) \<and>
     (\<forall>m < i. j < m \<and> starts (es ! m) \<noteq> None \<longrightarrow> key_of (es ! m) \<noteq> key_of (es ! i)))"

definition waits :: "event list \<Rightarrow> nat \<Rightarrow> bool" where
  "waits es i \<longleftrightarrow> arrival_of (es ! i) \<noteq> None \<and> unstarted es i \<and> \<not> repeated es i"

definition delivery_at :: "event list \<Rightarrow> nat \<Rightarrow> waiting_delivery" where
  "delivery_at es i = \<lparr>wd_thread = ev_thread (es ! i), wd_turn = ev_turn (es ! i), wd_order = i,
     wd_origin = fst (the (arrival_of (es ! i))), wd_arrival = snd (the (arrival_of (es ! i)))\<rparr>"

definition waiting_at :: "event list \<Rightarrow> nat \<Rightarrow> turn_key \<times> string \<times> waiting_delivery" where
  "waiting_at es i = (key_of (es ! i), ro_name (wd_origin (delivery_at es i)), delivery_at es i)"

definition waiting :: "event list \<Rightarrow> (turn_key \<times> string \<times> waiting_delivery) list" where
  "waiting es = map (waiting_at es) (filter (waits es) [0..<length es])"

section \<open>One more event\<close>

lemma waiting_at_before: "i < length es \<Longrightarrow> waiting_at (es @ [e]) i = waiting_at es i"
  by (simp add: waiting_at_def delivery_at_def nth_append)

lemma repeated_upto:
  assumes "repeated xs i" and "\<And>j. j \<le> i \<Longrightarrow> ys ! j = xs ! j"
  shows "repeated ys i"
proof -
  obtain j where j: "j < i" "arrival_of (xs ! j) \<noteq> None" "key_of (xs ! j) = key_of (xs ! i)"
    and none: "\<And>m. m < i \<Longrightarrow> j < m \<Longrightarrow> starts (xs ! m) \<noteq> None \<Longrightarrow> key_of (xs ! m) \<noteq> key_of (xs ! i)"
    using assms(1) unfolding repeated_def by blast
  have same: "ys ! m = xs ! m" if "m < i" for m using assms(2) that by simp
  have "arrival_of (ys ! j) \<noteq> None \<and> key_of (ys ! j) = key_of (ys ! i)" using j same assms(2) by simp
  moreover have "key_of (ys ! m) \<noteq> key_of (ys ! i)" if "m < i" "j < m \<and> starts (ys ! m) \<noteq> None" for m
    using none [of m] that same [of m] assms(2) [of i] by simp
  ultimately show ?thesis using j(1) unfolding repeated_def by blast
qed

lemma repeated_before:
  assumes "i < length es"
  shows "repeated (es @ [e]) i \<longleftrightarrow> repeated es i"
proof -
  have "(es @ [e]) ! j = es ! j" if "j \<le> i" for j using assms that by (simp add: nth_append)
  then show ?thesis
    using repeated_upto [of "es @ [e]" i es] repeated_upto [of es i "es @ [e]"] by auto
qed

lemma unstarted_before:
  assumes "i < length es"
  shows "unstarted (es @ [e]) i \<longleftrightarrow> unstarted es i \<and> (starts e \<noteq> None \<longrightarrow> key_of e \<noteq> key_of (es ! i))"
proof -
  have "(es @ [e]) ! j = es ! j" if "j < length es" for j using that by (simp add: nth_append)
  then show ?thesis
    using assms unfolding unstarted_def by (simp add: All_less_Suc nth_append) metis
qed

lemma waits_before:
  assumes "i < length es"
  shows "waits (es @ [e]) i \<longleftrightarrow> waits es i \<and> (starts e \<noteq> None \<longrightarrow> key_of e \<noteq> key_of (es ! i))"
  using repeated_before [OF assms, of e] unstarted_before [OF assms, of e] assms by (auto simp: waits_def nth_append)

lemma waits_here:
  "waits (es @ [e]) (length es) \<longleftrightarrow> arrival_of e \<noteq> None \<and> \<not> (\<exists>j < length es. waits es j \<and> key_of (es ! j) = key_of e)"
proof -
  have last_unstarted: "unstarted (es @ [e]) (length es)" by (auto simp: unstarted_def)
  define left where "left = (\<lambda>j. j < length es \<and> arrival_of (es ! j) \<noteq> None \<and> key_of (es ! j) = key_of e \<and> unstarted es j)"
  have "repeated (es @ [e]) (length es) \<longleftrightarrow> (\<exists>j. left j)"
  proof -
    have "repeated (es @ [e]) (length es) \<longleftrightarrow> (\<exists>j < length es. arrival_of (es ! j) \<noteq> None \<and> key_of (es ! j) = key_of e \<and>
        (\<forall>m < length es. j < m \<and> starts (es ! m) \<noteq> None \<longrightarrow> key_of (es ! m) \<noteq> key_of e))"
      by (simp add: repeated_def nth_append cong: conj_cong)
    also have "\<dots> \<longleftrightarrow> (\<exists>j. left j)" by (simp add: left_def unstarted_def cong: conj_cong)
    finally show ?thesis .
  qed
  also have "\<dots> \<longleftrightarrow> (\<exists>j < length es. waits es j \<and> key_of (es ! j) = key_of e)"
  proof
    assume "\<exists>j. left j"
    then obtain j where j: "left j" and least: "\<And>i. i < j \<Longrightarrow> \<not> left i" by (metis exists_least_iff)
    have "\<not> repeated es j"
    proof
      assume "repeated es j"
      then obtain i where i: "i < j" "arrival_of (es ! i) \<noteq> None" "key_of (es ! i) = key_of (es ! j)"
        and none: "\<And>m. m < j \<Longrightarrow> i < m \<Longrightarrow> starts (es ! m) \<noteq> None \<Longrightarrow> key_of (es ! m) \<noteq> key_of (es ! j)"
        unfolding repeated_def by blast
      have "starts (es ! j) = None" using j unfolding left_def by (auto simp: arrival_of_def starts_def split: payload.splits)
      have "unstarted es i"
        unfolding unstarted_def
      proof (intro allI impI)
        fix m assume m: "m < length es" "i < m \<and> starts (es ! m) \<noteq> None"
        consider "m < j" | "m = j" | "j < m" by linarith
        then show "key_of (es ! m) \<noteq> key_of (es ! i)"
        proof cases
          case 1
          then show ?thesis using none m i(3) by metis
        next
          case 2
          then show ?thesis using m \<open>starts (es ! j) = None\<close> by simp
        next
          case 3
          then show ?thesis using j m i(3) unfolding left_def unstarted_def by metis
        qed
      qed
      then have "left i" using i j unfolding left_def by auto
      then show False using least i(1) by blast
    qed
    then show "\<exists>j < length es. waits es j \<and> key_of (es ! j) = key_of e" using j unfolding left_def waits_def by blast
  next
    assume "\<exists>j < length es. waits es j \<and> key_of (es ! j) = key_of e"
    then show "\<exists>j. left j" unfolding left_def waits_def by blast
  qed
  finally show ?thesis using last_unstarted by (auto simp: waits_def)
qed

lemma waiting_keys: "k \<in> fst ` set (waiting es) \<longleftrightarrow> (\<exists>j < length es. waits es j \<and> key_of (es ! j) = k)"
  by (auto simp: waiting_def waiting_at_def image_image)

lemma waiting_snoc:
  "waiting (es @ [e]) =
     (case arrival_of e of
        Some (origin, arrival) \<Rightarrow>
          if key_of e \<in> fst ` set (waiting es) then waiting es
          else waiting es @ [(key_of e, ro_name origin, \<lparr>wd_thread = ev_thread e, wd_turn = ev_turn e,
            wd_order = length es, wd_origin = origin, wd_arrival = arrival\<rparr>)]
      | None \<Rightarrow> if starts e = None then waiting es else without_key (key_of e) (waiting es))"
proof -
  have split: "waiting (es @ [e]) = map (waiting_at es) (filter (waits (es @ [e])) [0..<length es]) @
      (if waits (es @ [e]) (length es) then [waiting_at (es @ [e]) (length es)] else [])"
    by (simp add: waiting_def waiting_at_before)
  show ?thesis
  proof (cases "arrival_of e")
    case None
    then have here: "\<not> waits (es @ [e]) (length es)" by (simp add: waits_here)
    show ?thesis
    proof (cases "starts e = None")
      case True
      then have "filter (waits (es @ [e])) [0..<length es] = filter (waits es) [0..<length es]"
        by (intro filter_cong) (auto simp: waits_before)
      then show ?thesis using split here None True by (simp add: waiting_def)
    next
      case False
      then have "filter (waits (es @ [e])) [0..<length es] =
          filter (\<lambda>i. waits es i \<and> key_of (es ! i) \<noteq> key_of e) [0..<length es]"
        by (intro filter_cong) (auto simp: waits_before)
      moreover have "map (waiting_at es) (filter (\<lambda>i. waits es i \<and> key_of (es ! i) \<noteq> k) is) =
          without_key k (map (waiting_at es) (filter (waits es) is))" for k "is"
        by (induction "is") (auto simp: without_key_def waiting_at_def)
      ultimately show ?thesis using split here None False by (auto simp: waiting_def)
    qed
  next
    case (Some oa)
    obtain origin arrival where oa: "oa = (origin, arrival)" by (cases oa)
    have starts: "starts e = None" using Some by (auto simp: arrival_of_def starts_def split: payload.splits)
    then have "filter (waits (es @ [e])) [0..<length es] = filter (waits es) [0..<length es]"
      by (intro filter_cong) (auto simp: waits_before)
    moreover have "waiting_at (es @ [e]) (length es) = (key_of e, ro_name origin, \<lparr>wd_thread = ev_thread e,
        wd_turn = ev_turn e, wd_order = length es, wd_origin = origin, wd_arrival = arrival\<rparr>)"
      using Some oa by (simp add: waiting_at_def delivery_at_def)
    ultimately show ?thesis using split Some oa waits_here [of es e] waiting_keys [of "key_of e" es] by (simp add: waiting_def)
  qed
qed

section \<open>The fold's deliveries\<close>

lemma dict_set_new: "k \<notin> fst ` set d \<Longrightarrow> dict_set k v d = d @ [(k, v)]"
  by (induction d) (auto simp: dict_set_def)

lemma without_absent: "map_of d k = None \<Longrightarrow> without_key k d = d"
  by (induction d) (auto simp: without_key_def split: if_splits)

lemma start_run_pending [simp]: "rh_pending (record_of (start_run name e fo) m) = rh_pending (record_of fo m)"
  by (simp add: start_run_def Let_def)

lemma at_run_pending [simp]: "rh_pending (record_of (at_run e fo) m) = rh_pending (record_of fo m)"
  by (simp add: at_run_def run_event_def Let_def split: option.split payload.split)

lemma take_delivery_fo_pending [simp]: "fo_pending (take_delivery k fo) = without_key k (fo_pending fo)"
  by (simp add: take_delivery_def without_absent split: option.split)

lemma fold_event_pending:
  "fo_pending (fold_event (n, e) fo) =
     (case arrival_of e of
        Some (origin, arrival) \<Rightarrow>
          if key_of e \<in> fst ` set (fo_pending fo) then fo_pending fo
          else fo_pending fo @ [(key_of e, ro_name origin, \<lparr>wd_thread = ev_thread e, wd_turn = ev_turn e,
            wd_order = n, wd_origin = origin, wd_arrival = arrival\<rparr>)]
      | None \<Rightarrow> if starts e = None then fo_pending fo else without_key (key_of e) (fo_pending fo))"
  by (simp add: fold_event_cases arrival_of_def starts_def Let_def dict_set_new split: payload.split turn_origin.split option.split)

lemma pending_is_waiting: "fo_pending (folded es) = waiting es"
proof (induction es rule: rev_induct)
  case Nil
  then show ?case by (simp add: blank_folding_def waiting_def)
next
  case (snoc e es)
  then show ?case by (simp only: folded_snoc fold_event_pending waiting_snoc)
qed

text \<open>A routine's record lists its deliveries in the same order.\<close>

definition pending_of :: "(turn_key \<times> string \<times> waiting_delivery) list \<Rightarrow> string \<Rightarrow> waiting_delivery list" where
  "pending_of ps name = map (\<lambda>(_, _, d). d) (filter (\<lambda>(_, n, _). n = name) ps)"

lemma pending_of_append: "pending_of (ps @ qs) name = pending_of ps name @ pending_of qs name"
  by (simp add: pending_of_def)

lemma waiting_entry:
  assumes "(k, n, d) \<in> set (waiting es)"
  shows "k = (wd_thread d, wd_turn d)" and "n = ro_name (wd_origin d)"
  using assms by (auto simp: waiting_def waiting_at_def delivery_at_def key_of_def)

lemma waiting_distinct: "distinct (map fst (waiting es))"
proof (induction es rule: rev_induct)
  case (snoc e es)
  have "distinct (map fst (without_key k d))" if "distinct (map fst d)" for k and d :: "(turn_key \<times> string \<times> waiting_delivery) list"
    using that by (simp add: without_key_def distinct_map_filter)
  then show ?case using snoc by (auto simp: waiting_snoc split: option.split)
qed (simp add: waiting_def)

lemma remove_pending:
  assumes "distinct (map fst ps)" and "\<And>k n d. (k, n, d) \<in> set ps \<Longrightarrow> k = (wd_thread d, wd_turn d)"
    and "map_of ps k = Some (n, d)"
  shows "pending_of (without_key k ps) name = (if name = n then remove1 d (pending_of ps name) else pending_of ps name)"
  using assms
proof (induction ps)
  case (Cons p ps)
  obtain k' n' d' where p: "p = (k', n', d')" by (cases p)
  have k': "k' = (wd_thread d', wd_turn d')" using Cons.prems(2) [of k' n' d'] p by simp
  show ?case
  proof (cases "k' = k")
    case True
    then have "map_of ps k = None" using Cons.prems(1) p by (auto simp: map_of_eq_None_iff)
    then have "without_key k (p # ps) = ps" using True p without_absent [of ps k] by (simp add: without_key_def)
    then show ?thesis using True p Cons.prems(3) by (auto simp: pending_of_def)
  next
    case False
    then have at: "map_of ps k = Some (n, d)" using Cons.prems(3) p by simp
    then have "k = (wd_thread d, wd_turn d)" using Cons.prems(2) [of k n d] map_of_SomeD [OF at] by simp
    then have "d' \<noteq> d" using False k' by auto
    moreover have "pending_of (without_key k ps) name = (if name = n then remove1 d (pending_of ps name) else pending_of ps name)"
      by (rule Cons.IH) (use Cons.prems at in auto)
    ultimately show ?thesis using False p by (auto simp: pending_of_def without_key_def)
  qed
qed simp

lemma take_delivery_record:
  "rh_pending (record_of (take_delivery k fo) m) =
     (case map_of (fo_pending fo) k of
        Some (name, d) \<Rightarrow> if m = name then remove1 d (rh_pending (record_of fo m)) else rh_pending (record_of fo m)
      | None \<Rightarrow> rh_pending (record_of fo m))"
  by (simp add: take_delivery_def split: option.split)

lemma records_pending: "rh_pending (record_of (folded es) name) = pending_of (waiting es) name"
proof (induction es rule: rev_induct)
  case Nil
  then show ?case
    by (simp add: record_of_def blank_folding_def dict_get_def blank_record_def pending_of_def waiting_def)
next
  case (snoc e es)
  have keys: "(k, n, d) \<in> set (waiting es) \<Longrightarrow> k = (wd_thread d, wd_turn d)" for k n d
    using waiting_entry(1) by blast
  show ?case
  proof (cases "ev_payload e")
    case (Turn_Started origin start)
    show ?thesis
    proof (cases origin)
      case (From_Routine o')
      then have "rh_pending (record_of (folded (es @ [e])) name) = pending_of (without_key (key_of e) (waiting es)) name"
        using Turn_Started snoc remove_pending [OF waiting_distinct keys, where k = "key_of e" and name = name]
        by (auto simp: fold_event_cases take_delivery_record pending_is_waiting without_absent split: option.split)
      then show ?thesis using Turn_Started From_Routine by (simp add: waiting_snoc arrival_of_def starts_def)
    qed (use Turn_Started snoc in \<open>simp_all add: fold_event_cases waiting_snoc arrival_of_def starts_def\<close>)
  next
    case (Signal_Received origin arrival)
    then show ?thesis
      using snoc
      by (auto simp: fold_event_cases waiting_snoc arrival_of_def pending_is_waiting pending_of_append Let_def)
        (auto simp: pending_of_def)
  next
    case (Failure_Handled n notice)
    then show ?thesis
      using snoc by (cases notice) (auto simp: fold_event_cases waiting_snoc arrival_of_def starts_def Let_def)
  qed (use snoc in \<open>auto simp: fold_event_cases waiting_snoc arrival_of_def starts_def\<close>)
qed

text \<open>Every routine with a delivery has a record.\<close>

lemma histories_distinct: "distinct (map fst (histories es))"
proof -
  have change: "distinct (map fst (fo_histories (change_record n f fo)))" if "distinct (map fst (fo_histories fo))" for n f fo
    using that by (simp add: change_record_def)
  have clean: "distinct (map fst (fo_histories (clean_slate n fo)))" if "distinct (map fst (fo_histories fo))" for n fo
    using change [OF that] by (simp add: clean_slate_def forget_failures_def)
  have run: "distinct (map fst (fo_histories (run_event n k e fo)))" if "distinct (map fst (fo_histories fo))" for n k e fo
    using that change clean by (simp add: run_event_def Let_def split: payload.split)
  have "distinct (map fst (fo_histories (fold_event oe fo)))" if "distinct (map fst (fo_histories fo))" for oe fo
    using that change clean run
    by (cases oe) (simp add: fold_event_cases at_run_def start_run_def take_delivery_def Let_def
        split: payload.split turn_origin.split option.split)
  then show ?thesis
    unfolding histories_def
    by (induction es rule: rev_induct) (simp_all add: blank_folding_def)
qed

lemma all_pending: "set (concat (map (\<lambda>(_, r). rh_pending r) (histories es))) = (\<lambda>(_, _, d). d) ` set (waiting es)"
proof -
  have at: "map_of (histories es) n = Some r \<longleftrightarrow> (n, r) \<in> set (histories es)" for n r
    using histories_distinct by (rule map_of_eq_Some_iff)
  have "d \<in> set (pending_of (waiting es) n)" if "(n, r) \<in> set (histories es)" "d \<in> set (rh_pending r)" for n r d
  proof -
    have "map_of (fo_histories (folded es)) n = Some r" using at that(1) by (simp add: histories_def)
    then show ?thesis using that(2) records_pending [of es n] by (simp add: record_of_def dict_get_def)
  qed
  moreover have "\<exists>r. (n, r) \<in> set (histories es) \<and> d \<in> set (rh_pending r)" if "(k, n, d) \<in> set (waiting es)" for k n d
  proof -
    have here: "d \<in> set (rh_pending (record_of (folded es) n))"
      unfolding records_pending using that by (force simp: pending_of_def)
    show ?thesis
    proof (cases "map_of (histories es) n")
      case None
      then show ?thesis using here by (simp add: record_of_def dict_get_def histories_def blank_record_def)
    next
      case (Some r)
      then have "d \<in> set (rh_pending r)" using here by (simp add: record_of_def dict_get_def histories_def)
      then show ?thesis using map_of_SomeD [OF Some] by blast
    qed
  qed
  ultimately show ?thesis by (force simp: pending_of_def)
qed

end
