(* ===== verification/Scheduler_Laws.thy ===== *)
theory Scheduler_Laws
  imports Scheduler Routine_Pending
begin

text \<open>
  What a pass of the scheduler promises: it starts the delivery that waits longest, the failure policy
  settles in one pass and turns a routine off only after ten failures in a row, and what is left when
  the process ends between two of its writes.
\<close>

section \<open>The oldest delivery\<close>

lemma first_least_None [simp]: "first_least key xs = None \<longleftrightarrow> xs = []"
  by (cases xs) (auto split: option.split)

lemma first_least_Some:
  "first_least key xs = Some x \<Longrightarrow> x \<in> set xs \<and> (\<forall>y \<in> set xs. key x \<le> key y)"
proof (induction xs arbitrary: x)
  case (Cons a xs)
  show ?case
  proof (cases "first_least key xs")
    case None
    then show ?thesis using Cons.prems by simp
  next
    case (Some y)
    then have "y \<in> set xs" "\<forall>z \<in> set xs. key y \<le> key z" using Cons.IH by auto
    then show ?thesis using Cons.prems Some by (auto split: if_splits)
  qed
qed simp

definition held_back :: "scheduler \<Rightarrow> waiting_delivery \<Rightarrow> bool" where
  "held_back s d \<longleftrightarrow>
     (\<exists>r \<in> set (sd_routines s). rt_name r = ro_name (wd_origin d) \<and> \<not> rt_enabled r) \<and> ro_trigger (wd_origin d) \<noteq> By_Hand"

lemma waiting_deliveries:
  "(\<lambda>(_, _, d). d) ` set (waiting es) = delivery_at es ` {i. i < length es \<and> waits es i}"
  by (force simp: waiting_def waiting_at_def)

lemma startable:
  "d \<in> set (deliveries_to_start s) \<longleftrightarrow>
     (\<exists>i < length (routine_events s). waits (routine_events s) i \<and> d = delivery_at (routine_events s) i) \<and>
     \<not> held_back s d"
proof -
  have "ro_name (wd_origin x) \<in> rt_name ` set (filter (\<lambda>r. \<not> rt_enabled r) (sd_routines s)) \<longleftrightarrow>
      (\<exists>r \<in> set (sd_routines s). rt_name r = ro_name (wd_origin x) \<and> \<not> rt_enabled r)" for x
    by force
  then show ?thesis
    unfolding deliveries_to_start_def Let_def set_filter all_pending waiting_deliveries
    by (auto simp: held_back_def)
qed

lemma delivery_at_order [simp]: "wd_order (delivery_at es i) = i"
  by (simp add: delivery_at_def)

lemma to_fire_oldest:
  assumes "to_fire now holding s = Start_Delivery d origin"
  shows "first_least wd_order (deliveries_to_start s) = Some d" and "ro_name origin = ro_name (wd_origin d)"
  using assms by (auto simp: to_fire_def Let_def split: if_splits option.splits prod.splits)

section \<open>What is appended\<close>

lemma routine_events_append:
  "routine_events (append_to now thread turn p s) =
     routine_events s @ (if routine_event p then [new_event now thread turn p (sd_log s)] else [])"
  by (simp add: routine_events_def append_to_def events_of_def appended_def Let_def new_event_def)

lemma new_event_fields [simp]:
  "key_of (new_event now thread turn p t) = (thread, turn)" "ev_payload (new_event now thread turn p t) = p"
  by (simp_all add: key_of_def new_event_def)

lemma append_to_frames [simp]:
  "sd_routines (append_to now thread turn p s) = sd_routines s" "sd_grants (append_to now thread turn p s) = sd_grants s"
  "sd_armed (append_to now thread turn p s) = sd_armed s" "sd_zone (append_to now thread turn p s) = sd_zone s"
  by (simp_all add: append_to_def)

abbreviation fold_of :: "scheduler \<Rightarrow> folding" where
  "fold_of s \<equiv> folded (routine_events s)"

lemma fold_of_reset: "fold_of (append_to now thread turn (Failures_Reset name) s) = clean_slate name (fold_of s)"
  by (simp add: routine_events_append fold_event_cases)

lemma fold_of_note: "fold_of (append_to now thread turn (Note_Raised n) s) = fold_of s"
  by (simp add: routine_events_append)

section \<open>Invariants of the failures\<close>

text \<open>A failure is kept under the key of the event that failed, and counts no more than its routine does.\<close>

definition failures_ok :: "folding \<Rightarrow> bool" where
  "failures_ok fo \<longleftrightarrow> (\<forall>(k, f) \<in> set (fo_failures fo).
     key_of (uf_event f) = k \<and> uf_count f \<le> rh_failures (record_of fo (uf_name f)))"

lemma failures_ok_clean: "failures_ok fo \<Longrightarrow> failures_ok (clean_slate name fo)"
  by (auto simp: failures_ok_def)

lemma failures_ok_same:
  assumes "failures_ok fo" and "fo_failures fo' = fo_failures fo"
    and "\<And>name. rh_failures (record_of fo' name) = rh_failures (record_of fo name)"
  shows "failures_ok fo'"
  using assms by (simp add: failures_ok_def)

lemma set_dict_set: "set (dict_set k v d) \<subseteq> insert (k, v) (set d)"
  by (induction d) (auto simp: dict_set_def)

lemma run_event_failures_ok:
  assumes "failures_ok fo"
  shows "failures_ok (run_event name (key_of e) e fo)"
proof (cases "ev_payload e")
  case (Turn_Failed reason code closing)
  let ?k = "key_of e"
  define failed where "failed = change_record name (\<lambda>r. r\<lparr>rh_failures := Suc (rh_failures r), rh_last_failure := Some reason\<rparr>)
    (change_run ?k (\<lambda>r. r\<lparr>rl_outcome := Run_Failed\<rparr>) fo)"
  let ?f = "\<lparr>uf_name = name, uf_event = e, uf_count = rh_failures (record_of failed name), uf_reason = reason\<rparr>"
  have more: "rh_failures (record_of fo n) \<le> rh_failures (record_of failed n)" for n
    by (simp add: failed_def)
  have entries: "(k, f) = (?k, ?f) \<or> (k, f) \<in> set (fo_failures fo)"
    if "(k, f) \<in> set (dict_set ?k ?f (fo_failures failed))" for k f
    using that set_dict_set [of ?k ?f "fo_failures failed"] by (auto simp: failed_def)
  have "failures_ok (failed\<lparr>fo_failures := dict_set ?k ?f (fo_failures failed)\<rparr>)"
    unfolding failures_ok_def
  proof (clarsimp)
    fix a b f
    assume "((a, b), f) \<in> set (dict_set ?k ?f (fo_failures failed))"
    from entries [OF this] show "key_of (uf_event f) = (a, b) \<and> uf_count f \<le> rh_failures (record_of failed (uf_name f))"
      using assms more le_trans unfolding failures_ok_def by fastforce
  qed
  then have "failures_ok (failed\<lparr>fo_failures := dict_set ?k ?f (fo_failures failed), fo_closed := c\<rparr>)" for c
    by (rule failures_ok_same) simp_all
  then show ?thesis using Turn_Failed by (simp add: run_event_def Let_def failed_def)
next
  case (Turn_Completed outcome closing)
  have "failures_ok (change_run k f fo)" for k f by (rule failures_ok_same [OF assms]) simp_all
  then have "failures_ok (clean_slate name (change_run k f fo))" "failures_ok (change_run k f fo)" for k f
    using failures_ok_clean by blast+
  moreover have "failures_ok (x\<lparr>fo_closed := c\<rparr>)" if "failures_ok x" for x c
    by (rule failures_ok_same [OF that]) simp_all
  ultimately show ?thesis using Turn_Completed by (simp add: run_event_def Let_def)
qed (auto simp: run_event_def Let_def intro: failures_ok_same [OF assms])

lemma fold_event_failures_ok:
  assumes "failures_ok fo"
  shows "failures_ok (fold_event (n, e) fo)"
proof -
  have "failures_ok (at_run e fo)"
    using assms run_event_failures_ok by (simp add: at_run_def split: option.split)
  moreover have "failures_ok (start_run name e (take_delivery k fo))" for name k
    by (rule failures_ok_same [OF assms]) (simp_all add: start_run_def take_delivery_def Let_def split: option.split)
  moreover have "failures_ok (clean_slate name fo)" for name using failures_ok_clean [OF assms] .
  ultimately show ?thesis
    by (auto simp: fold_event_cases Let_def split: payload.split turn_origin.split option.split
        intro!: failures_ok_same [OF assms])
qed

lemma folded_failures_ok: "failures_ok (folded es)"
proof (induction es rule: rev_induct)
  case (snoc e es)
  then show ?case by (simp add: fold_event_failures_ok)
qed (simp add: failures_ok_def blank_folding_def)

section \<open>Resetting\<close>

definition is_reset :: "routine list \<Rightarrow> folding \<Rightarrow> string \<Rightarrow> bool" where
  "is_reset rs fo name \<longleftrightarrow> (\<exists>r \<in> set rs. rt_name r = name \<and> rt_enabled r) \<and> rh_disabled (record_of fo name) \<noteq> None"

text \<open>The record of a routine after the resets, and the failures that are left.\<close>

lemma clean_slate_twice:
  "rh_failures (record_of (clean_slate n fo) m) = (if m = n then 0 else rh_failures (record_of fo m))"
  "rh_disabled (record_of (clean_slate n fo) m) = (if m = n then None else rh_disabled (record_of fo m))"
  by simp_all

lemma reset_failures_effect:
  fixes now rs s
  defines "s' \<equiv> reset_failures now rs s"
  shows "rh_disabled (record_of (fold_of s') name) =
      (if is_reset rs (fold_of s) name then None else rh_disabled (record_of (fold_of s) name))"
    and "rh_failures (record_of (fold_of s') name) =
      (if is_reset rs (fold_of s) name then 0 else rh_failures (record_of (fold_of s) name))"
    and "sd_routines s' = sd_routines s" and "sd_grants s' = sd_grants s"
proof -
  have *: "rh_disabled (record_of (fold_of t') name) =
        (if is_reset rs (fold_of s) name then None else rh_disabled (record_of (fold_of t) name)) \<and>
      rh_failures (record_of (fold_of t') name) =
        (if is_reset rs (fold_of s) name then 0 else rh_failures (record_of (fold_of t) name)) \<and>
      sd_routines t' = sd_routines t \<and> sd_grants t' = sd_grants t"
    if "t' = fold (\<lambda>r s'. case rh_disabled (record_of (fold_of s) (rt_name r)) of
         Some n \<Rightarrow> if rt_enabled r then append_to now (rn_thread n) (rn_turn n) (Failures_Reset (rt_name r)) s' else s'
       | None \<Rightarrow> s') rs t" for t t'
    using that
  proof (induction rs arbitrary: t)
    case Nil
    then show ?case by (simp add: is_reset_def)
  next
    case (Cons r rs)
    let ?t = "case rh_disabled (record_of (fold_of s) (rt_name r)) of
         Some n \<Rightarrow> if rt_enabled r then append_to now (rn_thread n) (rn_turn n) (Failures_Reset (rt_name r)) t else t
       | None \<Rightarrow> t"
    have "is_reset (r # rs) (fold_of s) name \<longleftrightarrow>
        (rt_name r = name \<and> rt_enabled r \<and> rh_disabled (record_of (fold_of s) name) \<noteq> None) \<or> is_reset rs (fold_of s) name"
      by (auto simp: is_reset_def)
    then show ?case
      using Cons.IH [of ?t] Cons.prems by (auto simp: fold_of_reset split: option.splits if_splits)
  qed
  note all = * [of s' s, unfolded s'_def reset_failures_def, OF refl]
  show "rh_disabled (record_of (fold_of s') name) =
      (if is_reset rs (fold_of s) name then None else rh_disabled (record_of (fold_of s) name))"
    "rh_failures (record_of (fold_of s') name) =
      (if is_reset rs (fold_of s) name then 0 else rh_failures (record_of (fold_of s) name))"
    "sd_routines s' = sd_routines s" "sd_grants s' = sd_grants s"
    using all unfolding s'_def reset_failures_def by blast+
qed

text \<open>Nothing to reset writes nothing.\<close>

lemma no_reset:
  assumes "\<And>r. r \<in> set rs \<Longrightarrow> rt_enabled r \<Longrightarrow> rh_disabled (record_of (fold_of s) (rt_name r)) = None"
  shows "reset_failures now rs s = s"
proof -
  have "fold (\<lambda>r s'. case rh_disabled (record_of (fold_of s) (rt_name r)) of
         Some n \<Rightarrow> if rt_enabled r then append_to now (rn_thread n) (rn_turn n) (Failures_Reset (rt_name r)) s' else s'
       | None \<Rightarrow> s') rs t = t" for t
    using assms by (induction rs) (auto split: option.split)
  then show ?thesis by (simp add: reset_failures_def)
qed

section \<open>The policy's writes\<close>

fun policy_write_ok :: "policy_write \<Rightarrow> bool" where
  "policy_write_ok (Record_Event _ _ (Failure_Handled _ _)) = True"
| "policy_write_ok (Record_Event _ _ (Note_Raised _)) = True"
| "policy_write_ok (Record_Event _ _ _) = False"
| "policy_write_ok _ = True"

definition tells_disabled :: "policy_write list \<Rightarrow> string \<Rightarrow> bool" where
  "tells_disabled ws name \<longleftrightarrow> (\<exists>thread turn n. Record_Event thread turn (Failure_Handled name (Some n)) \<in> set ws \<and>
     rn_kind n = Routine_Disabled)"

lemma fold_of_handled:
  fixes name notice s now thread turn
  defines "s' \<equiv> append_to now thread turn (Failure_Handled name notice) s"
  shows "fo_failures (fold_of s') = fo_failures (fold_of s)"
    and "set (fo_handled (fold_of s')) = insert (thread, turn) (set (fo_handled (fold_of s)))"
    and "rh_failures (record_of (fold_of s') m) = rh_failures (record_of (fold_of s) m)"
    and "rh_disabled (record_of (fold_of s') m) \<noteq> None \<Longrightarrow> rh_disabled (record_of (fold_of s) m) \<noteq> None \<or>
      m = name \<and> (\<exists>n. notice = Some n \<and> rn_kind n = Routine_Disabled)"
  unfolding s'_def
  by (auto simp: routine_events_append fold_event_cases Let_def split: option.splits if_splits)

definition handled_by :: "policy_write list \<Rightarrow> turn_key set" where
  "handled_by ws = {(thread, turn). \<exists>name notice. Record_Event thread turn (Failure_Handled name notice) \<in> set ws}"

definition turned_off :: "policy_write list \<Rightarrow> routine \<Rightarrow> routine" where
  "turned_off ws r = (if Turn_Off (rt_name r) \<in> set ws then r\<lparr>rt_enabled := False\<rparr> else r)"

lemma handled_by_Cons: "handled_by (w # ws) = handled_by [w] \<union> handled_by ws"
  by (auto simp: handled_by_def)

lemma tells_disabled_Cons: "tells_disabled (w # ws) m \<longleftrightarrow> tells_disabled [w] m \<or> tells_disabled ws m"
  by (auto simp: tells_disabled_def)

lemma turned_off_Cons: "turned_off (w # ws) r = turned_off ws (turned_off [w] r)"
  by (simp add: turned_off_def)

lemma write_effect:
  assumes "policy_write_ok w"
  shows "fo_failures (fold_of (do_write now w s)) = fo_failures (fold_of s)"
    and "set (fo_handled (fold_of (do_write now w s))) = set (fo_handled (fold_of s)) \<union> handled_by [w]"
    and "rh_disabled (record_of (fold_of (do_write now w s)) m) \<noteq> None \<Longrightarrow>
      rh_disabled (record_of (fold_of s) m) \<noteq> None \<or> tells_disabled [w] m"
    and "sd_routines (do_write now w s) = map (turned_off [w]) (sd_routines s)"
    and "rh_failures (record_of (fold_of (do_write now w s)) m) = rh_failures (record_of (fold_of s) m)"
proof -
  have plain: "fold_of (do_write now w s) = fold_of s \<and> handled_by [w] = {}" if "\<nexists>thread turn name notice. w = Record_Event thread turn (Failure_Handled name notice)"
    using that assms
    by (cases w rule: policy_write_ok.cases)
      (auto simp: do_write_def routine_events_def fold_of_note [unfolded routine_events_def] handled_by_def)
  have all: "fo_failures (fold_of (do_write now w s)) = fo_failures (fold_of s) \<and>
    set (fo_handled (fold_of (do_write now w s))) = set (fo_handled (fold_of s)) \<union> handled_by [w] \<and>
    (rh_disabled (record_of (fold_of (do_write now w s)) m) \<noteq> None \<longrightarrow>
      rh_disabled (record_of (fold_of s) m) \<noteq> None \<or> tells_disabled [w] m) \<and>
    rh_failures (record_of (fold_of (do_write now w s)) m) = rh_failures (record_of (fold_of s) m)"
  proof (cases "\<exists>thread turn name notice. w = Record_Event thread turn (Failure_Handled name notice)")
    case True
    then obtain thread turn name notice where w: "w = Record_Event thread turn (Failure_Handled name notice)" by blast
    have step: "do_write now w s = append_to now thread turn (Failure_Handled name notice) s" by (simp add: w do_write_def)
    have "handled_by [w] = {(thread, turn)}" by (auto simp: w handled_by_def)
    moreover have "tells_disabled [w] m \<longleftrightarrow> m = name \<and> (\<exists>n. notice = Some n \<and> rn_kind n = Routine_Disabled)"
      by (auto simp: w tells_disabled_def)
    ultimately show ?thesis
      unfolding step using fold_of_handled [of now thread turn name notice s] fold_of_handled(4) [of now thread turn name notice s m]
      by auto
  next
    case False
    then show ?thesis using plain by simp
  qed
  then show "fo_failures (fold_of (do_write now w s)) = fo_failures (fold_of s)"
    "set (fo_handled (fold_of (do_write now w s))) = set (fo_handled (fold_of s)) \<union> handled_by [w]"
    "rh_disabled (record_of (fold_of (do_write now w s)) m) \<noteq> None \<Longrightarrow>
      rh_disabled (record_of (fold_of s) m) \<noteq> None \<or> tells_disabled [w] m"
    "rh_failures (record_of (fold_of (do_write now w s)) m) = rh_failures (record_of (fold_of s) m)"
    by blast+
  show "sd_routines (do_write now w s) = map (turned_off [w]) (sd_routines s)"
  proof -
    have "turned_off [Clear_Grants n] = id" "turned_off [Record_Event thread turn p] = id" for n thread turn p
      by (simp_all add: fun_eq_iff turned_off_def)
    then show ?thesis by (cases w) (simp_all add: do_write_def turned_off_def)
  qed
qed

lemma writes_effect:
  assumes "list_all policy_write_ok ws"
  shows "fo_failures (fold_of (fold (do_write now) ws s)) = fo_failures (fold_of s)"
    and "set (fo_handled (fold_of (fold (do_write now) ws s))) = set (fo_handled (fold_of s)) \<union> handled_by ws"
    and "rh_disabled (record_of (fold_of (fold (do_write now) ws s)) m) \<noteq> None \<Longrightarrow>
      rh_disabled (record_of (fold_of s) m) \<noteq> None \<or> tells_disabled ws m"
    and "sd_routines (fold (do_write now) ws s) = map (turned_off ws) (sd_routines s)"
    and "rh_failures (record_of (fold_of (fold (do_write now) ws s)) m) = rh_failures (record_of (fold_of s) m)"
proof -
  show "rh_failures (record_of (fold_of (fold (do_write now) ws s)) m) = rh_failures (record_of (fold_of s) m)"
    using assms by (induction ws arbitrary: s) (simp_all add: write_effect)
  show "fo_failures (fold_of (fold (do_write now) ws s)) = fo_failures (fold_of s)"
    using assms by (induction ws arbitrary: s) (simp_all add: write_effect)
  show "set (fo_handled (fold_of (fold (do_write now) ws s))) = set (fo_handled (fold_of s)) \<union> handled_by ws"
    using assms
  proof (induction ws arbitrary: s)
    case (Cons w ws)
    then show ?case using handled_by_Cons [of w ws] by (simp add: write_effect Un_assoc)
  qed (simp add: handled_by_def)
  show "rh_disabled (record_of (fold_of s) m) \<noteq> None \<or> tells_disabled ws m"
    if "rh_disabled (record_of (fold_of (fold (do_write now) ws s)) m) \<noteq> None"
    using assms that
  proof (induction ws arbitrary: s)
    case (Cons w ws)
    then show ?case
      using Cons.IH [of "do_write now w s"] write_effect(3) [of w now s m] tells_disabled_Cons [of w ws m] by auto
  qed simp
  show "sd_routines (fold (do_write now) ws s) = map (turned_off ws) (sd_routines s)"
    using assms
  proof (induction ws arbitrary: s)
    case Nil
    then show ?case by (simp add: turned_off_def)
  next
    case (Cons w ws)
    have "turned_off ws \<circ> turned_off [w] = turned_off (w # ws)" by (simp add: fun_eq_iff turned_off_Cons [of w ws])
    then show ?case using Cons by (simp add: write_effect(4))
  qed
qed

section \<open>What the policy writes\<close>

lemma failure_writes_ok:
  assumes "failure_writes se rs known f = (ws, known')"
  shows "list_all policy_write_ok ws" and "key_of (uf_event f) \<in> handled_by ws"
    and "tells_disabled ws name \<Longrightarrow> Turn_Off name \<in> set ws"
    and "Turn_Off name \<in> set ws \<Longrightarrow> name = uf_name f \<and> DISABLE_AFTER \<le> uf_count f"
  using assms
  by (auto simp: failure_writes_def Let_def policy_note_def failure_notice_def handled_by_def key_of_def tells_disabled_def
      split: if_splits)

lemma all_writes_ok:
  "list_all policy_write_ok (all_writes se rs known fs)"
  "f \<in> set fs \<Longrightarrow> key_of (uf_event f) \<in> handled_by (all_writes se rs known fs)"
  "tells_disabled (all_writes se rs known fs) name \<Longrightarrow> Turn_Off name \<in> set (all_writes se rs known fs)"
  "Turn_Off name \<in> set (all_writes se rs known fs) \<Longrightarrow> \<exists>f \<in> set fs. name = uf_name f \<and> DISABLE_AFTER \<le> uf_count f"
proof -
  have handled: "handled_by (ws @ ws') = handled_by ws \<union> handled_by ws'" for ws ws' by (auto simp: handled_by_def)
  have tells: "tells_disabled (ws @ ws') n \<longleftrightarrow> tells_disabled ws n \<or> tells_disabled ws' n" for ws ws' n
    by (auto simp: tells_disabled_def)
  have "list_all policy_write_ok (all_writes se rs known fs) \<and>
    (\<forall>f \<in> set fs. key_of (uf_event f) \<in> handled_by (all_writes se rs known fs)) \<and>
    (tells_disabled (all_writes se rs known fs) name \<longrightarrow> Turn_Off name \<in> set (all_writes se rs known fs)) \<and>
    (Turn_Off name \<in> set (all_writes se rs known fs) \<longrightarrow> (\<exists>f \<in> set fs. name = uf_name f \<and> DISABLE_AFTER \<le> uf_count f))"
  proof (induction fs arbitrary: known)
    case Nil
    then show ?case by (simp add: tells_disabled_def)
  next
    case (Cons f fs)
    obtain ws known' where ws: "failure_writes se rs known f = (ws, known')" by (cases "failure_writes se rs known f")
    show ?case
      using Cons [of known'] failure_writes_ok [OF ws] ws by (auto simp: handled tells)
  qed
  then show "list_all policy_write_ok (all_writes se rs known fs)"
    "f \<in> set fs \<Longrightarrow> key_of (uf_event f) \<in> handled_by (all_writes se rs known fs)"
    "tells_disabled (all_writes se rs known fs) name \<Longrightarrow> Turn_Off name \<in> set (all_writes se rs known fs)"
    "Turn_Off name \<in> set (all_writes se rs known fs) \<Longrightarrow> \<exists>f \<in> set fs. name = uf_name f \<and> DISABLE_AFTER \<le> uf_count f"
    by blast+
qed

lemma unhandled_entry: "f \<in> set (unhandled es) \<longleftrightarrow> (\<exists>k. (k, f) \<in> set (fo_failures (folded es)) \<and> k \<notin> set (fo_handled (folded es)))"
  by (force simp: unhandled_def)

text \<open>A pass of the policy, after its resets.\<close>

lemma policy_pass:
  fixes se now s
  defines "ws \<equiv> policy_writes se s" and "s' \<equiv> fold (do_write now) (policy_writes se s) s"
  shows "unhandled (routine_events s') = []"
    and "rh_disabled (record_of (fold_of s') name) \<noteq> None \<Longrightarrow>
      rh_disabled (record_of (fold_of s) name) \<noteq> None \<or> Turn_Off name \<in> set ws"
    and "sd_routines s' = map (turned_off ws) (sd_routines s)"
    and "Turn_Off name \<in> set ws \<Longrightarrow> DISABLE_AFTER \<le> rh_failures (record_of (fold_of s) name)"
proof -
  have ok: "list_all policy_write_ok ws" unfolding ws_def policy_writes_def by (rule all_writes_ok(1))
  note effect = writes_effect [OF ok, of now s]
  have none: "f \<notin> set (unhandled (routine_events s'))" for f
  proof
    assume "f \<in> set (unhandled (routine_events s'))"
    then obtain k where k: "(k, f) \<in> set (fo_failures (fold_of s))" "k \<notin> set (fo_handled (fold_of s)) \<union> handled_by ws"
      using effect(1,2) unfolding unhandled_entry s'_def ws_def by auto
    then have "f \<in> set (unhandled (routine_events s))" unfolding unhandled_entry by blast
    then have "key_of (uf_event f) \<in> handled_by ws"
      unfolding ws_def policy_writes_def by (rule all_writes_ok(2))
    moreover have "key_of (uf_event f) = k" using folded_failures_ok [of "routine_events s"] k(1) by (auto simp: failures_ok_def)
    ultimately show False using k(2) by blast
  qed
  then show "unhandled (routine_events s') = []" by (metis last_in_set)
  show "rh_disabled (record_of (fold_of s) name) \<noteq> None \<or> Turn_Off name \<in> set ws"
    if "rh_disabled (record_of (fold_of s') name) \<noteq> None"
    using writes_effect(3) [OF ok, of now s name] that all_writes_ok(3) unfolding s'_def ws_def policy_writes_def by blast
  show "sd_routines s' = map (turned_off ws) (sd_routines s)" using effect(4) unfolding s'_def ws_def .
  show "DISABLE_AFTER \<le> rh_failures (record_of (fold_of s) name)" if off: "Turn_Off name \<in> set ws"
  proof -
    obtain f where f: "f \<in> set (unhandled (routine_events s))" "name = uf_name f" "DISABLE_AFTER \<le> uf_count f"
      using off all_writes_ok(4) unfolding ws_def policy_writes_def by blast
    then obtain k where "(k, f) \<in> set (fo_failures (fold_of s))" unfolding unhandled_entry by blast
    then have "uf_count f \<le> rh_failures (record_of (fold_of s) name)"
      using folded_failures_ok [of "routine_events s"] f(2) by (auto simp: failures_ok_def)
    then show ?thesis using f(3) by linarith
  qed
qed

lemma all_failures_handled: "unhandled (routine_events (handle_failures se now s)) = []"
  unfolding handle_failures_def Let_def by (rule policy_pass(1))

section \<open>Properties\<close>

text \<open>C16: The failures in a row the fold gives for a routine are the failed runs of it after which no run
  of it did work and nothing reset it, however the runs of routines overlap.\<close>

theorem failures_in_a_row:
  "rh_failures (record_of (folded es) name) = streak es name"
  by (rule failures_are_streak)

text \<open>C17: One pass of the failure policy handles every failure, and another pass right after it changes
  nothing.\<close>

theorem policy_settles:
  "unhandled (routine_events (handle_failures se now s)) = [] \<and>
   handle_failures se later (handle_failures se now s) = handle_failures se now s"
proof
  let ?s1 = "reset_failures now (sd_routines s) s"
  let ?s2 = "handle_failures se now s"
  let ?ws = "policy_writes se ?s1"
  have s2: "?s2 = fold (do_write now) ?ws ?s1" by (simp add: handle_failures_def Let_def)
  show settled_now: "unhandled (routine_events ?s2) = []" by (rule all_failures_handled)
  have "rh_disabled (record_of (fold_of ?s2) (rt_name r)) = None" if r: "r \<in> set (sd_routines ?s2)" "rt_enabled r" for r
  proof (rule ccontr)
    assume told: "rh_disabled (record_of (fold_of ?s2) (rt_name r)) \<noteq> None"
    obtain r0 where r0: "r0 \<in> set (sd_routines s)" "r = turned_off ?ws r0"
      using r(1) policy_pass(3) [where se = se and now = now and s = ?s1] reset_failures_effect(3) unfolding s2 by auto
    then have on: "rt_enabled r0" "Turn_Off (rt_name r0) \<notin> set ?ws" "rt_name r = rt_name r0"
      using r(2) by (auto simp: turned_off_def split: if_splits)
    then have "rh_disabled (record_of (fold_of ?s1) (rt_name r0)) \<noteq> None"
      using policy_pass(2) [where se = se and now = now and s = ?s1 and name = "rt_name r0"] told unfolding s2 by auto
    then show False
      using reset_failures_effect(1) [of now "sd_routines s" s "rt_name r0"] r0(1) on(1)
      by (auto simp: is_reset_def split: if_splits)
  qed
  then have quiet: "reset_failures later (sd_routines ?s2) ?s2 = ?s2" by (rule no_reset)
  have "policy_writes se ?s2 = []" by (simp add: policy_writes_def settled_now)
  then show "handle_failures se later ?s2 = ?s2" using quiet by (simp add: handle_failures_def [of se later ?s2] Let_def)
qed

text \<open>C18: The failure policy turns a routine off only when at least ten of its runs failed since one last
  did work or something reset it.\<close>

theorem turned_off_after_ten:
  assumes "r \<in> set (sd_routines (handle_failures se now s))" and "\<not> rt_enabled r"
    and "\<And>r0. r0 \<in> set (sd_routines s) \<Longrightarrow> rt_name r0 = rt_name r \<Longrightarrow> rt_enabled r0"
  shows "10 \<le> streak (routine_events s) (rt_name r)"
proof -
  let ?s1 = "reset_failures now (sd_routines s) s"
  let ?ws = "policy_writes se ?s1"
  have s2: "handle_failures se now s = fold (do_write now) ?ws ?s1" by (simp add: handle_failures_def Let_def)
  obtain r0 where r0: "r0 \<in> set (sd_routines s)" "r = turned_off ?ws r0"
    using assms(1) policy_pass(3) [where se = se and now = now and s = ?s1] reset_failures_effect(3) unfolding s2 by auto
  then have "rt_enabled r0" using assms(3) by (simp add: turned_off_def)
  then have "Turn_Off (rt_name r) \<in> set ?ws" using assms(2) r0(2) by (auto simp: turned_off_def split: if_splits)
  then have "DISABLE_AFTER \<le> rh_failures (record_of (fold_of ?s1) (rt_name r))" by (rule policy_pass(4))
  also have "\<dots> \<le> rh_failures (record_of (fold_of s) (rt_name r))"
    using reset_failures_effect(2) [of now "sd_routines s" s "rt_name r"] by (auto split: if_splits)
  finally show ?thesis by (simp add: failures_are_streak DISABLE_AFTER_def)
qed

text \<open>C15: The delivery a pass starts is one whose arrival no start of its turn has followed, and no
  other that may start arrived before it, so deliveries start their turns in order and not twice.\<close>

theorem oldest_delivery_first:
  assumes "to_fire now holding s = Start_Delivery d origin"
  shows "waits (routine_events s) (wd_order d) \<and> d = delivery_at (routine_events s) (wd_order d) \<and>
    (\<forall>i < wd_order d. waits (routine_events s) i \<longrightarrow> held_back s (delivery_at (routine_events s) i))"
proof -
  let ?es = "routine_events s"
  have least: "d \<in> set (deliveries_to_start s)" "\<And>x. x \<in> set (deliveries_to_start s) \<Longrightarrow> wd_order d \<le> wd_order x"
    using first_least_Some [OF to_fire_oldest(1) [OF assms]] by blast+
  then obtain j where j: "j < length ?es" "waits ?es j" "d = delivery_at ?es j" using startable by blast
  have "held_back s (delivery_at ?es i)" if "i < wd_order d" "waits ?es i" for i
  proof (rule ccontr)
    assume "\<not> held_back s (delivery_at ?es i)"
    moreover have "i < length ?es" using that(1) j by simp
    ultimately have "delivery_at ?es i \<in> set (deliveries_to_start s)" using startable that(2) by blast
    then show False using least(2) [of "delivery_at ?es i"] that(1) by simp
  qed
  then show ?thesis using j by simp
qed

section \<open>An instance with one routine\<close>

definition sample_scheduler_env :: scheduler_env where
  "sample_scheduler_env = \<lparr>se_next = (\<lambda>_ _ t. t + DAY), se_minute = (\<lambda>_ _. ''now''), se_raises = True\<rparr>"

definition sample_routine :: routine where
  "sample_routine = \<lparr>rt_name = ''digest'', rt_prompt = ''Read.'', rt_schedule = None, rt_enabled = True,
     rt_catch_up = True, rt_dreaming = False\<rparr>"

definition sample_scheduler :: scheduler where
  "sample_scheduler = new_scheduler sample_scheduler_env 0 no_events [sample_routine] [] ''UTC''"

definition sample_start :: turn_start where
  "sample_start = \<lparr>ts_message = ''Read.'', ts_mode = Auto, ts_snapshot = None\<rparr>"

definition sample_end :: turn_end where
  "sample_end = \<lparr>te_tokens = \<lparr>tt_input = 0, tt_output = 0, tt_cache_read = 0, tt_cache_creation = 0\<rparr>, te_snapshot = None\<rparr>"

definition fail_once :: "nat \<Rightarrow> scheduler \<Rightarrow> scheduler" where
  "fail_once i s = append_to 10 i i (Turn_Failed ''No network.'' ''INTERNAL'' sample_end)
     (append_to 10 i i (Turn_Started (From_Routine \<lparr>ro_name = ''digest'', ro_trigger = By_Schedule,
        ro_delivery = None, ro_dreaming = False\<rparr>) sample_start) s)"

definition turn_on :: "scheduler \<Rightarrow> scheduler" where
  "turn_on s = s\<lparr>sd_routines := map (\<lambda>r. r\<lparr>rt_enabled := True\<rparr>) (sd_routines s)\<rparr>"

text \<open>Nine failures were handled, and the tenth is not yet.\<close>

definition tenth_failure :: scheduler where
  "tenth_failure = fail_once 10
     (fold (\<lambda>i s. append_to 15 i i (Failure_Handled ''digest'' None) (fail_once i s)) [1..<10] sample_scheduler)"

lemma fail_once_routines [simp]: "sd_routines (fail_once i s) = sd_routines s"
  by (simp add: fail_once_def)

lemma tenth_failure_routines: "sd_routines tenth_failure = [sample_routine]"
proof -
  have "sd_routines (fold (\<lambda>i s. append_to 15 i i (Failure_Handled ''digest'' None) (fail_once i s)) ns s) = sd_routines s" for ns s
    by (induction ns arbitrary: s) simp_all
  moreover have "sd_routines sample_scheduler = [sample_routine]" by (simp add: sample_scheduler_def new_scheduler_def Let_def)
  ultimately show ?thesis unfolding tenth_failure_def by (simp only: fail_once_routines)
qed

lemma tenth_failure_unhandled:
  "map (\<lambda>f. (uf_name f, uf_count f)) (unhandled (routine_events tenth_failure)) = [(''digest'', 10)]"
  by code_simp

lemma tenth_failure_untold: "rh_disabled (record_of (fold_of tenth_failure) ''digest'') = None"
  by code_simp

lemma sample_turned_off:
  "sd_routines (handle_failures se now tenth_failure) = [sample_routine\<lparr>rt_enabled := False\<rparr>]"
proof -
  obtain f where f: "unhandled (routine_events tenth_failure) = [f]" "uf_name f = ''digest''" "uf_count f = 10"
    using tenth_failure_unhandled by (auto simp: map_eq_Cons_conv)
  have "reset_failures now [sample_routine] tenth_failure = tenth_failure"
    using tenth_failure_untold by (intro no_reset) (simp add: sample_routine_def)
  moreover have "Turn_Off ''digest'' \<in> set (policy_writes se tenth_failure)"
    by (simp add: policy_writes_def f tenth_failure_routines failure_writes_def Let_def DISABLE_AFTER_def sample_routine_def)
  ultimately show ?thesis
    using policy_pass(3) [where se = se and now = now and s = tenth_failure]
    by (simp add: handle_failures_def tenth_failure_routines turned_off_def) (simp add: sample_routine_def)
qed

theorem turned_off_after_ten_witness: "10 \<le> streak (routine_events tenth_failure) ''digest''"
proof -
  let ?r = "sample_routine\<lparr>rt_enabled := False\<rparr>"
  have "10 \<le> streak (routine_events tenth_failure) (rt_name ?r)"
  proof (rule turned_off_after_ten)
    show "?r \<in> set (sd_routines (handle_failures sample_scheduler_env 30 tenth_failure))"
      unfolding sample_turned_off by simp
    show "\<not> rt_enabled ?r" by simp
    show "rt_enabled r0" if "r0 \<in> set (sd_routines tenth_failure)" for r0
      using that unfolding tenth_failure_routines by (simp add: sample_routine_def)
  qed
  then show ?thesis by (simp add: sample_routine_def)
qed

definition sample_arrival :: "string \<Rightarrow> delivery_arrival" where
  "sample_arrival i = \<lparr>da_id = Some i, da_content_type = ''text/plain'', da_size = 2, da_sha256 = [], da_headers = [],
     da_action = None, da_received = 5\<rparr>"

definition two_deliveries :: scheduler where
  "two_deliveries =
     snd (receive 6 2 2 ''digest'' (sample_arrival ''b'') ''hi'' By_Signal
       (snd (receive 5 1 1 ''digest'' (sample_arrival ''a'') ''hi'' By_Signal sample_scheduler)))"

lemma sample_fires:
  "\<exists>d origin. to_fire 7 False two_deliveries = Start_Delivery d origin \<and> wd_order d = 0"
proof -
  have "(case to_fire 7 False two_deliveries of Start_Delivery d _ \<Rightarrow> wd_order d = 0 | _ \<Rightarrow> False)" by code_simp
  then show ?thesis by (auto split: firing.splits)
qed

theorem oldest_delivery_first_witness: "waits (routine_events two_deliveries) 0"
proof -
  obtain d origin where "to_fire 7 False two_deliveries = Start_Delivery d origin" "wd_order d = 0"
    using sample_fires by blast
  then show ?thesis using oldest_delivery_first [of 7 False two_deliveries d origin] by simp
qed

section \<open>A pass that is cut short\<close>

lemma fold_of_turn_on [simp]: "fold_of (turn_on s) = fold_of s" "routine_events (turn_on s) = routine_events s"
  by (simp_all add: turn_on_def routine_events_def)

lemma fold_of_turn_off [simp]:
  "fold_of (do_write now (Turn_Off name) s) = fold_of s" "routine_events (do_write now (Turn_Off name) s) = routine_events s"
  by (simp_all add: do_write_def routine_events_def)

lemma handled_silently:
  "rh_failures (record_of (fold_of (append_to now thread turn (Failure_Handled name None) s)) m) = rh_failures (record_of (fold_of s) m)"
  "rh_notices (record_of (fold_of (append_to now thread turn (Failure_Handled name None) s)) m) = rh_notices (record_of (fold_of s) m)"
  "rh_disabled (record_of (fold_of (append_to now thread turn (Failure_Handled name None) s)) m) = rh_disabled (record_of (fold_of s) m)"
  by (simp_all add: routine_events_append fold_event_cases Let_def)

lemma told_disabled:
  assumes "(thread, turn) \<notin> set (fo_handled (fold_of s))" and "rn_kind n = Routine_Disabled"
  shows "rh_disabled (record_of (fold_of (append_to now thread turn (Failure_Handled name (Some n)) s)) name) = Some n"
  using assms by (simp add: routine_events_append fold_event_cases Let_def)

text \<open>The pass after the process ended between the two writes, and the user's turning on after it.\<close>

lemma torn_pass:
  assumes "sd_routines s = [r]" and "rt_enabled r" and "unhandled (routine_events s) = [f]"
    and "uf_name f = rt_name r" and "10 \<le> uf_count f" and "rh_disabled (record_of (fold_of s) (rt_name r)) = None"
    and torn_def: "torn = handle_failures se later (do_write now (Turn_Off (rt_name r)) s)"
  shows "rh_notices (record_of (fold_of torn) (rt_name r)) = rh_notices (record_of (fold_of s) (rt_name r))"
    and "rh_failures (record_of (fold_of torn) (rt_name r)) = rh_failures (record_of (fold_of s) (rt_name r))"
    and "handle_failures se again (turn_on torn) = turn_on torn"
proof -
  let ?n = "rt_name r" and ?off = "r\<lparr>rt_enabled := False\<rparr>" and ?k = "(ev_thread (uf_event f), ev_turn (uf_event f))"
  let ?off_s = "do_write now (Turn_Off ?n) s"
  have off: "sd_routines ?off_s = [?off]" using assms(1) by (simp add: do_write_def)
  have quiet: "reset_failures later [?off] ?off_s = ?off_s" by (rule no_reset) simp
  have "policy_writes se ?off_s = [Record_Event (fst ?k) (snd ?k) (Failure_Handled ?n None)]"
    using assms(3-5) off by (simp add: policy_writes_def failure_writes_def Let_def)
  then have torn: "torn = append_to later (fst ?k) (snd ?k) (Failure_Handled ?n None) ?off_s"
    using off quiet by (simp add: torn_def handle_failures_def Let_def) (simp add: do_write_def)
  show "rh_notices (record_of (fold_of torn) ?n) = rh_notices (record_of (fold_of s) ?n)"
    "rh_failures (record_of (fold_of torn) ?n) = rh_failures (record_of (fold_of s) ?n)"
    unfolding torn by (simp_all add: handled_silently)
  have untold: "rh_disabled (record_of (fold_of torn) ?n) = None" unfolding torn by (simp add: handled_silently assms(6))
  have rt: "map rt_name (sd_routines (turn_on torn)) = [?n]" using off by (simp add: torn turn_on_def)
  have "policy_writes se (turn_on torn) = []"
    using all_failures_handled [of se later ?off_s] by (simp add: policy_writes_def torn_def)
  moreover have "reset_failures again (sd_routines (turn_on torn)) (turn_on torn) = turn_on torn"
  proof (rule no_reset)
    fix x assume "x \<in> set (sd_routines (turn_on torn))"
    then have "rt_name x = ?n" using rt by (metis image_eqI list.set_map list.simps(15) list.set(1) singletonD)
    then show "rh_disabled (record_of (fold_of (turn_on torn)) (rt_name x)) = None" using untold by simp
  qed
  ultimately show "handle_failures se again (turn_on torn) = turn_on torn" by (simp add: handle_failures_def Let_def)
qed

text \<open>The pass that was not cut short, and the user's turning on after it.\<close>

lemma whole_pass:
  assumes "sd_routines s = [r]" and "rt_enabled r" and "unhandled (routine_events s) = [f]"
    and "uf_name f = rt_name r" and "10 \<le> uf_count f" and "rh_disabled (record_of (fold_of s) (rt_name r)) = None"
  shows "\<exists>ws. policy_writes se s = Turn_Off (rt_name r) # ws"
    and "rh_failures (record_of (fold_of (handle_failures se again (turn_on (handle_failures se later s)))) (rt_name r)) = 0"
proof -
  let ?n = "rt_name r" and ?off = "r\<lparr>rt_enabled := False\<rparr>" and ?k = "(ev_thread (uf_event f), ev_turn (uf_event f))"
  let ?s1 = "handle_failures se later s"
  define notice where "notice = failure_notice Routine_Disabled
    (''Routine \"'' @ ?n @ ''\" disabled after '' @ str_nat (uf_count f) @ '' failed firings: '' @ uf_reason f) f"
  define start where "start = do_write later (Clear_Grants ?n) (do_write later (Turn_Off ?n) s)"
  define told where "told = append_to later (fst ?k) (snd ?k) (Failure_Handled ?n (Some notice)) start"
  have start: "fold_of start = fold_of s" "sd_routines start = [?off]"
    using assms(1) by (simp_all add: start_def do_write_def routine_events_def)
  have "reset_failures later [r] s = s" by (rule no_reset) (use assms(6) in simp)
  moreover obtain rest where writes: "policy_writes se s =
      [Turn_Off ?n, Clear_Grants ?n, Record_Event (fst ?k) (snd ?k) (Failure_Handled ?n (Some notice))] @ rest"
    and rest: "rest = [] \<or> (\<exists>x. rest = [Record_Event (fst ?k) (snd ?k) (Note_Raised x)])"
    using assms(1-5) by (auto simp: policy_writes_def failure_writes_def Let_def DISABLE_AFTER_def notice_def policy_note_def)
  ultimately have s1: "?s1 = fold (do_write later) rest told"
    using assms(1) by (simp add: handle_failures_def Let_def told_def start_def) (simp add: do_write_def)
  have after: "fold_of ?s1 = fold_of told" "sd_routines ?s1 = [?off]"
    using rest start(2) unfolding s1 by (auto simp: do_write_def fold_of_note told_def)
  have "key_of (uf_event f) \<notin> set (fo_handled (fold_of s))"
  proof -
    have "f \<in> set (unhandled (routine_events s))" using assms(3) by simp
    then obtain k where "(k, f) \<in> set (fo_failures (fold_of s))" "k \<notin> set (fo_handled (fold_of s))"
      unfolding unhandled_entry by blast
    then show ?thesis using folded_failures_ok [of "routine_events s"] by (auto simp: failures_ok_def)
  qed
  then have "rh_disabled (record_of (fold_of told) ?n) = Some notice"
    unfolding told_def by (intro told_disabled) (simp_all add: start key_of_def notice_def failure_notice_def)
  then have known: "rh_disabled (record_of (fold_of (turn_on ?s1)) ?n) = Some notice" using after(1) by simp
  have "sd_routines (turn_on ?s1) = [r]" using after(2) assms(2) by (simp add: turn_on_def)
  then have "is_reset (sd_routines (turn_on ?s1)) (fold_of (turn_on ?s1)) ?n"
    using known assms(2) by (simp add: is_reset_def)
  then have "rh_failures (record_of (fold_of (reset_failures again (sd_routines (turn_on ?s1)) (turn_on ?s1))) ?n) = 0"
    using reset_failures_effect(2) [of again "sd_routines (turn_on ?s1)" "turn_on ?s1" ?n] by simp
  moreover have "rh_failures (record_of (fold_of (handle_failures se again x)) ?n) =
      rh_failures (record_of (fold_of (reset_failures again (sd_routines x) x)) ?n)" for x
    unfolding handle_failures_def Let_def policy_writes_def by (rule writes_effect(5) [OF all_writes_ok(1)])
  ultimately show "rh_failures (record_of (fold_of (handle_failures se again (turn_on ?s1))) ?n) = 0" by simp
  show "\<exists>ws. policy_writes se s = Turn_Off ?n # ws" using writes by simp
qed

text \<open>C40: When the process ends between turning a routine off and recording that, the next pass handles the
  failure without a notice, and the user who turns the routine on again does not start its failures over,
  as they do when the process did not end: its next failure turns it off at once.\<close>

theorem torn_disable_is_never_told:
  assumes "sd_routines s = [r]" and "rt_enabled r" and "unhandled (routine_events s) = [f]"
    and "uf_name f = rt_name r" and "10 \<le> uf_count f" and "rh_disabled (record_of (fold_of s) (rt_name r)) = None"
  shows "(\<exists>ws. policy_writes se s = Turn_Off (rt_name r) # ws) \<and>
    rh_notices (record_of (fold_of (handle_failures se later (do_write now (Turn_Off (rt_name r)) s))) (rt_name r)) =
      rh_notices (record_of (fold_of s) (rt_name r)) \<and>
    rh_failures (record_of (fold_of (handle_failures se again (turn_on
      (handle_failures se later (do_write now (Turn_Off (rt_name r)) s))))) (rt_name r)) =
      rh_failures (record_of (fold_of s) (rt_name r)) \<and>
    rh_failures (record_of (fold_of (handle_failures se again (turn_on (handle_failures se later s)))) (rt_name r)) = 0"
  using torn_pass [OF assms refl] whole_pass [OF assms] by simp

theorem torn_disable_is_never_told_witness:
  "rh_failures (record_of (fold_of (handle_failures sample_scheduler_env 60 (turn_on (handle_failures sample_scheduler_env 50
      (do_write 40 (Turn_Off ''digest'') tenth_failure))))) ''digest'') =
    rh_failures (record_of (fold_of tenth_failure) ''digest'') \<and>
   rh_failures (record_of (fold_of (handle_failures sample_scheduler_env 60 (turn_on
      (handle_failures sample_scheduler_env 50 tenth_failure)))) ''digest'') = 0"
proof -
  obtain f where f: "unhandled (routine_events tenth_failure) = [f]" "uf_name f = ''digest''" "uf_count f = 10"
    using tenth_failure_unhandled by (auto simp: map_eq_Cons_conv)
  have name: "rt_name sample_routine = ''digest''" "rt_enabled sample_routine" by (simp_all add: sample_routine_def)
  show ?thesis
    using torn_disable_is_never_told [OF tenth_failure_routines name(2) f(1), of sample_scheduler_env 50 40 60]
      f tenth_failure_untold unfolding name(1) by simp
qed

end
