(* ===== verification/Spec2Isabelle.thy ===== *)
theory Spec2Isabelle
  imports Run_Rules_Laws Run_Tables_Laws Run_Promises Run_Gaps Replies Setup_Values Gate_Laws Shell_Reads_Laws
    Mail_Claims Channels_Laws Transcript_Laws Scheduler_Laws
begin

text \<open>
  \<^bold>\<open>kinby, its hub and its instances.\<close> kinby runs agents as instances under one hub. This library models
  five parts of it and proves what they promise. Paths are under src/src/kinby/.

  \<^item> \<^bold>\<open>Factory runs\<close> (hub/runs.py, factories/, hub/registry.py). A factory is a line of steps, each done by
    an instance in a role. The runs engine takes a work item in, queues each step at its instance, settles
    what comes back (on, back, again, parked, or to a human) and records all of it in the registry.
  \<^item> \<^bold>\<open>The mail\<close> (hub/outbox.py, hub/replies.py, hub/channels.py). Instances and the hub raise notifications;
    the outbox delivers each to every channel that sends, and the user's replies go back to where they belong.
  \<^item> \<^bold>\<open>The permission gate\<close> (core/gate.py, core/shell_reads.py, instance/permissions.py). It says whether a
    tool call runs, asks or is denied, and which shell commands only read.
  \<^item> \<^bold>\<open>Routines\<close> (core/events.py, core/routine_history.py, core/scheduler.py, plugins/notify.py). An instance
    keeps its events; what its routines did is a fold of them, and the scheduler fires what is due, starts
    the deliveries that wait, turns off what keeps failing and raises notifications on the hub.
  \<^item> \<^bold>\<open>Setup values\<close> (setup/__init__.py), and the registry's instances, operations, tokens and secrets.

  The parts meet in the registry's tables and in values: a stop of a run raises a notification, a reply to
  one asks the runs engine or an instance, and a routine's note is the command the outbox takes
  (\<open>note_command\<close> gives a \<open>raise_command\<close>).

  \<^bold>\<open>Which theory models what.\<close>

  \<^item> Prelude: SQL statements on lists of rows, dictionaries as association lists, counters, numerals.
  \<^item> Run_Types (contracts/models.py), Factory_File (factories/file.py), Factory_Check (factories/check.py),
    Run_Rules (the functions at the end of hub/runs.py).
  \<^item> Run_Tables, Hub_Tables, Operations, Instances, Hub_Access, Notice_Tables (\<open>HubRegistry\<close> in
    hub/registry.py): a table is the list of its rows, and a method is a function from the tables to an
    error or its result and the tables.
  \<^item> Run_Engine, Run_Handlers, Run_Commands (\<open>FactoryRuns\<close> in hub/runs.py): the record \<open>engine\<close> holds the
    queues, timers and the run tables; a handler is an \<open>act\<close>, which gives a result or an error and the
    engine after it. Run_System makes the handlers, the workers and a restart the steps of one system.
  \<^item> Outbox, Replies, Channels (hub/outbox.py, hub/replies.py, hub/channels.py, hub/secrets.py), and
    Mail_System, the steps of the mail on one registry with restarts and a log of what was asked.
  \<^item> Gate, Shell_Reads (core/gate.py, instance/permissions.py, core/shell_reads.py, core/config.py).
  \<^item> Transcript (\<open>EventLog\<close>), Routine_History (\<open>routine_history\<close>), Scheduler (\<open>Scheduler\<close>).
  \<^item> Setup_Values (setup/__init__.py).

  \<^bold>\<open>What the lemmas show.\<close>

  \<^item> Run_Rules_Laws, Run_Tables_Laws, Run_Invariants: limits on retries and send-backs, which values a step
    starts with, the session chase ends, the keys and references of the run tables, and what stops tell.
  \<^item> Run_Protocol to Run_Finished: every handler keeps the protocol that each run has at most one step under
    way; Run_Promises states what follows for every reachable state of the hub. Run_Enqueue holds the locale
    \<open>step_queue\<close>, the contract of queueing that the handlers' lemmas use, and interprets it on \<open>enqueue\<close>.
  \<^item> Notice_Laws holds the locale \<open>served_table\<close>, rows with work left and the tasks that do it, interpreted for
    deliveries and for replies; Mail_Laws, Reply_Laws, Mail_Promises and Mail_Claims build on it: each row has
    its task, deliveries refine a small specification, no answer is asked twice, the daily cap, the cursor.
  \<^item> Channels_Laws: a channel is built with what was typed for it.
  \<^item> Gate_Laws, Shell_Reads_Laws: a lower mode permits no more, and what runs unasked stays in the workspace.
  \<^item> Transcript_Laws: threads are numbered without gaps, and a subscriber misses nothing. Routine_Laws and
    Routine_Pending: the fold computes the failures in a row and the deliveries that wait, against
    definitions that look at the events themselves. Scheduler_Laws: order, the failure policy, its settling.
  \<^item> Run_Gaps, and the last theorems of Gate_Laws, Shell_Reads_Laws, Channels_Laws and Scheduler_Laws: what
    the code does where it does not do what it says.

  \<^bold>\<open>Bounds and fuel.\<close> Queueing a step that cannot start fails an attempt, which may queue another step, so
  \<open>enqueue_rounds\<close> takes fuel. \<open>engine_fuel\<close> gives the retries and send-backs the run has left (\<open>budget_of\<close>),
  the waits a signal already matched, and two; each round uses one of them up (Run_Budget), so the fuel
  never runs out (Run_Enqueue), and no handler raises \<open>Out_Of_Fuel\<close> in a reachable state (Run_Promises). The session chase takes
  one more round than there are client steps, as a longer chain comes back to a step, and its theorem shows that it returns in a checked factory. Other recursions are structural or
  have a proof of termination.

  \<^bold>\<open>What is assumed.\<close> An id that is drawn, a clock that is read and the answer of another process are
  arguments. An operation that waits is split where it waits, and anything may happen in between; the
  process may end between two steps, not within one write. The factories the hub serves do not change
  while a run is under way, and each passed its check. A timer may run out at any moment. Characters are
  eight bits wide, with the ellipsis where Windows-1252 has it. Regular expressions, links, globs,
  \<open>urlsplit\<close>, cron, time zones and digests are arguments.

  \<^bold>\<open>Not modelled.\<close> Pure input and output and glue: the command line, the servers and sockets, containers
  and images (hub/docker.py), browsers, the services of channels (telegram, discord, email), files and git
  (snapshots, checkouts, library, templates), model providers and MCP. Turns and their runner: the
  graph they run on is a library, and the scheduler sees of a turn only the events it appends and
  whether it was taken. Memory, statistics and prices. The hub's service, which calls the registry, the
  engine and the mail in the order of a command, and waits for instances. PROJECT.json lists each with its
  reason. The web application is written in TypeScript.
\<close>

end
